(* ===== verification/PP_Prelude.thy ===== *)
theory PP_Prelude
  imports Main "HOL-Library.Word" "HOL-Library.Multiset"
begin

text \<open>
  Prelude of the development: the machine integers of the C code, the outcome type of a
  C function (a value, or the reason why it delivers none), array access with its bounds,
  and the generic facts on lists that several components share.

  A C function that can go wrong is a function into \<open>'a res\<close>. \<open>Inl UB\<close> is undefined
  behaviour (a null or dangling pointer followed, an access outside an array), \<open>Inl Deadlock\<close>
  a thread that blocks for ever on a mutex it already holds, \<open>Inl NoReturn\<close> a function that
  has not returned within the fuel it was given (or whose loop provably never ends).
\<close>

section \<open>Machine integers\<close>

type_synonym u16 = "16 word"
type_synonym u32 = "32 word"
type_synonym s32 = "32 word"  \<comment> \<open>C's \<open>int\<close>, read with \<open>sint\<close>\<close>

section \<open>Outcomes\<close>

datatype fault = UB | Deadlock | NoReturn

type_synonym 'a res = "fault + 'a"

named_theorems res_simps \<open>evaluation and inversion of outcomes\<close>

definition bindE :: "'a res \<Rightarrow> ('a \<Rightarrow> 'b res) \<Rightarrow> 'b res" where
  "bindE m f = (case m of Inl e \<Rightarrow> Inl e | Inr x \<Rightarrow> f x)"

lemma bindE_Inl [simp, res_simps]: "bindE (Inl e) f = Inl e"
  by (simp add: bindE_def)

lemma bindE_Inr [simp, res_simps]: "bindE (Inr x) f = f x"
  by (simp add: bindE_def)

lemma bindE_eq_Inr [res_simps]: "bindE m f = Inr y \<longleftrightarrow> (\<exists>x. m = Inr x \<and> f x = Inr y)"
  by (cases m) auto

lemma bindE_eq_Inl [res_simps]:
  "bindE m f = Inl e \<longleftrightarrow> m = Inl e \<or> (\<exists>x. m = Inr x \<and> f x = Inl e)"
  by (cases m) auto

lemma bindE_InrE [elim]:
  assumes "bindE m f = Inr y"
  obtains x where "m = Inr x" and "f x = Inr y"
  using assms by (cases m) auto

lemma bindE_cong [fundef_cong]:
  assumes "m = m'" and "\<And>x. m' = Inr x \<Longrightarrow> f x = g x"
  shows "bindE m f = bindE m' g"
  using assms by (cases m') auto

text \<open>No undefined behaviour: the outcome is a value, a deadlock or a missing return.\<close>

definition safe :: "'a res \<Rightarrow> bool" where
  "safe m \<longleftrightarrow> m \<noteq> Inl UB"

lemma safe_Inr [simp]: "safe (Inr x)"
  by (simp add: safe_def)

lemma safe_Inl [simp]: "safe (Inl e) \<longleftrightarrow> e \<noteq> UB"
  by (simp add: safe_def)

lemma safe_bindE: "safe m \<Longrightarrow> (\<And>x. m = Inr x \<Longrightarrow> safe (f x)) \<Longrightarrow> safe (bindE m f)"
  by (cases m) auto

section \<open>Arrays\<close>

definition arr_get :: "'a list \<Rightarrow> nat \<Rightarrow> 'a res" where
  "arr_get xs i = (if i < length xs then Inr (xs ! i) else Inl UB)"

lemma arr_get_Inr [res_simps]: "arr_get xs i = Inr x \<longleftrightarrow> i < length xs \<and> x = xs ! i"
  by (auto simp: arr_get_def)

lemma arr_get_in [simp]: "i < length xs \<Longrightarrow> arr_get xs i = Inr (xs ! i)"
  by (simp add: arr_get_def)

lemma arr_get_in_set: "arr_get xs i = Inr x \<Longrightarrow> x \<in> set xs"
  by (auto simp: arr_get_def split: if_splits)

section \<open>Lists\<close>

lemma takeWhile_append_stop:
  "\<forall>x \<in> set xs. P x \<Longrightarrow> \<not> P y \<Longrightarrow> takeWhile P (xs @ y # ys) = xs"
  by (induction xs) auto

lemma dropWhile_append_stop:
  "\<forall>x \<in> set xs. P x \<Longrightarrow> \<not> P y \<Longrightarrow> dropWhile P (xs @ y # ys) = y # ys"
  by (induction xs) auto

lemma takeWhile_all: "\<forall>x \<in> set xs. P x \<Longrightarrow> takeWhile P xs = xs"
  by (induction xs) auto

lemma dropWhile_all: "\<forall>x \<in> set xs. P x \<Longrightarrow> dropWhile P xs = []"
  by (induction xs) auto

lemma length_takeWhile_dropWhile:
  "length (takeWhile P xs) + length (dropWhile P xs) = length xs"
  by (metis length_append takeWhile_dropWhile_id)

text \<open>Index of the first element that satisfies \<open>P\<close>, running off the end being undefined.\<close>

fun scan :: "('a \<Rightarrow> bool) \<Rightarrow> 'a list \<Rightarrow> nat res" where
  "scan P [] = Inl UB"
| "scan P (x # xs) = (if P x then Inr 0 else bindE (scan P xs) (\<lambda>i. Inr (Suc i)))"

lemma scan_InrD:
  "scan P xs = Inr i \<Longrightarrow> i < length xs \<and> P (xs ! i) \<and> (\<forall>j < i. \<not> P (xs ! j))"
proof (induction xs arbitrary: i)
  case Nil
  then show ?case by simp
next
  case (Cons x xs)
  then show ?case
    by (auto split: if_splits simp: nth_Cons split: nat.splits)
qed

lemma scan_safe_iff: "scan P xs = Inl UB \<longleftrightarrow> (\<forall>x \<in> set xs. \<not> P x)"
  by (induction xs) (auto simp: res_simps)

lemma scan_ex: "x \<in> set xs \<Longrightarrow> P x \<Longrightarrow> \<exists>i. scan P xs = Inr i"
  by (induction xs) auto

lemma scan_eq_InrI:
  "i < length xs \<Longrightarrow> P (xs ! i) \<Longrightarrow> (\<And>j. j < i \<Longrightarrow> \<not> P (xs ! j)) \<Longrightarrow> scan P xs = Inr i"
proof (induction xs arbitrary: i)
  case Nil
  then show ?case by simp
next
  case (Cons x xs)
  show ?case
  proof (cases i)
    case 0
    with Cons.prems show ?thesis by simp
  next
    case (Suc k)
    with Cons.prems(3)[of 0] have "\<not> P x" by simp
    moreover have "\<not> P (xs ! j)" if "j < k" for j
      using Cons.prems(3)[of "Suc j"] Suc that by simp
    then have "scan P xs = Inr k"
      using Cons.prems Suc by (intro Cons.IH) auto
    ultimately show ?thesis using Suc by simp
  qed
qed

end
