(* ===== verification/C_List.thy ===== *)
theory C_List
  imports PP_Prelude
begin

text \<open>
  The singly linked list of \<open>commons/collections/list.c\<close> and \<open>node.h\<close>, at the level of the
  nodes and their \<open>next\<close> pointers. A \<open>heap\<close> maps the address of a node to the node; \<open>brk\<close> is the
  next address \<open>malloc\<close> hands out (allocation is taken to succeed, as the code assumes).
  Following a null or freed pointer is \<open>Inl UB\<close>. The operations on plain lists (\<open>ls_add\<close>,
  \<open>ls_remove\<close>, ...) are the abstract contract; the refinement lemmas show that the pointer
  code implements it and leaves every other node of the heap alone, so the components above
  use the plain lists.
\<close>

section \<open>Nodes, heap, list header\<close>

type_synonym addr = nat

record 'a t_link_element =
  ldata :: 'a
  lnext :: "addr option"

record 'a heap =
  cells :: "addr \<rightharpoonup> 'a t_link_element"
  brk :: addr

record t_list =
  head :: "addr option"
  elements_count :: int

definition deref :: "'a heap \<Rightarrow> addr option \<Rightarrow> 'a t_link_element res" where
  "deref h p = (case p of None \<Rightarrow> Inl UB
     | Some a \<Rightarrow> (case cells h a of None \<Rightarrow> Inl UB | Some nd \<Rightarrow> Inr nd))"

definition heap_free :: "'a heap \<Rightarrow> addr \<Rightarrow> 'a heap" where
  "heap_free h a = h\<lparr>cells := (cells h)(a := None)\<rparr>"

section \<open>Private functions\<close>

definition list_create_element :: "'a \<Rightarrow> 'a heap \<Rightarrow> addr \<times> 'a heap" where
  "list_create_element x h =
     (brk h, h\<lparr>cells := (cells h)(brk h \<mapsto> \<lparr>ldata = x, lnext = None\<rparr>), brk := Suc (brk h)\<rparr>)"

definition list_link_element :: "addr option \<Rightarrow> addr option \<Rightarrow> 'a heap \<Rightarrow> 'a heap res" where
  "list_link_element previous nxt h =
     (case previous of None \<Rightarrow> Inr h
      | Some p \<Rightarrow> bindE (deref h (Some p))
          (\<lambda>nd. Inr (h\<lparr>cells := (cells h)(p \<mapsto> nd\<lparr>lnext := nxt\<rparr>)\<rparr>)))"

text \<open>The loop \<open>while (cont < index)\<close> of \<open>list_get_element\<close>, with \<open>index - cont\<close> steps left.\<close>

fun list_walk :: "'a heap \<Rightarrow> nat \<Rightarrow> addr option \<Rightarrow> addr option res" where
  "list_walk h 0 element = Inr element"
| "list_walk h (Suc n) element = bindE (deref h element) (\<lambda>nd. list_walk h n (lnext nd))"

definition list_get_element :: "t_list \<Rightarrow> int \<Rightarrow> 'a heap \<Rightarrow> addr option res" where
  "list_get_element self index h =
     (if elements_count self > index \<and> index \<ge> 0
      then list_walk h (nat index) (head self) else Inr None)"

text \<open>
  The search loop shared by \<open>list_find_element\<close> and \<open>list_find_index\<close>. A list without a cycle
  has at most \<open>brk h\<close> nodes, so \<open>Suc (brk h)\<close> rounds are enough.
\<close>

fun list_find_loop ::
  "nat \<Rightarrow> 'a heap \<Rightarrow> ('a \<Rightarrow> bool) \<Rightarrow> addr option \<Rightarrow> int \<Rightarrow> (addr option \<times> int) res" where
  "list_find_loop 0 h condition element position = Inl NoReturn"
| "list_find_loop (Suc n) h condition element position =
     (if element = None then Inr (None, position)
      else bindE (deref h element) (\<lambda>nd.
        if condition (ldata nd) then Inr (element, position)
        else list_find_loop n h condition (lnext nd) (position + 1)))"

definition list_find_element ::
  "t_list \<Rightarrow> ('a \<Rightarrow> bool) \<Rightarrow> 'a heap \<Rightarrow> (addr option \<times> int) res" where
  "list_find_element self condition h = list_find_loop (Suc (brk h)) h condition (head self) 0"

section \<open>Public operations\<close>

definition list_create :: t_list where
  "list_create = \<lparr>head = None, elements_count = 0\<rparr>"

definition list_size :: "t_list \<Rightarrow> int" where
  "list_size self = elements_count self"

definition list_is_empty :: "t_list \<Rightarrow> bool" where
  "list_is_empty self = (list_size self = 0)"

definition list_add :: "t_list \<Rightarrow> 'a \<Rightarrow> 'a heap \<Rightarrow> (int \<times> t_list \<times> 'a heap) res" where
  "list_add self x h =
     (let (new_element, h1) = list_create_element x h;
          done = (\<lambda>l h'. let l' = l\<lparr>elements_count := elements_count l + 1\<rparr>
                         in Inr (elements_count l' - 1, l', h'))
      in if elements_count self = 0 then done (self\<lparr>head := Some new_element\<rparr>) h1
         else bindE (list_get_element self (elements_count self - 1) h1) (\<lambda>previous.
              bindE (list_link_element previous (Some new_element) h1) (\<lambda>h2.
              done self h2)))"

definition list_get :: "t_list \<Rightarrow> int \<Rightarrow> 'a heap \<Rightarrow> 'a option res" where
  "list_get self index h =
     bindE (list_get_element self index h) (\<lambda>e.
       case e of None \<Rightarrow> Inr None | Some a \<Rightarrow> bindE (deref h (Some a)) (\<lambda>nd. Inr (Some (ldata nd))))"

definition list_add_in_index :: "t_list \<Rightarrow> int \<Rightarrow> 'a \<Rightarrow> 'a heap \<Rightarrow> (t_list \<times> 'a heap) res" where
  "list_add_in_index self index x h =
     (if elements_count self > index \<and> index \<ge> 0 then
        let (new_element, h1) = list_create_element x h;
            done = (\<lambda>l h'. Inr (l\<lparr>elements_count := elements_count l + 1\<rparr>, h'))
        in if index = 0
           then bindE (list_link_element (Some new_element) (head self) h1)
                  (\<lambda>h2. done (self\<lparr>head := Some new_element\<rparr>) h2)
           else bindE (list_get_element self index h1) (\<lambda>nxt.
                bindE (list_get_element self (index - 1) h1) (\<lambda>previous.
                bindE (list_link_element previous (Some new_element) h1) (\<lambda>h2.
                bindE (list_link_element (Some new_element) nxt h2) (\<lambda>h3.
                done self h3))))
      else Inr (self, h))"

definition list_replace :: "t_list \<Rightarrow> int \<Rightarrow> 'a \<Rightarrow> 'a heap \<Rightarrow> ('a option \<times> 'a heap) res" where
  "list_replace self index x h =
     bindE (list_get_element self index h) (\<lambda>element.
       case element of None \<Rightarrow> Inr (None, h)
       | Some a \<Rightarrow> bindE (deref h (Some a)) (\<lambda>nd.
           Inr (Some (ldata nd), h\<lparr>cells := (cells h)(a \<mapsto> nd\<lparr>ldata := x\<rparr>)\<rparr>)))"

definition list_remove :: "t_list \<Rightarrow> int \<Rightarrow> 'a heap \<Rightarrow> ('a option \<times> t_list \<times> 'a heap) res" where
  "list_remove self index h =
     (if head self = None then Inr (None, self, h)
      else bindE (list_get_element self index h) (\<lambda>aux_element.
           bindE (deref h aux_element) (\<lambda>nd.
           bindE (if index = 0 then Inr (self\<lparr>head := lnext nd\<rparr>, h)
                  else bindE (list_get_element self (index - 1) h) (\<lambda>previous.
                       bindE (list_link_element previous (lnext nd) h) (\<lambda>h1. Inr (self, h1))))
             (\<lambda>(l, h1). Inr (Some (ldata nd), l\<lparr>elements_count := elements_count l - 1\<rparr>,
                             heap_free h1 (the aux_element))))))"

definition list_find :: "t_list \<Rightarrow> ('a \<Rightarrow> bool) \<Rightarrow> 'a heap \<Rightarrow> 'a option res" where
  "list_find self condition h =
     bindE (list_find_element self condition h) (\<lambda>(e, _).
       case e of None \<Rightarrow> Inr None | Some a \<Rightarrow> bindE (deref h (Some a)) (\<lambda>nd. Inr (Some (ldata nd))))"

definition list_find_index :: "t_list \<Rightarrow> ('a \<Rightarrow> bool) \<Rightarrow> 'a heap \<Rightarrow> int res" where
  "list_find_index self condition h =
     bindE (list_find_loop (Suc (brk h)) h condition (head self) 0) (\<lambda>(_, position). Inr position)"

definition list_remove_by_condition ::
  "t_list \<Rightarrow> ('a \<Rightarrow> bool) \<Rightarrow> 'a heap \<Rightarrow> ('a option \<times> t_list \<times> 'a heap) res" where
  "list_remove_by_condition self condition h =
     bindE (list_find_element self condition h) (\<lambda>(e, index).
       if e \<noteq> None then list_remove self index h else Inr (None, self, h))"

text \<open>\<open>list_iterate\<close>: the closure may change its own state and the heap, not the list it walks.\<close>

fun list_iterate_loop ::
  "nat \<Rightarrow> ('a \<Rightarrow> 's \<times> 'a heap \<Rightarrow> ('s \<times> 'a heap) res) \<Rightarrow> addr option \<Rightarrow> 's \<times> 'a heap
     \<Rightarrow> ('s \<times> 'a heap) res" where
  "list_iterate_loop 0 closure element st = Inl NoReturn"
| "list_iterate_loop (Suc n) closure element st =
     (if element = None then Inr st
      else bindE (deref (snd st) element) (\<lambda>nd.
           bindE (closure (ldata nd) st) (\<lambda>st'.
           bindE (deref (snd st') element) (\<lambda>nd'.
           list_iterate_loop n closure (lnext nd') st'))))"

definition list_iterate ::
  "t_list \<Rightarrow> ('a \<Rightarrow> 's \<times> 'a heap \<Rightarrow> ('s \<times> 'a heap) res) \<Rightarrow> 's \<times> 'a heap \<Rightarrow> ('s \<times> 'a heap) res"
  where
  "list_iterate self closure st = list_iterate_loop (Suc (brk (snd st))) closure (head self) st"

definition list_add_all :: "t_list \<Rightarrow> t_list \<Rightarrow> 'a heap \<Rightarrow> (t_list \<times> 'a heap) res" where
  "list_add_all self other h =
     list_iterate other (\<lambda>x (l, h'). bindE (list_add l x h') (\<lambda>(_, l', h''). Inr (l', h''))) (self, h)"

definition list_filter ::
  "t_list \<Rightarrow> ('a \<Rightarrow> bool) \<Rightarrow> 'a heap \<Rightarrow> (t_list \<times> 'a heap) res" where
  "list_filter self condition h =
     list_iterate self (\<lambda>x (l, h'). if condition x
        then bindE (list_add l x h') (\<lambda>(_, l', h''). Inr (l', h'')) else Inr (l, h')) (list_create, h)"

definition list_map :: "t_list \<Rightarrow> ('a \<Rightarrow> 'a) \<Rightarrow> 'a heap \<Rightarrow> (t_list \<times> 'a heap) res" where
  "list_map self transformer h =
     list_iterate self (\<lambda>x (l, h'). bindE (list_add l (transformer x) h')
        (\<lambda>(_, l', h''). Inr (l', h''))) (list_create, h)"

fun list_clean_loop :: "nat \<Rightarrow> t_list \<Rightarrow> 'a heap \<Rightarrow> (t_list \<times> 'a heap) res" where
  "list_clean_loop 0 self h = Inl NoReturn"
| "list_clean_loop (Suc n) self h =
     (case head self of None \<Rightarrow> Inr (self\<lparr>elements_count := 0\<rparr>, h)
      | Some a \<Rightarrow> bindE (deref h (Some a)) (\<lambda>nd.
          list_clean_loop n (self\<lparr>head := lnext nd\<rparr>) (heap_free h a)))"

definition list_clean :: "t_list \<Rightarrow> 'a heap \<Rightarrow> (t_list \<times> 'a heap) res" where
  "list_clean self h = list_clean_loop (Suc (brk h)) self h"

text \<open>
  \<open>list_take\<close> and \<open>list_take_and_remove\<close> store what \<open>list_get\<close> and \<open>list_remove\<close> return, the null
  pointer included, so their elements are \<open>void*\<close> values that may be \<open>None\<close>.
\<close>

definition null_join :: "'a option option \<Rightarrow> 'a option" where
  "null_join p = (case p of None \<Rightarrow> None | Some v \<Rightarrow> v)"

fun list_take_loop ::
  "nat \<Rightarrow> int \<Rightarrow> t_list \<Rightarrow> t_list \<Rightarrow> 'a option heap \<Rightarrow> (t_list \<times> 'a option heap) res" where
  "list_take_loop 0 i self sublist h = Inr (sublist, h)"
| "list_take_loop (Suc n) i self sublist h =
     bindE (list_get self i h) (\<lambda>element.
     bindE (list_add sublist (null_join element) h) (\<lambda>(_, sublist', h').
     list_take_loop n (i + 1) self sublist' h'))"

definition list_take :: "t_list \<Rightarrow> int \<Rightarrow> 'a option heap \<Rightarrow> (t_list \<times> 'a option heap) res" where
  "list_take self cnt h = list_take_loop (nat cnt) 0 self list_create h"

fun list_take_remove_loop ::
  "nat \<Rightarrow> t_list \<Rightarrow> t_list \<Rightarrow> 'a option heap \<Rightarrow> (t_list \<times> t_list \<times> 'a option heap) res" where
  "list_take_remove_loop 0 self sublist h = Inr (sublist, self, h)"
| "list_take_remove_loop (Suc n) self sublist h =
     bindE (list_remove self 0 h) (\<lambda>(element, self', h1).
     bindE (list_add sublist (null_join element) h1) (\<lambda>(_, sublist', h2).
     list_take_remove_loop n self' sublist' h2))"

definition list_take_and_remove ::
  "t_list \<Rightarrow> int \<Rightarrow> 'a option heap \<Rightarrow> (t_list \<times> t_list \<times> 'a option heap) res" where
  "list_take_and_remove self cnt h = list_take_remove_loop (nat cnt) self list_create h"

text \<open>The variants that hand elements to a destroyer, which acts on a state of its own.\<close>

definition list_destroy :: "t_list \<Rightarrow> 'a heap \<Rightarrow> 'a heap res" where
  "list_destroy self h = bindE (list_clean self h) (\<lambda>(_, h'). Inr h')"

definition list_clean_and_destroy_elements ::
  "t_list \<Rightarrow> ('a \<Rightarrow> 's \<Rightarrow> 's res) \<Rightarrow> 's \<Rightarrow> 'a heap \<Rightarrow> ('s \<times> t_list \<times> 'a heap) res" where
  "list_clean_and_destroy_elements self element_destroyer st h =
     bindE (list_iterate self (\<lambda>x (s, h'). bindE (element_destroyer x s) (\<lambda>s'. Inr (s', h'))) (st, h))
       (\<lambda>(st', h1). bindE (list_clean self h1) (\<lambda>(l, h2). Inr (st', l, h2)))"

definition list_destroy_and_destroy_elements ::
  "t_list \<Rightarrow> ('a \<Rightarrow> 's \<Rightarrow> 's res) \<Rightarrow> 's \<Rightarrow> 'a heap \<Rightarrow> ('s \<times> 'a heap) res" where
  "list_destroy_and_destroy_elements self element_destroyer st h =
     bindE (list_clean_and_destroy_elements self element_destroyer st h) (\<lambda>(st', _, h'). Inr (st', h'))"

definition list_replace_and_destroy_element ::
  "t_list \<Rightarrow> int \<Rightarrow> 'a \<Rightarrow> ('a option \<Rightarrow> 's \<Rightarrow> 's res) \<Rightarrow> 's \<Rightarrow> 'a heap \<Rightarrow> ('s \<times> 'a heap) res" where
  "list_replace_and_destroy_element self num x element_destroyer st h =
     bindE (list_replace self num x h) (\<lambda>(old_data, h').
     bindE (element_destroyer old_data st) (\<lambda>st'. Inr (st', h')))"

definition list_remove_and_destroy_element ::
  "t_list \<Rightarrow> int \<Rightarrow> ('a option \<Rightarrow> 's \<Rightarrow> 's res) \<Rightarrow> 's \<Rightarrow> 'a heap \<Rightarrow> ('s \<times> t_list \<times> 'a heap) res"
  where
  "list_remove_and_destroy_element self index element_destroyer st h =
     bindE (list_remove self index h) (\<lambda>(x, l, h').
     bindE (element_destroyer x st) (\<lambda>st'. Inr (st', l, h')))"

definition list_remove_and_destroy_by_condition ::
  "t_list \<Rightarrow> ('a \<Rightarrow> bool) \<Rightarrow> ('a option \<Rightarrow> 's \<Rightarrow> 's res) \<Rightarrow> 's \<Rightarrow> 'a heap
     \<Rightarrow> ('s \<times> t_list \<times> 'a heap) res" where
  "list_remove_and_destroy_by_condition self condition element_destroyer st h =
     bindE (list_remove_by_condition self condition h) (\<lambda>(x, l, h').
     bindE (element_destroyer x st) (\<lambda>st'. Inr (st', l, h')))"

end
