(* ===== verification/C_List_Spec.thy ===== *)
theory C_List_Spec
  imports C_List
begin

text \<open>
  The contract of \<open>list.c\<close>: the abstract operations on plain lists, the representation predicate
  \<open>list_at h l as xs\<close> (the header \<open>l\<close> owns the nodes at the addresses \<open>as\<close>, which hold \<open>xs\<close>),
  and the lemmas that every pointer operation refines its abstract one and frames the rest of
  the heap.
\<close>

section \<open>Abstract operations\<close>

definition ls_add :: "'a list \<Rightarrow> 'a \<Rightarrow> 'a list" where
  "ls_add xs x = xs @ [x]"

definition ls_get :: "'a list \<Rightarrow> int \<Rightarrow> 'a option" where
  "ls_get xs i = (if 0 \<le> i \<and> i < int (length xs) then Some (xs ! nat i) else None)"

definition ls_add_in_index :: "'a list \<Rightarrow> int \<Rightarrow> 'a \<Rightarrow> 'a list" where
  "ls_add_in_index xs i x =
     (if int (length xs) > i \<and> i \<ge> 0 then take (nat i) xs @ x # drop (nat i) xs else xs)"

definition ls_replace :: "'a list \<Rightarrow> int \<Rightarrow> 'a \<Rightarrow> 'a list" where
  "ls_replace xs i x = (if 0 \<le> i \<and> i < int (length xs) then xs[nat i := x] else xs)"

definition ls_remove :: "'a list \<Rightarrow> int \<Rightarrow> ('a option \<times> 'a list) res" where
  "ls_remove xs i =
     (if xs = [] then Inr (None, xs)
      else if 0 \<le> i \<and> i < int (length xs)
      then Inr (Some (xs ! nat i), take (nat i) xs @ drop (Suc (nat i)) xs)
      else Inl UB)"

lemma ls_remove_0 [simp]: "ls_remove (x # xs) 0 = Inr (Some x, xs)"
  by (simp add: ls_remove_def)

lemma ls_remove_Nil [simp]: "ls_remove [] i = Inr (None, [])"
  by (simp add: ls_remove_def)

section \<open>Representation of a list in the heap\<close>

fun hseg :: "'a heap \<Rightarrow> addr option \<Rightarrow> addr list \<Rightarrow> 'a list \<Rightarrow> addr option \<Rightarrow> bool" where
  "hseg h p [] [] q = (p = q)"
| "hseg h p (a # as) (x # xs) q =
     (p = Some a \<and> (case cells h a of None \<Rightarrow> False
        | Some nd \<Rightarrow> ldata nd = x \<and> hseg h (lnext nd) as xs q))"
| "hseg h p _ _ q = False"

definition list_at :: "'a heap \<Rightarrow> t_list \<Rightarrow> addr list \<Rightarrow> 'a list \<Rightarrow> bool" where
  "list_at h l as xs \<longleftrightarrow> hseg h (head l) as xs None \<and> distinct as
     \<and> elements_count l = int (length xs) \<and> (\<forall>a \<in> set as. a < brk h)"

text \<open>The heap outside the addresses \<open>A\<close> and outside fresh ones is the same.\<close>

definition frame :: "addr set \<Rightarrow> 'a heap \<Rightarrow> 'a heap \<Rightarrow> bool" where
  "frame A h h' \<longleftrightarrow> brk h \<le> brk h' \<and> (\<forall>a. a \<notin> A \<and> a < brk h \<longrightarrow> cells h' a = cells h a)"

lemma frame_refl [simp]: "frame A h h"
  by (simp add: frame_def)

lemma frame_trans: "frame A h h1 \<Longrightarrow> frame A h1 h2 \<Longrightarrow> frame A h h2"
  by (auto simp: frame_def)

lemma hseg_length: "hseg h p as xs q \<Longrightarrow> length as = length xs"
  by (induction h p as xs q rule: hseg.induct) (auto split: option.splits)

lemma hseg_append:
  "length as = length xs \<Longrightarrow>
   hseg h p (as @ bs) (xs @ ys) q \<longleftrightarrow> (\<exists>m. hseg h p as xs m \<and> hseg h m bs ys q)"
  by (induction as xs arbitrary: p rule: list_induct2) (auto split: option.splits)

lemma hseg_cong:
  "hseg h p as xs q \<Longrightarrow> (\<And>a. a \<in> set as \<Longrightarrow> cells h' a = cells h a) \<Longrightarrow> hseg h' p as xs q"
  by (induction h p as xs q rule: hseg.induct) (auto split: option.splits)

lemma list_at_frame:
  "list_at h l as xs \<Longrightarrow> frame A h h' \<Longrightarrow> set as \<inter> A = {} \<Longrightarrow> list_at h' l as xs"
proof -
  assume at: "list_at h l as xs" and fr: "frame A h h'" and dj: "set as \<inter> A = {}"
  have same: "cells h' a = cells h a" if "a \<in> set as" for a
    using at fr dj that by (auto simp: list_at_def frame_def)
  then have "hseg h' (head l) as xs None"
    using at unfolding list_at_def by (auto elim: hseg_cong)
  with at fr show ?thesis by (fastforce simp: list_at_def frame_def)
qed

lemma hseg_nth:
  "hseg h p as xs None \<Longrightarrow> n < length as \<Longrightarrow>
   list_walk h n p = Inr (Some (as ! n)) \<and>
   cells h (as ! n) = Some \<lparr>ldata = xs ! n,
       lnext = (if Suc n < length as then Some (as ! Suc n) else None)\<rparr>"
proof (induction h p as xs "None :: addr option" arbitrary: n rule: hseg.induct)
  case (2 h p a as x xs)
  then obtain nd where nd: "cells h a = Some nd" "p = Some a" "ldata nd = x"
      "hseg h (lnext nd) as xs None"
    by (auto split: option.splits)
  have nx: "lnext nd = (if as = [] then None else Some (hd as))"
    using nd(4) by (cases as; cases xs) auto
  show ?case
  proof (cases n)
    case 0
    with nd nx show ?thesis by (cases nd) (auto simp: hd_conv_nth)
  next
    case (Suc m)
    with 2 nd show ?thesis by (auto simp: deref_def)
  qed
qed auto

lemma list_get_element_at:
  assumes "list_at h l as xs"
  shows "list_get_element l i h =
    Inr (if 0 \<le> i \<and> i < int (length xs) then Some (as ! nat i) else None)"
  using assms hseg_nth[of h "head l" as xs "nat i"] hseg_length[of h "head l" as xs None]
  by (auto simp: list_get_element_def list_at_def nat_less_iff)

lemma list_at_node:
  "list_at h l as xs \<Longrightarrow> n < length xs \<Longrightarrow>
   cells h (as ! n) = Some \<lparr>ldata = xs ! n,
       lnext = (if Suc n < length as then Some (as ! Suc n) else None)\<rparr>"
  using hseg_nth[of h "head l" as xs n] hseg_length[of h "head l" as xs None]
  by (auto simp: list_at_def)

lemma list_at_length: "list_at h l as xs \<Longrightarrow> length as = length xs"
  by (auto simp: list_at_def dest: hseg_length)

lemma list_at_empty_iff: "list_at h l as xs \<Longrightarrow> head l = None \<longleftrightarrow> xs = []"
  unfolding list_at_def by (cases as; cases xs) auto

lemma list_at_hd: "list_at h l as xs \<Longrightarrow> xs \<noteq> [] \<Longrightarrow> head l = Some (as ! 0)"
  unfolding list_at_def by (cases as; cases xs) auto

section \<open>Each operation refines its abstract one\<close>

lemma list_create_at [simp]: "list_at h list_create [] []"
  by (simp add: list_at_def list_create_def)

lemma list_size_at: "list_at h l as xs \<Longrightarrow> list_size l = int (length xs)"
  by (simp add: list_at_def list_size_def)

lemma list_is_empty_at: "list_at h l as xs \<Longrightarrow> list_is_empty l \<longleftrightarrow> xs = []"
  by (simp add: list_is_empty_def list_size_at)

lemma list_get_at: "list_at h l as xs \<Longrightarrow> list_get l i h = Inr (ls_get xs i)"
  by (auto simp: list_get_def list_get_element_at ls_get_def deref_def nat_less_iff
      dest: list_at_node[where n = "nat i"])

text \<open>Cutting a list at a node, and re-linking the last node of a segment.\<close>

lemma list_at_split:
  assumes "list_at h l as xs" and "n < length xs"
  obtains nd where "hseg h (head l) (take n as) (take n xs) (Some (as ! n))"
    and "cells h (as ! n) = Some nd" and "ldata nd = xs ! n"
    and "hseg h (lnext nd) (drop (Suc n) as) (drop (Suc n) xs) None"
proof -
  have len: "length as = length xs" using assms(1) by (rule list_at_length)
  have e: "as = take n as @ as ! n # drop (Suc n) as" "xs = take n xs @ xs ! n # drop (Suc n) xs"
    using assms(2) len by (simp_all add: id_take_nth_drop)
  have "hseg h (head l) (take n as @ as ! n # drop (Suc n) as)
          (take n xs @ xs ! n # drop (Suc n) xs) None"
    using assms(1) e unfolding list_at_def by metis
  then have "\<exists>m. hseg h (head l) (take n as) (take n xs) m
      \<and> hseg h m (as ! n # drop (Suc n) as) (xs ! n # drop (Suc n) xs) None"
    using len by (subst (asm) hseg_append) auto
  then show thesis using that by (auto split: option.splits)
qed

lemma hseg_relink:
  assumes "hseg h p (as @ [a]) (xs @ [x]) q" and "a \<notin> set as" and "length as = length xs"
    and "\<And>b. b \<in> set as \<Longrightarrow> cells h' b = cells h b"
    and "cells h' a = Some \<lparr>ldata = x, lnext = q'\<rparr>"
  shows "hseg h' p (as @ [a]) (xs @ [x]) q'"
proof -
  from assms(1,3) have "hseg h p as xs (Some a)" by (auto simp: hseg_append)
  then have "hseg h' p as xs (Some a)" by (rule hseg_cong) (use assms(4) in auto)
  with assms(3,5) show ?thesis by (auto simp: hseg_append)
qed

lemma list_link_elementI:
  "cells h a = Some nd \<Longrightarrow> list_link_element (Some a) q h
     = Inr (h\<lparr>cells := (cells h)(a \<mapsto> \<lparr>ldata = ldata nd, lnext = q\<rparr>)\<rparr>)"
  by (cases nd) (simp add: list_link_element_def deref_def)

lemma list_at_alloc:
  assumes "list_at h l as xs" and "list_create_element x h = (b, h1)"
  shows "list_at h1 l as xs" and "b = brk h" and "b \<notin> set as" and "frame A h h1"
    and "cells h1 b = Some \<lparr>ldata = x, lnext = None\<rparr>" and "brk h1 = Suc b"
proof -
  have e: "b = brk h" "h1 = h\<lparr>cells := (cells h)(b \<mapsto> \<lparr>ldata = x, lnext = None\<rparr>), brk := Suc b\<rparr>"
    using assms(2) by (auto simp: list_create_element_def)
  then show "b = brk h" "cells h1 b = Some \<lparr>ldata = x, lnext = None\<rparr>" "brk h1 = Suc b"
    and fr: "frame A h h1" for A by (auto simp: frame_def)
  show "b \<notin> set as" using assms(1) e by (auto simp: list_at_def)
  show "list_at h1 l as xs"
    by (rule list_at_frame[OF assms(1), where A = "{}"]) (use e in \<open>auto simp: frame_def\<close>)
qed

lemma list_add_at:
  assumes at: "list_at h l as xs"
  shows "\<exists>l' h'. list_add l x h = Inr (int (length xs), l', h')
     \<and> list_at h' l' (as @ [brk h]) (ls_add xs x) \<and> frame (set as) h h'"
proof -
  obtain b h1 where c: "list_create_element x h = (b, h1)" by (metis surj_pair)
  note al = list_at_alloc[OF at c]
  show ?thesis
  proof (cases "xs = []")
    case True
    with at have "as = []" using list_at_length by fastforce
    with True at al c show ?thesis
      by (auto simp: list_add_def list_at_def Let_def ls_add_def)
  next
    case False
    let ?k = "length xs - 1"
    let ?l' = "l\<lparr>elements_count := elements_count l + 1\<rparr>"
    have len: "length as = length xs" using at by (rule list_at_length)
    have k: "?k < length xs" "drop (Suc ?k) as = []" "take ?k as @ [as ! ?k] = as"
        "take ?k xs @ [xs ! ?k] = xs"
      using False len by (simp_all add: take_Suc_conv_app_nth[symmetric])
    obtain nd where nd: "cells h1 (as ! ?k) = Some nd" "ldata nd = xs ! ?k"
      by (rule list_at_split[OF al(1) k(1)])
    let ?h2 = "h1\<lparr>cells := (cells h1)(as ! ?k \<mapsto> \<lparr>ldata = ldata nd, lnext = Some b\<rparr>)\<rparr>"
    have d: "as ! ?k \<notin> set (take ?k as)" "as ! ?k \<in> set as"
      using at k len unfolding list_at_def
      by (metis distinct_append not_distinct_conv_prefix append_Nil2, metis nth_mem)
    have "hseg ?h2 (head l) (take ?k as @ [as ! ?k]) (take ?k xs @ [xs ! ?k]) (Some b)"
    proof (rule hseg_relink[where h = h1 and q = None])
      show "hseg h1 (head l) (take ?k as @ [as ! ?k]) (take ?k xs @ [xs ! ?k]) None"
        using al(1) k by (simp add: list_at_def)
    qed (use d nd len in auto)
    then have "hseg ?h2 (head l) (as @ [b]) (xs @ [x]) None"
      using k al(3,5) d(2) len by (subst hseg_append) auto
    then have "list_at ?h2 ?l' (as @ [brk h]) (ls_add xs x)"
      using at al by (auto simp: list_at_def ls_add_def)
    moreover have "elements_count l = int (length xs)" "nat (int (length xs) - 1) = ?k"
      using at by (simp_all add: list_at_def nat_diff_distrib)
    then have "list_add l x h = Inr (int (length xs), ?l', ?h2)"
      using False c nd list_get_element_at[OF al(1), of "int (length xs) - 1"]
      by (simp add: list_add_def list_link_elementI)
    moreover have "frame (set as) h ?h2"
      using al(4)[of "set as"] d(2) by (auto simp: frame_def)
    ultimately show ?thesis by blast
  qed
qed

text \<open>A segment up to position \<open>n\<close>, its last node re-linked to \<open>q\<close>.\<close>

lemma list_at_prefix_relink:
  assumes at: "list_at h l as xs" and n: "n < length xs"
    and same: "\<And>b. b \<in> set (take n as) \<Longrightarrow> cells h' b = cells h b"
    and upd: "cells h' (as ! n) = Some \<lparr>ldata = xs ! n, lnext = q\<rparr>"
  shows "hseg h' (head l) (take (Suc n) as) (take (Suc n) xs) q"
proof -
  have len: "length as = length xs" using at by (rule list_at_length)
  obtain nd where nd: "hseg h (head l) (take n as) (take n xs) (Some (as ! n))"
    by (rule list_at_split[OF at n])
  have "hseg h' (head l) (take n as) (take n xs) (Some (as ! n))"
    using nd same by (rule hseg_cong)
  with upd show ?thesis
    using n len by (simp add: take_Suc_conv_app_nth hseg_append)
qed

lemma nth_notin_take: "distinct as \<Longrightarrow> n < length as \<Longrightarrow> as ! n \<notin> set (take n as)"
  by (auto simp: in_set_conv_nth nth_eq_iff_index_eq)

lemma nth_notin_drop: "distinct as \<Longrightarrow> n < length as \<Longrightarrow> n < k \<Longrightarrow> as ! n \<notin> set (drop k as)"
  by (auto simp: in_set_conv_nth nth_eq_iff_index_eq)

lemma list_at_simps:
  assumes "list_at h l as xs"
  shows "hseg h (head l) as xs None" and "distinct as" and "elements_count l = int (length xs)"
    and "\<And>a. a \<in> set as \<Longrightarrow> a < brk h" and "length as = length xs"
  using assms list_at_length[OF assms] by (auto simp: list_at_def)

lemma list_add_in_index_at:
  assumes at: "list_at h l as xs" and i: "0 \<le> i" "i < int (length xs)"
  shows "\<exists>l' h'. list_add_in_index l i x h = Inr (l', h')
     \<and> list_at h' l' (take (nat i) as @ brk h # drop (nat i) as) (ls_add_in_index xs i x)
     \<and> frame (set as) h h'"
proof -
  note ls = list_at_simps[OF at]
  obtain b h1 where c: "list_create_element x h = (b, h1)" by (metis surj_pair)
  note al = list_at_alloc[OF at c]
  let ?l' = "\<lambda>l. l\<lparr>elements_count := elements_count l + 1\<rparr>"
  show ?thesis
  proof (cases "i = 0")
    case True
    let ?h2 = "h1\<lparr>cells := (cells h1)(b \<mapsto> \<lparr>ldata = x, lnext = head l\<rparr>)\<rparr>"
    let ?l2 = "?l' (l\<lparr>head := Some b\<rparr>)"
    have "hseg ?h2 (head l) as xs None"
      using list_at_simps(1)[OF al(1)] by (rule hseg_cong) (use al(3) in auto)
    then have "list_at ?h2 ?l2 (b # as) (x # xs)"
      using ls al by (fastforce simp: list_at_def dest: list_at_simps(4)[OF al(1)])
    moreover have "frame (set as) h ?h2"
      using al(2) al(4)[of "set as"] by (auto simp: frame_def)
    moreover have "list_add_in_index l i x h = Inr (?l2, ?h2)"
      using True i ls c al(5) by (simp add: list_add_in_index_def list_link_elementI)
    ultimately show ?thesis using True i al(2) by (auto simp: ls_add_in_index_def)
  next
    case False
    define k where "k = nat i - 1"
    have k: "nat i = Suc k" "Suc k < length xs" "i = int (Suc k)" "i - 1 = int k"
      using False i by (simp_all add: k_def)
    obtain pn where pn: "cells h1 (as ! k) = Some pn" "ldata pn = xs ! k"
      by (rule list_at_split[OF al(1), of k]) (use k in auto)
    have d: "as ! k \<noteq> b" using al(3) k ls(5) by (metis nth_mem Suc_lessD)
    obtain nd where nd: "cells h1 (as ! Suc k) = Some nd" "ldata nd = xs ! Suc k"
      and tl: "hseg h1 (lnext nd) (drop (Suc (Suc k)) as) (drop (Suc (Suc k)) xs) None"
      by (rule list_at_split[OF al(1) k(2)])
    let ?h2 = "h1\<lparr>cells := (cells h1)(as ! k \<mapsto> \<lparr>ldata = xs ! k, lnext = Some b\<rparr>)\<rparr>"
    let ?h3 = "?h2\<lparr>cells := (cells ?h2)(b \<mapsto> \<lparr>ldata = x, lnext = Some (as ! Suc k)\<rparr>)\<rparr>"
    have pre: "hseg ?h3 (head l) (take (Suc k) as) (take (Suc k) xs) (Some b)"
    proof (rule list_at_prefix_relink[OF al(1)])
      fix a assume "a \<in> set (take k as)"
      then show "cells ?h3 a = cells h1 a"
        using nth_notin_take[OF ls(2), of k] al(3) k ls(5) by (auto dest: in_set_takeD)
    qed (use d k in auto)
    have "hseg h1 (Some (as ! Suc k)) (as ! Suc k # drop (Suc (Suc k)) as)
            (xs ! Suc k # drop (Suc (Suc k)) xs) None"
      using nd tl by simp
    then have "hseg h1 (Some (as ! Suc k)) (drop (Suc k) as) (drop (Suc k) xs) None"
      using k(2) ls(5) by (metis Cons_nth_drop_Suc)
    then have suf: "hseg ?h3 (Some (as ! Suc k)) (drop (Suc k) as) (drop (Suc k) xs) None"
      by (rule hseg_cong)
        (use nth_notin_drop[OF ls(2), of k "Suc k"] al(3) k ls(5) in \<open>auto dest: in_set_dropD\<close>)
    have "hseg ?h3 (head l) (take (Suc k) as @ b # drop (Suc k) as)
             (take (Suc k) xs @ x # drop (Suc k) xs) None"
      using pre suf k ls(5) by (subst hseg_append) auto
    moreover have "distinct (take (Suc k) as @ b # drop (Suc k) as)"
      using ls(2) al(3) by (auto dest: in_set_takeD in_set_dropD set_take_disj_set_drop_if_distinct)
    ultimately have "list_at ?h3 (?l' l) (take (Suc k) as @ b # drop (Suc k) as)
        (take (Suc k) xs @ x # drop (Suc k) xs)"
      using ls al(2,6) k by (fastforce simp: list_at_def dest: in_set_takeD in_set_dropD)
    moreover have "list_add_in_index l i x h = Inr (?l' l, ?h3)"
    proof -
      have "list_get_element l i h1 = Inr (Some (as ! Suc k))"
          "list_get_element l (i - 1) h1 = Inr (Some (as ! k))"
        using i k(1) by (simp add: list_get_element_at[OF al(1)])
          (use k(2,4) in \<open>simp add: list_get_element_at[OF al(1)]\<close>)
      then show ?thesis
        using False i ls(3) c pn d al(5) by (simp add: list_add_in_index_def list_link_elementI)
    qed
    moreover have "frame (set as) h ?h3"
      using al(2) al(4)[of "set as"] k ls(5) by (auto simp: frame_def)
    ultimately show ?thesis using k(1) i al(2) by (auto simp: ls_add_in_index_def)
  qed
qed

lemma list_add_in_index_out:
  "list_at h l as xs \<Longrightarrow> i < 0 \<or> int (length xs) \<le> i \<Longrightarrow>
   list_add_in_index l i x h = Inr (l, h) \<and> ls_add_in_index xs i x = xs"
  by (auto simp: list_add_in_index_def ls_add_in_index_def dest: list_at_simps(3))

lemma list_replace_at:
  assumes at: "list_at h l as xs"
  shows "\<exists>h'. list_replace l i x h = Inr (ls_get xs i, h')
     \<and> list_at h' l as (ls_replace xs i x) \<and> frame (set as) h h'"
proof (cases "0 \<le> i \<and> i < int (length xs)")
  case False
  with at show ?thesis
    by (auto simp: list_replace_def list_get_element_at ls_get_def ls_replace_def)
next
  case True
  define n where "n = nat i"
  have n: "n < length xs" using True by (simp add: n_def nat_less_iff)
  note ls = list_at_simps[OF at]
  obtain nd where nd: "cells h (as ! n) = Some nd" "ldata nd = xs ! n"
      "hseg h (lnext nd) (drop (Suc n) as) (drop (Suc n) xs) None"
      "hseg h (head l) (take n as) (take n xs) (Some (as ! n))"
    by (rule list_at_split[OF at n])
  let ?h' = "h\<lparr>cells := (cells h)(as ! n \<mapsto> nd\<lparr>ldata := x\<rparr>)\<rparr>"
  have "hseg ?h' (head l) (take n as) (take n xs) (Some (as ! n))"
    using nd(4) by (rule hseg_cong) (use nth_notin_take[OF ls(2), of n] n ls(5) in auto)
  moreover have "hseg ?h' (lnext nd) (drop (Suc n) as) (drop (Suc n) xs) None"
    using nd(3) by (rule hseg_cong) (use nth_notin_drop[OF ls(2), of n "Suc n"] n ls(5) in auto)
  ultimately have "hseg ?h' (head l) (take n as @ as ! n # drop (Suc n) as)
      (take n xs @ x # drop (Suc n) xs) None"
    using n ls(5) by (subst hseg_append) auto
  then have "hseg ?h' (head l) as (xs[n := x]) None"
    using n ls(5) by (simp add: upd_conv_take_nth_drop id_take_nth_drop[symmetric])
  then have "list_at ?h' l as (ls_replace xs i x)"
    using ls True by (simp add: list_at_def ls_replace_def n_def)
  moreover have "list_replace l i x h = Inr (ls_get xs i, ?h')"
    using True nd by (simp add: list_replace_def list_get_element_at[OF at] deref_def ls_get_def n_def)
  moreover have "frame (set as) h ?h'" using n ls(5) by (auto simp: frame_def)
  ultimately show ?thesis by blast
qed

text \<open>Removing: the header or the previous node skips the removed node, which is freed.\<close>

lemma list_remove_at:
  assumes at: "list_at h l as xs" and i: "0 \<le> i" "i < int (length xs)"
  shows "\<exists>l' h'. list_remove l i h = Inr (Some (xs ! nat i), l', h')
     \<and> list_at h' l' (take (nat i) as @ drop (Suc (nat i)) as) (take (nat i) xs @ drop (Suc (nat i)) xs)
     \<and> frame (set as) h h' \<and> cells h' (as ! nat i) = None"
proof -
  note ls = list_at_simps[OF at]
  define n where "n = nat i"
  have n: "n < length xs" "i = int n" using i by (simp_all add: n_def nat_less_iff)
  obtain nd where nd: "cells h (as ! n) = Some nd" "ldata nd = xs ! n"
      "hseg h (lnext nd) (drop (Suc n) as) (drop (Suc n) xs) None"
    by (rule list_at_split[OF at n(1)])
  have hd_ne: "head l \<noteq> None" using list_at_empty_iff[OF at] n by auto
  have ge: "list_get_element l i h = Inr (Some (as ! n))"
    using i by (simp add: list_get_element_at[OF at] n_def)
  have dist: "distinct (take n as @ drop (Suc n) as)"
    using ls(2) by (simp add: set_take_disj_set_drop_if_distinct)
  show ?thesis
  proof (cases "i = 0")
    case True
    let ?h' = "heap_free h (as ! 0)" and ?l' = "l\<lparr>head := lnext nd, elements_count := elements_count l - 1\<rparr>"
    have "hseg ?h' (lnext nd) (drop 1 as) (drop 1 xs) None"
    proof (rule hseg_cong)
      show "hseg h (lnext nd) (drop 1 as) (drop 1 xs) None" using nd(3) True n by simp
    qed (use nth_notin_drop[OF ls(2), of 0 1] n ls(5) True in \<open>auto simp: heap_free_def\<close>)
    then have "list_at ?h' ?l' (drop 1 as) (drop 1 xs)"
      using ls n by (auto simp: list_at_def heap_free_def dest: in_set_dropD)
    moreover have "list_remove l i h = Inr (Some (xs ! 0), ?l', ?h')"
      using True hd_ne ge nd n by (simp add: list_remove_def deref_def)
    moreover have "frame (set as) h ?h'" "cells ?h' (as ! 0) = None"
      using nth_mem[of 0 as] n ls(5) True by (auto simp: frame_def heap_free_def)
    ultimately show ?thesis using True by auto
  next
    case False
    then obtain k where k: "n = Suc k" using n by (cases n) auto
    obtain pn where pn: "cells h (as ! k) = Some pn" "ldata pn = xs ! k"
      by (rule list_at_split[OF at, of k]) (use k n in auto)
    have dk: "as ! k \<noteq> as ! n" using ls(2,5) k n by (simp add: nth_eq_iff_index_eq)
    let ?h1 = "h\<lparr>cells := (cells h)(as ! k \<mapsto> \<lparr>ldata = xs ! k, lnext = lnext nd\<rparr>)\<rparr>"
    let ?h' = "heap_free ?h1 (as ! n)" and ?l' = "l\<lparr>elements_count := elements_count l - 1\<rparr>"
    have "hseg ?h' (head l) (take (Suc k) as) (take (Suc k) xs) (lnext nd)"
    proof (rule list_at_prefix_relink[OF at])
      fix a assume a: "a \<in> set (take k as)"
      moreover have "set (take k as) \<subseteq> set (take n as)" using k by (simp add: set_take_subset_set_take)
      ultimately have "a \<noteq> as ! k" "a \<noteq> as ! n"
        using nth_notin_take[OF ls(2), of k] nth_notin_take[OF ls(2), of n] k n ls(5) by auto
      then show "cells ?h' a = cells h a" by (simp add: heap_free_def)
    qed (use dk k n in \<open>auto simp: heap_free_def\<close>)
    moreover have "hseg ?h' (lnext nd) (drop (Suc n) as) (drop (Suc n) xs) None"
      using nd(3) by (rule hseg_cong)
        (use nth_notin_drop[OF ls(2), of k "Suc n"] nth_notin_drop[OF ls(2), of n "Suc n"] k n ls(5)
          in \<open>auto simp: heap_free_def\<close>)
    ultimately have "hseg ?h' (head l) (take n as @ drop (Suc n) as) (take n xs @ drop (Suc n) xs) None"
      using k n ls(5) by (subst hseg_append) auto
    then have "list_at ?h' ?l' (take n as @ drop (Suc n) as) (take n xs @ drop (Suc n) xs)"
      using ls dist n by (auto simp: list_at_def heap_free_def dest: in_set_takeD in_set_dropD)
    moreover have "list_get_element l (i - 1) h = Inr (Some (as ! k))"
      using k n by (simp add: list_get_element_at[OF at])
    then have "list_remove l i h = Inr (Some (xs ! n), ?l', ?h')"
      using False hd_ne ge nd pn by (simp add: list_remove_def deref_def list_link_elementI)
    moreover have "frame (set as) h ?h'" "cells ?h' (as ! n) = None"
      using n k ls(5) by (auto simp: frame_def heap_free_def)
    ultimately show ?thesis using n by auto
  qed
qed

lemma list_remove_empty: "list_at h l as [] \<Longrightarrow> list_remove l i h = Inr (None, l, h)"
  using list_at_empty_iff[of h l as "[]"] by (simp add: list_remove_def)

lemma list_remove_out:
  "list_at h l as xs \<Longrightarrow> xs \<noteq> [] \<Longrightarrow> i < 0 \<or> int (length xs) \<le> i \<Longrightarrow> list_remove l i h = Inl UB"
  using list_at_empty_iff[of h l as xs]
  by (auto simp: list_remove_def list_get_element_at deref_def)

text \<open>The three cases in one statement, over the abstract operation.\<close>

lemma list_remove_refines:
  assumes "list_at h l as xs"
  shows "case ls_remove xs i of
      Inl e \<Rightarrow> list_remove l i h = Inl e
    | Inr (x, xs') \<Rightarrow> \<exists>l' h' as'. list_remove l i h = Inr (x, l', h') \<and> list_at h' l' as' xs'
        \<and> set as' \<subseteq> set as \<and> frame (set as) h h'"
proof (cases "xs = [] \<or> (0 \<le> i \<and> i < int (length xs))")
  case True
  then show ?thesis
  proof
    assume "xs = []"
    then show ?thesis using assms list_remove_empty by fastforce
  next
    assume i: "0 \<le> i \<and> i < int (length xs)"
    then have "xs \<noteq> []" by auto
    with i list_remove_at[OF assms, of i] show ?thesis
      by (fastforce simp: ls_remove_def dest: in_set_takeD in_set_dropD)
  qed
next
  case False
  then show ?thesis using list_remove_out[OF assms] by (auto simp: ls_remove_def)
qed

subsection \<open>Searching, clearing, iterating\<close>

lemma list_at_fuel: "list_at h l as xs \<Longrightarrow> length as \<le> brk h"
proof -
  assume at: "list_at h l as xs"
  have "set as \<subseteq> {..<brk h}" using at by (auto simp: list_at_def)
  then have "card (set as) \<le> card {..<brk h}" by (rule card_mono[rotated]) simp
  with at show ?thesis by (simp add: list_at_def distinct_card)
qed

definition find_pos :: "('a \<Rightarrow> bool) \<Rightarrow> 'a list \<Rightarrow> nat" where
  "find_pos c xs = length (takeWhile (\<lambda>x. \<not> c x) xs)"

lemma list_find_loop_at:
  "hseg h p as xs None \<Longrightarrow> length as < n \<Longrightarrow>
   list_find_loop n h c p pos =
     Inr (if find_pos c xs < length xs then Some (as ! find_pos c xs) else None,
          pos + int (find_pos c xs))"
proof (induction n arbitrary: p as xs pos)
  case 0
  then show ?case by simp
next
  case (Suc n)
  show ?case
  proof (cases as)
    case Nil
    with Suc.prems hseg_length[of h p as xs None] show ?thesis by (auto simp: find_pos_def)
  next
    case (Cons a as')
    then obtain x xs' where xs: "xs = x # xs'" using Suc.prems(1) by (cases xs) auto
    then obtain nd where nd: "p = Some a" "cells h a = Some nd" "ldata nd = x"
        "hseg h (lnext nd) as' xs' None"
      using Suc.prems(1) Cons by (auto split: option.splits)
    with Suc.IH[OF nd(4)] Suc.prems(2) Cons xs show ?thesis
      by (auto simp: deref_def find_pos_def)
  qed
qed

lemma find_pos_less: "find_pos c xs < length xs \<longleftrightarrow> (\<exists>x \<in> set xs. c x)"
  by (induction xs) (auto simp: find_pos_def)

lemma find_pos_nth: "find_pos c xs < length xs \<Longrightarrow> c (xs ! find_pos c xs)"
  unfolding find_pos_def using nth_length_takeWhile by fastforce

lemma find_pos_before: "j < find_pos c xs \<Longrightarrow> \<not> c (xs ! j)"
  unfolding find_pos_def by (metis nth_mem set_takeWhileD takeWhile_nth)

lemma find_pos_takeWhile: "take (find_pos c xs) xs = takeWhile (\<lambda>x. \<not> c x) xs"
  by (induction xs) (auto simp: find_pos_def)

lemma find_pos_dropWhile: "drop (Suc (find_pos c xs)) xs = tl (dropWhile (\<lambda>x. \<not> c x) xs)"
  by (induction xs) (auto simp: find_pos_def)

lemma find_eq_pos:
  "find c xs = (if find_pos c xs < length xs then Some (xs ! find_pos c xs) else None)"
  by (induction xs) (auto simp: find_pos_def)

lemma list_find_element_at:
  assumes "list_at h l as xs"
  shows "list_find_element l c h =
     Inr (if find_pos c xs < length xs then Some (as ! find_pos c xs) else None, int (find_pos c xs))"
  unfolding list_find_element_def
  using list_find_loop_at[OF list_at_simps(1)[OF assms], of "Suc (brk h)" c 0] list_at_fuel[OF assms]
  by simp

lemma list_find_at:
  assumes "list_at h l as xs"
  shows "list_find l c h = Inr (find c xs)"
  using list_find_element_at[OF assms, of c] list_at_node[OF assms, of "find_pos c xs"]
  by (simp add: list_find_def deref_def find_eq_pos)

lemma list_find_index_at: "list_at h l as xs \<Longrightarrow> list_find_index l c h = Inr (int (find_pos c xs))"
  using list_find_element_at[of h l as xs c]
  by (simp add: list_find_index_def list_find_element_def del: list_find_loop.simps)

lemma list_remove_by_condition_at:
  assumes "list_at h l as xs"
  shows "\<exists>l' h' as'. list_remove_by_condition l c h =
      Inr (find c xs, l', h')
    \<and> list_at h' l' as' (take (find_pos c xs) xs @ drop (Suc (find_pos c xs)) xs)
    \<and> set as' \<subseteq> set as \<and> frame (set as) h h'"
proof (cases "find_pos c xs < length xs")
  case True
  let ?i = "int (find_pos c xs)"
  obtain l' h' where "list_remove l ?i h = Inr (Some (xs ! find_pos c xs), l', h')"
    and "list_at h' l' (take (find_pos c xs) as @ drop (Suc (find_pos c xs)) as)
          (take (find_pos c xs) xs @ drop (Suc (find_pos c xs)) xs)" and "frame (set as) h h'"
    using list_remove_at[OF assms, of ?i] True by auto
  moreover have "set (take (find_pos c xs) as @ drop (Suc (find_pos c xs)) as) \<subseteq> set as"
    by (auto dest: in_set_takeD in_set_dropD)
  ultimately show ?thesis
    using True list_find_element_at[OF assms, of c]
    by (auto simp: list_remove_by_condition_def find_eq_pos
        intro!: exI[of _ "take (find_pos c xs) as @ drop (Suc (find_pos c xs)) as"])
next
  case False
  with list_find_element_at[OF assms, of c] assms show ?thesis
    by (fastforce simp: list_remove_by_condition_def find_eq_pos)
qed

lemma list_clean_loop_at:
  "hseg h (head l) as xs None \<Longrightarrow> distinct as \<Longrightarrow> length as < n \<Longrightarrow>
   \<exists>h'. list_clean_loop n l h = Inr (\<lparr>head = None, elements_count = 0\<rparr>, h')
     \<and> brk h' = brk h \<and> (\<forall>a. cells h' a = (if a \<in> set as then None else cells h a))"
proof (induction n arbitrary: l h as xs)
  case 0
  then show ?case by simp
next
  case (Suc n)
  show ?case
  proof (cases as)
    case Nil
    with Suc.prems hseg_length[of h "head l" as xs None] show ?thesis by (cases l) auto
  next
    case (Cons a as')
    then obtain x xs' where xs: "xs = x # xs'" using Suc.prems(1) by (cases xs) auto
    then obtain nd where nd: "head l = Some a" "cells h a = Some nd" "hseg h (lnext nd) as' xs' None"
      using Suc.prems(1) Cons by (auto split: option.splits)
    have "hseg (heap_free h a) (lnext nd) as' xs' None"
      using nd(3) by (rule hseg_cong) (use Suc.prems(2) Cons in \<open>auto simp: heap_free_def\<close>)
    then have "\<exists>h'. list_clean_loop n (l\<lparr>head := lnext nd\<rparr>) (heap_free h a)
          = Inr (\<lparr>head = None, elements_count = 0\<rparr>, h') \<and> brk h' = brk (heap_free h a)
        \<and> (\<forall>b. cells h' b = (if b \<in> set as' then None else cells (heap_free h a) b))"
      using Suc.prems Cons by (intro Suc.IH) auto
    with nd Cons show ?thesis by (auto simp: deref_def heap_free_def)
  qed
qed

lemma list_clean_at:
  assumes "list_at h l as xs"
  shows "\<exists>h'. list_clean l h = Inr (list_create, h') \<and> frame (set as) h h'
     \<and> (\<forall>a \<in> set as. cells h' a = None)"
  using list_clean_loop_at[OF list_at_simps(1,2)[OF assms], of "Suc (brk h)"] list_at_fuel[OF assms]
  by (auto simp: list_clean_def list_create_def frame_def)

text \<open>Iteration with an invariant on the elements already visited.\<close>

lemma list_iterate_loop_at:
  assumes step: "\<And>dn x rest st. xs0 = dn @ x # rest \<Longrightarrow> I dn st \<Longrightarrow> list_at (snd st) l as0 xs0
      \<Longrightarrow> \<exists>st'. closure x st = Inr st' \<and> I (dn @ [x]) st' \<and> list_at (snd st') l as0 xs0"
  shows "xs0 = dn @ xs \<Longrightarrow> as0 = das @ as \<Longrightarrow> length das = length dn \<Longrightarrow> I dn st
    \<Longrightarrow> list_at (snd st) l as0 xs0 \<Longrightarrow> p = (if as = [] then None else Some (hd as)) \<Longrightarrow> length as < n
    \<Longrightarrow> \<exists>st'. list_iterate_loop n closure p st = Inr st' \<and> I xs0 st' \<and> list_at (snd st') l as0 xs0"
proof (induction n arbitrary: p as xs das dn st)
  case 0
  then show ?case by simp
next
  case (Suc n)
  have len: "length as = length xs" using list_at_length[OF Suc.prems(5)] Suc.prems by simp
  show ?case
  proof (cases as)
    case Nil
    with Suc.prems len show ?thesis by auto
  next
    case (Cons a as')
    then obtain x xs' where xs: "xs = x # xs'" using len by (cases xs) auto
    let ?k = "length dn"
    have node: "cells (snd s) a = Some \<lparr>ldata = x, lnext = (if as' = [] then None else Some (hd as'))\<rparr>"
      if "list_at (snd s) l as0 xs0" for s :: "'b \<times> 'a heap"
      using list_at_node[OF that, of ?k] Suc.prems(1-3) Cons xs
      by (auto simp: nth_append hd_conv_nth)
    obtain st' where st': "closure x st = Inr st'" "I (dn @ [x]) st'" "list_at (snd st') l as0 xs0"
      using step[of dn x xs' st] Suc.prems xs by blast
    have "\<exists>st''. list_iterate_loop n closure (if as' = [] then None else Some (hd as')) st' = Inr st''
        \<and> I xs0 st'' \<and> list_at (snd st'') l as0 xs0"
      by (rule Suc.IH[where xs = xs' and das = "das @ [a]" and as = as' and dn = "dn @ [x]"])
        (use Suc.prems Cons xs st' in auto)
    then show ?thesis
      using node[OF Suc.prems(5)] node[OF st'(3)] st'(1) Cons Suc.prems(6)
      by (simp add: deref_def)
  qed
qed

lemma list_iterate_at:
  assumes "list_at (snd st) l as xs" and "I [] st"
    and "\<And>dn x rest st. xs = dn @ x # rest \<Longrightarrow> I dn st \<Longrightarrow> list_at (snd st) l as xs
      \<Longrightarrow> \<exists>st'. closure x st = Inr st' \<and> I (dn @ [x]) st' \<and> list_at (snd st') l as xs"
  shows "\<exists>st'. list_iterate l closure st = Inr st' \<and> I xs st' \<and> list_at (snd st') l as xs"
  unfolding list_iterate_def
proof (rule list_iterate_loop_at[where xs = xs and as = as and das = "[]" and dn = "[]"
      and xs0 = xs and as0 = as and l = l])
  show "head l = (if as = [] then None else Some (hd as))"
    using list_at_empty_iff[OF assms(1)] list_at_hd[OF assms(1)] list_at_length[OF assms(1)]
    by (auto simp: hd_conv_nth)
  show "length as < Suc (brk (snd st))" using list_at_fuel[OF assms(1)] by simp
qed (use assms in auto)

text \<open>
  A closure that appends to a second list in the same heap keeps the first one intact; the three
  library functions that work this way then compute append, filter and map.
\<close>

lemma list_append_step:
  assumes "list_at h l as xs" and "list_at h s bs ys" and "set as \<inter> set bs = {}"
  shows "\<exists>s' h' bs'. list_add s y h = Inr (int (length ys), s', h') \<and> list_at h' s' bs' (ys @ [y])
    \<and> list_at h' l as xs \<and> set as \<inter> set bs' = {}"
proof -
  obtain s' h' where a: "list_add s y h = Inr (int (length ys), s', h')"
    and at: "list_at h' s' (bs @ [brk h]) (ls_add ys y)" and fr: "frame (set bs) h h'"
    using list_add_at[OF assms(2)] by blast
  have "list_at h' l as xs" by (rule list_at_frame[OF assms(1) fr assms(3)])
  moreover have "brk h \<notin> set as" using list_at_simps(4)[OF assms(1)] by blast
  ultimately show ?thesis using a at assms(3) by (fastforce simp: ls_add_def)
qed

definition beside :: "'a heap \<Rightarrow> t_list \<Rightarrow> addr list \<Rightarrow> 'a list \<Rightarrow> bool" where
  "beside h s as ys \<longleftrightarrow> (\<exists>bs. list_at h s bs ys \<and> set as \<inter> set bs = {})"

lemma beside_create: "beside h list_create as []"
  unfolding beside_def by (rule exI[of _ "[]"]) simp

lemma list_add_beside:
  assumes "list_at h l as xs" and "beside h s as ys"
  shows "\<exists>s' h'. list_add s y h = Inr (int (length ys), s', h') \<and> beside h' s' as (ys @ [y])
    \<and> list_at h' l as xs"
  using assms(2) list_append_step[OF assms(1)] unfolding beside_def by meson

lemma beside_step:
  assumes "list_at (snd st) l as xs" and "beside (snd st) (fst st) as ys"
  shows "\<exists>st'. bindE (list_add (fst st) y (snd st)) (\<lambda>(_, l', h''). Inr (l', h'')) = Inr st'
    \<and> beside (snd st') (fst st') as (ys @ [y]) \<and> list_at (snd st') l as xs"
  using list_add_beside[OF assms, of y] by auto

lemma list_add_all_at:
  assumes at: "list_at h other as xs" and b: "beside h self as ys"
  shows "\<exists>l' h'. list_add_all self other h = Inr (l', h') \<and> beside h' l' as (ys @ xs)
     \<and> list_at h' other as xs"
proof -
  have "\<exists>st'. list_add_all self other h = Inr st' \<and> beside (snd st') (fst st') as (ys @ xs)
      \<and> list_at (snd st') other as xs"
    unfolding list_add_all_def
  proof (rule list_iterate_at[where I = "\<lambda>dn st. beside (snd st) (fst st) as (ys @ dn)"])
    fix dn x rest and st :: "t_list \<times> 'a heap"
    assume "list_at (snd st) other as xs" "beside (snd st) (fst st) as (ys @ dn)"
    from beside_step[OF this, of x]
    show "\<exists>st'. (case st of (l, h') \<Rightarrow> bindE (list_add l x h') (\<lambda>(_, l', h''). Inr (l', h''))) = Inr st'
        \<and> beside (snd st') (fst st') as (ys @ dn @ [x]) \<and> list_at (snd st') other as xs"
      by (simp add: case_prod_unfold)
  qed (use at b in simp_all)
  then show ?thesis by auto
qed

lemma list_filter_at:
  assumes at: "list_at h self as xs"
  shows "\<exists>l' h'. list_filter self c h = Inr (l', h') \<and> beside h' l' as (filter c xs)
     \<and> list_at h' self as xs"
proof -
  have "\<exists>st'. list_filter self c h = Inr st' \<and> beside (snd st') (fst st') as (filter c xs)
      \<and> list_at (snd st') self as xs"
    unfolding list_filter_def
  proof (rule list_iterate_at[where I = "\<lambda>dn st. beside (snd st) (fst st) as (filter c dn)"])
    fix dn x rest and st :: "t_list \<times> 'a heap"
    assume a: "list_at (snd st) self as xs" "beside (snd st) (fst st) as (filter c dn)"
    from beside_step[OF this, of x] a
    show "\<exists>st'. (case st of (l, h') \<Rightarrow> if c x then bindE (list_add l x h') (\<lambda>(_, l', h''). Inr (l', h''))
          else Inr (l, h')) = Inr st'
        \<and> beside (snd st') (fst st') as (filter c (dn @ [x])) \<and> list_at (snd st') self as xs"
      by (cases st) (simp add: case_prod_unfold)
  qed (use at beside_create in simp_all)
  then show ?thesis by auto
qed

lemma list_map_at:
  assumes at: "list_at h self as xs"
  shows "\<exists>l' h'. list_map self f h = Inr (l', h') \<and> beside h' l' as (map f xs)
     \<and> list_at h' self as xs"
proof -
  have "\<exists>st'. list_map self f h = Inr st' \<and> beside (snd st') (fst st') as (map f xs)
      \<and> list_at (snd st') self as xs"
    unfolding list_map_def
  proof (rule list_iterate_at[where I = "\<lambda>dn st. beside (snd st) (fst st) as (map f dn)"])
    fix dn x rest and st :: "t_list \<times> 'a heap"
    assume "list_at (snd st) self as xs" "beside (snd st) (fst st) as (map f dn)"
    from beside_step[OF this, of "f x"]
    show "\<exists>st'. (case st of (l, h') \<Rightarrow> bindE (list_add l (f x) h') (\<lambda>(_, l', h''). Inr (l', h''))) = Inr st'
        \<and> beside (snd st') (fst st') as (map f (dn @ [x])) \<and> list_at (snd st') self as xs"
      by (simp add: case_prod_unfold)
  qed (use at beside_create in simp_all)
  then show ?thesis by auto
qed

end
