(* ===== verification/C_Queue.thy ===== *)
theory C_Queue
  imports C_List_Spec
begin

text \<open>
  \<open>commons/collections/queue.c\<close>: a queue is a pointer to a list. The interface every client of a
  queue relies on is the locale \<open>fifo_store\<close>; it is interpreted on the pointer code and on the
  plain lists the scheduler theories use for their queues.
\<close>

record t_queue =
  elements :: t_list

definition queue_create :: t_queue where
  "queue_create = \<lparr>elements = list_create\<rparr>"

definition queue_clean :: "t_queue \<Rightarrow> 'a heap \<Rightarrow> (t_queue \<times> 'a heap) res" where
  "queue_clean self h =
     bindE (list_clean (elements self) h) (\<lambda>(l, h'). Inr (self\<lparr>elements := l\<rparr>, h'))"

definition queue_clean_and_destroy_elements ::
  "t_queue \<Rightarrow> ('a \<Rightarrow> 's \<Rightarrow> 's res) \<Rightarrow> 's \<Rightarrow> 'a heap \<Rightarrow> ('s \<times> t_queue \<times> 'a heap) res" where
  "queue_clean_and_destroy_elements self element_destroyer st h =
     bindE (list_clean_and_destroy_elements (elements self) element_destroyer st h)
       (\<lambda>(st', l, h'). Inr (st', self\<lparr>elements := l\<rparr>, h'))"

definition queue_destroy :: "t_queue \<Rightarrow> 'a heap \<Rightarrow> 'a heap res" where
  "queue_destroy self h = list_destroy (elements self) h"

definition queue_destroy_and_destroy_elements ::
  "t_queue \<Rightarrow> ('a \<Rightarrow> 's \<Rightarrow> 's res) \<Rightarrow> 's \<Rightarrow> 'a heap \<Rightarrow> ('s \<times> 'a heap) res" where
  "queue_destroy_and_destroy_elements self element_destroyer st h =
     list_destroy_and_destroy_elements (elements self) element_destroyer st h"

definition queue_push :: "t_queue \<Rightarrow> 'a \<Rightarrow> 'a heap \<Rightarrow> (t_queue \<times> 'a heap) res" where
  "queue_push self element h =
     bindE (list_add (elements self) element h) (\<lambda>(_, l, h'). Inr (self\<lparr>elements := l\<rparr>, h'))"

definition queue_pop :: "t_queue \<Rightarrow> 'a heap \<Rightarrow> ('a option \<times> t_queue \<times> 'a heap) res" where
  "queue_pop self h =
     bindE (list_remove (elements self) 0 h) (\<lambda>(x, l, h'). Inr (x, self\<lparr>elements := l\<rparr>, h'))"

definition queue_peek :: "t_queue \<Rightarrow> 'a heap \<Rightarrow> 'a option res" where
  "queue_peek self h = list_get (elements self) 0 h"

definition queue_size :: "t_queue \<Rightarrow> int" where
  "queue_size self = list_size (elements self)"

definition queue_is_empty :: "t_queue \<Rightarrow> bool" where
  "queue_is_empty self = list_is_empty (elements self)"

section \<open>Abstract queues\<close>

definition lq_push :: "'a list \<Rightarrow> 'a \<Rightarrow> 'a list" where
  "lq_push q x = ls_add q x"

definition lq_pop :: "'a list \<Rightarrow> 'a option \<times> 'a list" where
  "lq_pop q = (case q of [] \<Rightarrow> (None, []) | x # q' \<Rightarrow> (Some x, q'))"

lemma lq_pop_simps [simp]: "lq_pop [] = (None, [])" "lq_pop (x # q) = (Some x, q)"
  by (simp_all add: lq_pop_def)

lemma lq_push_simp [simp]: "lq_push q x = q @ [x]"
  by (simp add: lq_push_def ls_add_def)

text \<open>Pushing a list of elements, and popping a number of times.\<close>

fun push_all :: "('q \<Rightarrow> 'a \<Rightarrow> 's \<Rightarrow> ('q \<times> 's) res) \<Rightarrow> 'q \<Rightarrow> 'a list \<Rightarrow> 's \<Rightarrow> ('q \<times> 's) res" where
  "push_all push q [] s = Inr (q, s)"
| "push_all push q (x # xs) s = bindE (push q x s) (\<lambda>(q', s'). push_all push q' xs s')"

fun pop_n ::
  "('q \<Rightarrow> 's \<Rightarrow> ('a option \<times> 'q \<times> 's) res) \<Rightarrow> nat \<Rightarrow> 'q \<Rightarrow> 's \<Rightarrow> ('a option list \<times> 'q \<times> 's) res"
  where
  "pop_n pop 0 q s = Inr ([], q, s)"
| "pop_n pop (Suc n) q s = bindE (pop q s) (\<lambda>(x, q', s').
     bindE (pop_n pop n q' s') (\<lambda>(xs, q'', s''). Inr (x # xs, q'', s'')))"

section \<open>The queue interface\<close>

locale fifo_store =
  fixes rep :: "'s \<Rightarrow> 'q \<Rightarrow> 'a list \<Rightarrow> bool"
    and push :: "'q \<Rightarrow> 'a \<Rightarrow> 's \<Rightarrow> ('q \<times> 's) res"
    and pop :: "'q \<Rightarrow> 's \<Rightarrow> ('a option \<times> 'q \<times> 's) res"
    and qsize :: "'q \<Rightarrow> int"
  assumes rep_push: "rep s q xs \<Longrightarrow> \<exists>q' s'. push q x s = Inr (q', s') \<and> rep s' q' (xs @ [x])"
    and rep_pop_Cons: "rep s q (x # xs) \<Longrightarrow> \<exists>q' s'. pop q s = Inr (Some x, q', s') \<and> rep s' q' xs"
    and rep_pop_Nil: "rep s q [] \<Longrightarrow> pop q s = Inr (None, q, s)"
    and rep_size: "rep s q xs \<Longrightarrow> qsize q = int (length xs)"
begin

lemma push_all_rep:
  "rep s q xs \<Longrightarrow> \<exists>q' s'. push_all push q ys s = Inr (q', s') \<and> rep s' q' (xs @ ys)"
proof (induction ys arbitrary: q s xs)
  case Nil
  then show ?case by simp
next
  case (Cons y ys)
  obtain q1 s1 where "push q y s = Inr (q1, s1)" "rep s1 q1 (xs @ [y])"
    using rep_push[OF Cons.prems] by blast
  with Cons.IH[of s1 q1 "xs @ [y]"] show ?case by auto
qed

lemma pop_n_rep:
  "rep s q xs \<Longrightarrow> n \<le> length xs \<Longrightarrow>
   \<exists>q' s'. pop_n pop n q s = Inr (map Some (take n xs), q', s') \<and> rep s' q' (drop n xs)"
proof (induction n arbitrary: q s xs)
  case 0
  then show ?case by simp
next
  case (Suc n)
  then obtain x xs' where xs: "xs = x # xs'" by (cases xs) auto
  with Suc.prems obtain q1 s1 where "pop q s = Inr (Some x, q1, s1)" "rep s1 q1 xs'"
    using rep_pop_Cons by blast
  with Suc.IH[of s1 q1 xs'] Suc.prems(2) xs show ?case by fastforce
qed

lemma first_in_first_out:
  assumes "rep s q []"
  shows "\<exists>q1 s1 q2 s2. push_all push q ys s = Inr (q1, s1) \<and> qsize q1 = int (length ys)
     \<and> pop_n pop (length ys) q1 s1 = Inr (map Some ys, q2, s2) \<and> pop q2 s2 = Inr (None, q2, s2)"
proof -
  obtain q1 s1 where 1: "push_all push q ys s = Inr (q1, s1)" "rep s1 q1 ys"
    using push_all_rep[OF assms, of ys] by auto
  then obtain q2 s2 where 2: "pop_n pop (length ys) q1 s1 = Inr (map Some ys, q2, s2)" "rep s2 q2 []"
    using pop_n_rep[of s1 q1 ys "length ys"] by auto
  with 1 show ?thesis using rep_size rep_pop_Nil by blast
qed

end

definition queue_at :: "'a heap \<Rightarrow> t_queue \<Rightarrow> 'a list \<Rightarrow> bool" where
  "queue_at h q xs \<longleftrightarrow> (\<exists>as. list_at h (elements q) as xs)"

lemma queue_push_at:
  "queue_at h q xs \<Longrightarrow> \<exists>q' h'. queue_push q x h = Inr (q', h') \<and> queue_at h' q' (xs @ [x])"
proof -
  assume "queue_at h q xs"
  then obtain as where "list_at h (elements q) as xs" by (auto simp: queue_at_def)
  from list_add_at[OF this, of x] show ?thesis
    by (auto simp: queue_at_def queue_push_def ls_add_def)
qed

lemma queue_pop_at:
  "queue_at h q (x # xs) \<Longrightarrow> \<exists>q' h'. queue_pop q h = Inr (Some x, q', h') \<and> queue_at h' q' xs"
proof -
  assume "queue_at h q (x # xs)"
  then obtain as where "list_at h (elements q) as (x # xs)" by (auto simp: queue_at_def)
  from list_remove_refines[OF this, of 0] show ?thesis
    by (auto simp: queue_at_def queue_pop_def)
qed

interpretation cq: fifo_store queue_at queue_push queue_pop queue_size
proof unfold_locales
  fix s :: "'a heap" and q
  show "queue_pop q s = Inr (None, q, s)" if "queue_at s q []"
    using that by (auto simp: queue_at_def queue_pop_def list_remove_empty)
  show "queue_size q = int (length xs)" if "queue_at s q xs" for xs
    using that by (auto simp: queue_at_def queue_size_def list_size_at)
qed (rule queue_push_at queue_pop_at, assumption)+

interpretation lq: fifo_store "\<lambda>(_ :: unit) q xs. q = xs" "\<lambda>q x s. Inr (lq_push q x, s)"
  "\<lambda>q s. Inr (fst (lq_pop q), snd (lq_pop q), s)" "\<lambda>q. int (length q)"
  by unfold_locales auto

end
