(* ===== verification/C_Bitarray.thy ===== *)
theory C_Bitarray
  imports PP_Prelude "HOL-Library.Signed_Division"
begin

unbundle bit_operations_syntax

text \<open>
  \<open>commons/bitarray.c\<close>: a buffer of bytes read and written by the bit. The index is signed, and C
  divides towards zero. An access outside the buffer is undefined; \<open>size\<close> is what the caller said.
\<close>

record t_bitarray =
  bitarray :: "8 word list"
  size :: "64 word"

definition bitarray_create :: "8 word list \<Rightarrow> 64 word \<Rightarrow> t_bitarray" where
  "bitarray_create b n = \<lparr>bitarray = b, size = n\<rparr>"

definition BIT_CHAR :: "int \<Rightarrow> int" where
  "BIT_CHAR b = b sdiv 8"

text \<open>\<open>0x80 >> (7 - bit % 8)\<close>; for a negative index the shift is longer than 7.\<close>

definition BIT_IN_CHAR :: "int \<Rightarrow> s32" where
  "BIT_IN_CHAR b = drop_bit (nat (8 - 1 - (b smod 8))) 0x80"

definition byte_at :: "t_bitarray \<Rightarrow> int \<Rightarrow> 8 word res" where
  "byte_at self i = (if 0 \<le> i \<and> i < int (length (bitarray self)) then Inr (bitarray self ! nat i) else Inl UB)"

definition put_byte :: "t_bitarray \<Rightarrow> int \<Rightarrow> 8 word \<Rightarrow> t_bitarray" where
  "put_byte self i c = self\<lparr>bitarray := (bitarray self)[nat i := c]\<rparr>"

text \<open>A \<open>char\<close> is signed and is widened to \<open>int\<close> for the operation.\<close>

definition bitarray_test_bit :: "t_bitarray \<Rightarrow> int \<Rightarrow> bool res" where
  "bitarray_test_bit self b = bindE (byte_at self (BIT_CHAR b)) (\<lambda>c. Inr ((scast c AND BIT_IN_CHAR b) \<noteq> 0))"

definition bitarray_set_bit :: "t_bitarray \<Rightarrow> int \<Rightarrow> t_bitarray res" where
  "bitarray_set_bit self b = bindE (byte_at self (BIT_CHAR b))
     (\<lambda>c. Inr (put_byte self (BIT_CHAR b) (ucast (scast c OR BIT_IN_CHAR b))))"

definition bitarray_clean_bit :: "t_bitarray \<Rightarrow> int \<Rightarrow> t_bitarray res" where
  "bitarray_clean_bit self b =
     (let mask = NOT (ucast (BIT_IN_CHAR b) :: 8 word)
      in bindE (byte_at self (BIT_CHAR b)) (\<lambda>c.
         Inr (put_byte self (BIT_CHAR b) (ucast ((scast c :: s32) AND ucast mask)))))"

definition bitarray_get_max_bit :: "t_bitarray \<Rightarrow> 64 word" where
  "bitarray_get_max_bit self = size self * 8"

section \<open>The bits\<close>

text \<open>What the buffer means: bit \<open>k\<close> is bit \<open>k mod 8\<close> of byte \<open>k div 8\<close>.\<close>

definition bit_of :: "t_bitarray \<Rightarrow> nat \<Rightarrow> bool" where
  "bit_of self k = bit (bitarray self ! (k div 8)) (k mod 8)"

lemma index_parts: "BIT_CHAR (int k) = int (k div 8)" "int k smod 8 = int (k mod 8)"
  by (simp_all add: BIT_CHAR_def signed_divide_int_def signed_modulo_int_def sgn_if zdiv_int zmod_int)

lemma mask_bit: "BIT_IN_CHAR (int k) = push_bit (k mod 8) 1"
proof -
  have "k mod 8 < 8" by simp
  then have "k mod 8 = 0 \<or> k mod 8 = 1 \<or> k mod 8 = 2 \<or> k mod 8 = 3 \<or> k mod 8 = 4 \<or> k mod 8 = 5 \<or> k mod 8 = 6
      \<or> k mod 8 = 7" by presburger
  then show ?thesis unfolding BIT_IN_CHAR_def index_parts(2) by (elim disjE) (simp_all only: , simp_all)
qed

lemma byte_at_in: "k < 8 * length (bitarray self) \<Longrightarrow> byte_at self (BIT_CHAR (int k)) = Inr (bitarray self ! (k div 8))"
  by (simp add: byte_at_def index_parts(1) less_mult_imp_div_less mult.commute)

lemma bit_mask: "bit (BIT_IN_CHAR (int k)) j \<longleftrightarrow> j = k mod 8"
  by (auto simp: mask_bit bit_simps)

lemma test_bit_spec:
  assumes "k < 8 * length (bitarray self)"
  shows "bitarray_test_bit self (int k) = Inr (bit_of self k)"
proof -
  have m: "k mod 8 \<le> 7" by simp
  have "BIT_IN_CHAR (int k) = 2 ^ (k mod 8)" by (simp add: mask_bit push_bit_eq_mult)
  then have "(scast (bitarray self ! (k div 8)) AND BIT_IN_CHAR (int k) :: s32) \<noteq> 0
      \<longleftrightarrow> bit (scast (bitarray self ! (k div 8)) :: s32) (k mod 8)"
    by (simp add: and_exp_eq_0_iff_not_bit)
  also have "\<dots> \<longleftrightarrow> bit (bitarray self ! (k div 8)) (k mod 8)" using m by (simp add: bit_simps min_def)
  finally have "(scast (bitarray self ! (k div 8)) AND BIT_IN_CHAR (int k) :: s32) \<noteq> 0
      \<longleftrightarrow> bit (bitarray self ! (k div 8)) (k mod 8)" .
  then show ?thesis by (simp add: bitarray_test_bit_def byte_at_in[OF assms] bit_of_def)
qed

lemma bit_of_put:
  assumes "k < 8 * length (bitarray self)"
  shows "bit_of (put_byte self (BIT_CHAR (int k)) c) j = (if j div 8 = k div 8 then bit c (j mod 8) else bit_of self j)"
  using assms by (simp add: bit_of_def put_byte_def index_parts(1) less_mult_imp_div_less mult.commute nth_list_update)

lemma same_bit: "j div 8 = k div 8 \<and> j mod 8 = k mod 8 \<longleftrightarrow> j = (k :: nat)"
  by (metis div_mult_mod_eq)

lemma set_bit_spec:
  assumes "k < 8 * length (bitarray self)"
  shows "\<exists>self'. bitarray_set_bit self (int k) = Inr self' \<and> length (bitarray self') = length (bitarray self)
    \<and> size self' = size self \<and> (\<forall>j. bit_of self' j = (j = k \<or> bit_of self j))"
proof -
  have b: "bit (ucast (scast c OR BIT_IN_CHAR (int k)) :: 8 word) i = (i = k mod 8 \<or> bit c i)" if "i \<le> 7" for c :: "8 word" and i
    using that by (auto simp: bit_simps bit_mask min_absorb2)
  define self' where "self' = put_byte self (BIT_CHAR (int k)) (ucast (scast (bitarray self ! (k div 8)) OR BIT_IN_CHAR (int k)))"
  have "bit_of self' j = (j = k \<or> bit_of self j)" for j
    unfolding self'_def bit_of_put[OF assms] using b[of "j mod 8"] same_bit[of j k] by (auto simp: bit_of_def)
  moreover have "bitarray_set_bit self (int k) = Inr self'"
    by (simp add: bitarray_set_bit_def byte_at_in[OF assms] self'_def)
  ultimately show ?thesis by (auto simp: self'_def put_byte_def)
qed

lemma clean_bit_spec:
  assumes "k < 8 * length (bitarray self)"
  shows "\<exists>self'. bitarray_clean_bit self (int k) = Inr self' \<and> length (bitarray self') = length (bitarray self)
    \<and> size self' = size self \<and> (\<forall>j. bit_of self' j = (j \<noteq> k \<and> bit_of self j))"
proof -
  have b: "bit (ucast ((scast c :: s32) AND ucast (NOT (ucast (BIT_IN_CHAR (int k)) :: 8 word))) :: 8 word) i
      = (i \<noteq> k mod 8 \<and> bit c i)" if "i \<le> 7" for c :: "8 word" and i
    using that by (auto simp: bit_simps bit_mask min_absorb2)
  define self' where "self' = put_byte self (BIT_CHAR (int k))
    (ucast ((scast (bitarray self ! (k div 8)) :: s32) AND ucast (NOT (ucast (BIT_IN_CHAR (int k)) :: 8 word))))"
  have "bit_of self' j = (j \<noteq> k \<and> bit_of self j)" for j
    unfolding self'_def bit_of_put[OF assms] using b[of "j mod 8"] same_bit[of j k] by (auto simp: bit_of_def)
  moreover have "bitarray_clean_bit self (int k) = Inr self'"
    by (simp add: bitarray_clean_bit_def byte_at_in[OF assms] self'_def Let_def)
  ultimately show ?thesis by (auto simp: self'_def put_byte_def)
qed

text \<open>Beyond the buffer every operation is undefined; just before it, at -1 to -7, none does anything.\<close>

lemma outside_undefined:
  assumes "8 * int (length (bitarray self)) \<le> b \<or> b \<le> -8"
  shows "bitarray_test_bit self b = Inl UB" "bitarray_set_bit self b = Inl UB" "bitarray_clean_bit self b = Inl UB"
proof -
  have "byte_at self (BIT_CHAR b) = Inl UB"
    using assms by (auto simp: byte_at_def BIT_CHAR_def signed_divide_int_def sgn_if)
  then show "bitarray_test_bit self b = Inl UB" "bitarray_set_bit self b = Inl UB" "bitarray_clean_bit self b = Inl UB"
    by (simp_all add: bitarray_test_bit_def bitarray_set_bit_def bitarray_clean_bit_def)
qed

lemma before_buffer:
  assumes "-8 < b" and "b < 0" and "bitarray self \<noteq> []"
  shows "bitarray_test_bit self b = Inr False" "bitarray_set_bit self b = Inr self" "bitarray_clean_bit self b = Inr self"
proof -
  have "b \<in> {-7, -6, -5, -4, -3, -2, -1}" using assms(1,2) by auto
  then have m: "BIT_CHAR b = 0" "BIT_IN_CHAR b = 0"
    by (auto simp: BIT_CHAR_def BIT_IN_CHAR_def signed_divide_int_def signed_modulo_int_def)
  have c: "byte_at self 0 = Inr (bitarray self ! 0)" using assms(3) by (simp add: byte_at_def)
  have "ucast (scast x :: s32) = (x :: 8 word)" for x
    by (rule bit_word_eqI) (simp add: bit_simps min_absorb2)
  moreover have "put_byte self 0 (bitarray self ! 0) = self" by (simp add: put_byte_def)
  moreover have "ucast ((scast x :: s32) AND ucast (NOT 0 :: 8 word)) = (x :: 8 word)" for x
    by (rule bit_word_eqI) (simp add: bit_simps min_absorb2)
  ultimately show "bitarray_test_bit self b = Inr False" "bitarray_set_bit self b = Inr self" "bitarray_clean_bit self b = Inr self"
    by (simp_all add: bitarray_test_bit_def bitarray_set_bit_def bitarray_clean_bit_def m c)
qed

section \<open>The operations together\<close>

text \<open>The bits of an array are independent: setting or cleaning bit \<open>k\<close> makes it read as set or
  clean and changes no other bit, the sign of a byte notwithstanding; from the end of the buffer on
  and from -8 down every operation is undefined.\<close>

theorem bits_are_independent:
  assumes "k < 8 * length (bitarray self)" and "j < 8 * length (bitarray self)"
  shows "(\<exists>s. bitarray_set_bit self (int k) = Inr s \<and>
      bitarray_test_bit s (int j) = (if j = k then Inr True else bitarray_test_bit self (int j)))
    \<and> (\<exists>s. bitarray_clean_bit self (int k) = Inr s \<and>
      bitarray_test_bit s (int j) = (if j = k then Inr False else bitarray_test_bit self (int j)))
    \<and> (8 * int (length (bitarray self)) \<le> b \<or> b \<le> -8 \<longrightarrow> bitarray_test_bit self b = Inl UB
        \<and> bitarray_set_bit self b = Inl UB \<and> bitarray_clean_bit self b = Inl UB)"
proof (intro conjI impI)
  obtain s where "bitarray_set_bit self (int k) = Inr s" "length (bitarray s) = length (bitarray self)"
    "\<forall>j. bit_of s j = (j = k \<or> bit_of self j)" using set_bit_spec[OF assms(1)] by blast
  then show "\<exists>s. bitarray_set_bit self (int k) = Inr s \<and>
      bitarray_test_bit s (int j) = (if j = k then Inr True else bitarray_test_bit self (int j))"
    using assms(2) by (simp add: test_bit_spec)
  obtain s where "bitarray_clean_bit self (int k) = Inr s" "length (bitarray s) = length (bitarray self)"
    "\<forall>j. bit_of s j = (j \<noteq> k \<and> bit_of self j)" using clean_bit_spec[OF assms(1)] by blast
  then show "\<exists>s. bitarray_clean_bit self (int k) = Inr s \<and>
      bitarray_test_bit s (int j) = (if j = k then Inr False else bitarray_test_bit self (int j))"
    using assms(2) by (simp add: test_bit_spec)
qed (simp_all add: outside_undefined)

lemma bits_are_independent_witness:
  "\<exists>s. bitarray_set_bit (bitarray_create [0, 255] 2) 7 = Inr s \<and> bitarray_test_bit s 7 = Inr True
    \<and> bitarray_test_bit s 15 = bitarray_test_bit (bitarray_create [0, 255] 2) 15"
  using bits_are_independent[of 7 "bitarray_create [0, 255] 2" 7] bits_are_independent[of 7 "bitarray_create [0, 255] 2" 15]
  by (auto simp: bitarray_create_def)

end
