(* ===== verification/C_Strings.thy ===== *)
theory C_Strings
  imports PP_Prelude "HOL-Library.Sublist"
begin

text \<open>
  C strings and the string library \<open>commons/string.c\<close>. A C string is the list of its
  characters before the terminating NUL; reading position \<open>length s\<close> gives the NUL, reading
  beyond it is undefined (\<open>cchar\<close>, \<open>cptr\<close>). The character classes are those of the C locale.
\<close>

section \<open>Characters, positions, pointers into a string\<close>

abbreviation NUL :: char where "NUL \<equiv> CHR 0x00"

abbreviation NL :: char where "NL \<equiv> CHR 0x0A"

abbreviation ord_of :: "char \<Rightarrow> nat" where "ord_of c \<equiv> of_char c"

definition cchar :: "string \<Rightarrow> nat \<Rightarrow> char res" where
  "cchar s i = (if i < length s then Inr (s ! i) else if i = length s then Inr NUL else Inl UB)"

definition cptr :: "string \<Rightarrow> nat \<Rightarrow> string res" where
  "cptr s n = (if n \<le> length s then Inr (drop n s) else Inl UB)"

lemma cchar_in [simp]: "i < length s \<Longrightarrow> cchar s i = Inr (s ! i)"
  by (simp add: cchar_def)

lemma cchar_end [simp]: "cchar s (length s) = Inr NUL"
  by (simp add: cchar_def)

lemma cptr_in [simp]: "n \<le> length s \<Longrightarrow> cptr s n = Inr (drop n s)"
  by (simp add: cptr_def)

lemma cchar_ex: "i \<le> length s \<Longrightarrow> \<exists>c. cchar s i = Inr c"
  by (auto simp: cchar_def)

lemma safe_cchar: "i \<le> length s \<Longrightarrow> safe (cchar s i)"
  by (auto simp: cchar_def)

text \<open>What a reader of the C string sees of a character buffer.\<close>

definition cstring :: "char list \<Rightarrow> string" where
  "cstring b = takeWhile (\<lambda>c. c \<noteq> NUL) b"

lemma cstring_id: "NUL \<notin> set s \<Longrightarrow> cstring s = s"
  unfolding cstring_def by (rule takeWhile_all) auto

lemma cstring_append_NUL: "NUL \<notin> set s \<Longrightarrow> cstring (s @ NUL # t) = s"
  unfolding cstring_def by (rule takeWhile_append_stop) auto

lemma NUL_notin_cstring: "NUL \<notin> set (cstring b)"
  unfolding cstring_def by (auto dest: set_takeWhileD)

definition isblank :: "char \<Rightarrow> bool" where
  "isblank c \<longleftrightarrow> c = CHR 0x20 \<or> c = CHR 0x09"

definition isspace :: "char \<Rightarrow> bool" where
  "isspace c \<longleftrightarrow> c = CHR 0x20 \<or> (9 \<le> ord_of c \<and> ord_of c \<le> 13)"

definition isdigit :: "char \<Rightarrow> bool" where
  "isdigit c \<longleftrightarrow> 48 \<le> ord_of c \<and> ord_of c \<le> 57"

definition toupper :: "char \<Rightarrow> char" where
  "toupper c = (if 97 \<le> ord_of c \<and> ord_of c \<le> 122 then char_of (ord_of c - 32) else c)"

definition tolower :: "char \<Rightarrow> char" where
  "tolower c = (if 65 \<le> ord_of c \<and> ord_of c \<le> 90 then char_of (ord_of c + 32) else c)"

lemma isblank_isspace: "isblank c \<Longrightarrow> isspace c"
  by (auto simp: isblank_def isspace_def)

section \<open>Decimal numbers: printing with \<open>%d\<close> and reading with \<open>atoi\<close>\<close>

definition digit_val :: "char \<Rightarrow> nat" where
  "digit_val c = ord_of c - 48"

definition digit_char :: "nat \<Rightarrow> char" where
  "digit_char d = char_of (d + 48)"

fun show_nat :: "nat \<Rightarrow> string" where
  "show_nat n = (if n < 10 then [digit_char n] else show_nat (n div 10) @ [digit_char (n mod 10)])"

declare show_nat.simps [simp del]

definition show_int :: "int \<Rightarrow> string" where
  "show_int i = (if i < 0 then CHR ''-'' # show_nat (nat (- i)) else show_nat (nat i))"

definition dec_val :: "string \<Rightarrow> nat" where
  "dec_val ds = foldl (\<lambda>a c. 10 * a + digit_val c) 0 ds"

text \<open>
  \<open>atoi\<close> as glibc has it: \<open>(int) strtol(s, NULL, 10)\<close>, where \<open>strtol\<close> saturates at the
  limits of a 64-bit \<open>long\<close> and the cast keeps the low 32 bits.
\<close>

definition strtol10 :: "string \<Rightarrow> int" where
  "strtol10 s =
     (let s1 = dropWhile isspace s;
          neg = (s1 \<noteq> [] \<and> hd s1 = CHR ''-'');
          s2 = (if s1 \<noteq> [] \<and> (hd s1 = CHR ''-'' \<or> hd s1 = CHR ''+'') then tl s1 else s1);
          v = int (dec_val (takeWhile isdigit s2))
      in if neg then max (- (2 ^ 63)) (- v) else min (2 ^ 63 - 1) v)"

definition atoi :: "string \<Rightarrow> s32" where
  "atoi s = word_of_int (strtol10 s)"

lemma digit_char_digit: "d < 10 \<Longrightarrow> isdigit (digit_char d)"
  by (simp add: isdigit_def digit_char_def)

lemma digit_val_char: "d < 10 \<Longrightarrow> digit_val (digit_char d) = d"
  by (simp add: digit_val_def digit_char_def)

lemma dec_val_snoc: "dec_val (ds @ [c]) = 10 * dec_val ds + digit_val c"
  by (simp add: dec_val_def)

lemma dec_val_Nil [simp]: "dec_val [] = 0"
  by (simp add: dec_val_def)

lemma dec_val_show_nat: "dec_val (show_nat n) = n"
proof (induction n rule: show_nat.induct)
  case (1 n)
  show ?case
  proof (cases "n < 10")
    case True
    then show ?thesis
      by (simp add: show_nat.simps[of n] dec_val_def digit_val_char)
  next
    case False
    with 1 have "dec_val (show_nat (n div 10)) = n div 10" by simp
    with False show ?thesis
      by (simp add: show_nat.simps[of n] dec_val_snoc digit_val_char)
  qed
qed

lemma show_nat_digits: "c \<in> set (show_nat n) \<Longrightarrow> isdigit c"
proof (induction n rule: show_nat.induct)
  case (1 n)
  then show ?case
    by (cases "n < 10") (auto simp: show_nat.simps[of n] digit_char_digit)
qed

lemma show_nat_not_Nil [simp]: "show_nat n \<noteq> []"
  by (subst show_nat.simps) simp

lemma isdigit_not_special:
  assumes "isdigit c"
  shows "\<not> isspace c" and "c \<noteq> CHR ''-''" and "c \<noteq> CHR ''+''" and "c \<noteq> NUL"
  using assms by (auto simp: isdigit_def isspace_def)

lemma hd_show_nat_digit: "isdigit (hd (show_nat n))"
  by (rule show_nat_digits) (rule hd_in_set, simp)

lemma dropWhile_show_nat: "dropWhile isspace (show_nat n) = show_nat n"
  using hd_show_nat_digit[of n] isdigit_not_special(1)
  by (cases "show_nat n") auto

lemma strtol10_show_int:
  assumes "- (2 ^ 31) \<le> i" and "i < 2 ^ 31"
  shows "strtol10 (show_int i) = i"
proof -
  have tw: "takeWhile isdigit (show_nat n) = show_nat n" for n
    by (rule takeWhile_all) (auto intro: show_nat_digits)
  show ?thesis
  proof (cases "i < 0")
    case True
    have "dropWhile isspace (CHR ''-'' # show_nat (nat (- i))) = CHR ''-'' # show_nat (nat (- i))"
      by (simp add: isspace_def)
    with True assms show ?thesis
      by (simp add: strtol10_def show_int_def tw dec_val_show_nat Let_def)
  next
    case False
    with assms show ?thesis
      using isdigit_not_special[OF hd_show_nat_digit[of "nat i"]]
      by (simp add: strtol10_def show_int_def tw dec_val_show_nat dropWhile_show_nat Let_def)
  qed
qed

lemma sint_s32_bounds: "- (2 ^ 31) \<le> sint (w :: s32)" "sint (w :: s32) < 2 ^ 31"
  using sint_range_size[of w] by (simp_all add: word_size)

lemma atoi_show_sint: "atoi (show_int (sint (w :: s32))) = w"
  unfolding atoi_def by (subst strtol10_show_int) (use sint_s32_bounds[of w] in simp_all)

lemma length_show_nat: "n < 10 ^ k \<Longrightarrow> 0 < k \<Longrightarrow> length (show_nat n) \<le> k"
proof (induction n arbitrary: k rule: show_nat.induct)
  case (1 n)
  show ?case
  proof (cases "n < 10")
    case True
    then show ?thesis using 1(3) by (subst show_nat.simps) simp
  next
    case False
    then obtain j where k: "k = Suc j" "0 < j" using 1(2,3) by (cases k; cases "k - 1") auto
    then have "n div 10 < 10 ^ j" using 1(2) by (simp add: less_mult_imp_div_less mult.commute)
    then have "length (show_nat (n div 10)) \<le> j" using False k by (intro 1(1)) auto
    then show ?thesis using False k by (subst show_nat.simps) simp
  qed
qed

lemma length_show_s32: "length (show_int (sint (w :: s32))) \<le> 11"
proof -
  have "nat \<bar>sint w\<bar> < 10 ^ 10" using sint_s32_bounds[of w] by auto
  then have "length (show_nat (nat \<bar>sint w\<bar>)) \<le> 10" by (rule length_show_nat) simp
  then show ?thesis by (auto simp: show_int_def)
qed

lemma NUL_notin_show_int: "NUL \<notin> set (show_int i)"
  using show_nat_digits isdigit_not_special(4) by (auto simp: show_int_def)

section \<open>\<open>commons/string.c\<close>\<close>

definition string_repeat :: "char \<Rightarrow> int \<Rightarrow> string res" where
  "string_repeat character cnt =
     (if cnt < 0 then Inl UB else Inr (cstring (replicate (nat cnt) character)))"

definition string_duplicate :: "string \<Rightarrow> string" where
  "string_duplicate original = original"

definition string_append :: "string \<Rightarrow> string \<Rightarrow> string" where
  "string_append original string_to_add = original @ string_to_add"

definition string_is_empty :: "string \<Rightarrow> bool" where
  "string_is_empty text = (length text = 0)"

fun string_do :: "(char \<Rightarrow> char) \<Rightarrow> string \<Rightarrow> string" where
  "string_do closure [] = []"
| "string_do closure (c # text) = closure c # string_do closure text"

definition string_to_upper :: "string \<Rightarrow> string" where
  "string_to_upper text = string_do toupper text"

definition string_to_lower :: "string \<Rightarrow> string" where
  "string_to_lower text = string_do tolower text"

definition string_capitalized :: "string \<Rightarrow> string" where
  "string_capitalized text =
     (if \<not> string_is_empty text
      then let text' = toupper (text ! 0) # tl text
           in if 2 \<le> length text' then text' ! 0 # string_to_lower (drop 1 text') else text'
      else text)"

definition string_trim_left :: "string \<Rightarrow> string" where
  "string_trim_left text = string_duplicate (dropWhile isblank text)"

text \<open>The loop of \<open>string_trim_right\<close>: \<open>n\<close> is \<open>i + 1\<close>; a NUL written at \<open>i\<close> ends the string there.\<close>

fun trim_right_loop :: "string \<Rightarrow> nat \<Rightarrow> string" where
  "trim_right_loop s 0 = s"
| "trim_right_loop s (Suc i) = (if isspace (s ! i) then trim_right_loop (take i s) i else s)"

definition string_trim_right :: "string \<Rightarrow> string" where
  "string_trim_right text = trim_right_loop text (length text)"

definition string_trim :: "string \<Rightarrow> string" where
  "string_trim text = string_trim_right (string_trim_left text)"

definition string_starts_with :: "string \<Rightarrow> string \<Rightarrow> bool" where
  "string_starts_with text begin' = (take (length begin') text = begin')"

definition string_ends_with :: "string \<Rightarrow> string \<Rightarrow> bool" where
  "string_ends_with text end' =
     (if length text < length end' then False
      else drop (length text - length end') text = end')"

definition string_equals_ignore_case :: "string \<Rightarrow> string \<Rightarrow> bool" where
  "string_equals_ignore_case actual expected = (map tolower actual = map tolower expected)"

text \<open>
  \<open>strtok_r\<close> of the C library: skip separators, cut the token at the next one, and leave the
  rest after the separator for the next call; no token left is \<open>None\<close> (the NULL pointer).
\<close>

definition strtok_r :: "string \<Rightarrow> string \<Rightarrow> (string \<times> string) option" where
  "strtok_r text separator =
     (let s = dropWhile (\<lambda>c. c \<in> set separator) text
      in if s = [] then None
         else Some (takeWhile (\<lambda>c. c \<notin> set separator) s,
                    drop 1 (dropWhile (\<lambda>c. c \<notin> set separator) s)))"

lemma strtok_r_shorter: "strtok_r t sep = Some (tok, rest) \<Longrightarrow> length rest < length t"
proof -
  assume a: "strtok_r t sep = Some (tok, rest)"
  let ?s = "dropWhile (\<lambda>c. c \<in> set sep) t"
  from a have ne: "?s \<noteq> []" and r: "rest = drop 1 (dropWhile (\<lambda>c. c \<notin> set sep) ?s)"
    by (auto simp: strtok_r_def Let_def split: if_splits)
  from ne obtain c cs where cs: "?s = c # cs" by (cases ?s) auto
  then have "c \<notin> set sep"
    by (metis (mono_tags, lifting) dropWhile_eq_Cons_conv)
  then have "length rest \<le> length cs - 1 \<or> length rest \<le> length cs"
    using r cs length_dropWhile_le[of "\<lambda>c. c \<notin> set sep" cs] by auto
  moreover have "length (c # cs) \<le> length t"
    using length_dropWhile_le[of "\<lambda>c. c \<in> set sep" t] cs by simp
  ultimately show ?thesis by auto
qed

function string_split :: "string \<Rightarrow> string \<Rightarrow> string list" where
  "string_split text separator =
     (case strtok_r text separator of
        None \<Rightarrow> []
      | Some (token, next) \<Rightarrow> string_duplicate token # string_split next separator)"
  by pat_completeness auto
termination
  by (relation "measure (\<lambda>(t, _). length t)") (auto dest: strtok_r_shorter)

declare string_split.simps [simp del]

fun string_iterate_lines :: "(string \<Rightarrow> 's \<Rightarrow> 's res) \<Rightarrow> string list \<Rightarrow> 's \<Rightarrow> 's res" where
  "string_iterate_lines closure [] st = Inr st"
| "string_iterate_lines closure (l # strings) st =
     bindE (closure l st) (string_iterate_lines closure strings)"

subsection \<open>What the string functions compute\<close>

lemma string_starts_with_prefix: "string_starts_with text b = prefix b text"
proof
  assume "string_starts_with text b"
  then have "b = take (length b) text" by (simp add: string_starts_with_def)
  then show "prefix b text" by (metis take_is_prefix)
next
  assume "prefix b text"
  then show "string_starts_with text b"
    by (auto simp: string_starts_with_def prefix_def)
qed

lemma string_ends_with_suffix: "string_ends_with text e = suffix e text"
proof
  assume "string_ends_with text e"
  then have "e = drop (length text - length e) text"
    by (simp add: string_ends_with_def split: if_splits)
  then show "suffix e text" by (metis suffix_drop)
next
  assume "suffix e text"
  then show "string_ends_with text e"
    by (auto simp: string_ends_with_def suffix_def)
qed

lemma string_do_map: "string_do f s = map f s"
  by (induction s) auto

lemma trim_right_loop_eq:
  "n = length s \<Longrightarrow> trim_right_loop s n = rev (dropWhile isspace (rev s))"
proof (induction s n rule: trim_right_loop.induct)
  case (1 s)
  then show ?case by simp
next
  case (2 s i)
  then have s: "s = take i s @ [s ! i]" and i: "i = length (take i s)"
    by (metis lessI take_Suc_conv_app_nth take_all_iff order_refl) (use 2 in simp)
  from arg_cong[OF s, of rev] have r: "rev s = s ! i # rev (take i s)" by simp
  show ?case
  proof (cases "isspace (s ! i)")
    case True
    with "2.IH" i have "trim_right_loop (take i s) i = rev (dropWhile isspace (rev s))" by (simp add: r)
    with True show ?thesis by simp
  next
    case False
    then have "rev (dropWhile isspace (rev s)) = rev (rev s)" by (simp add: r)
    with False show ?thesis by simp
  qed
qed

lemma string_trim_right_eq: "string_trim_right s = rev (dropWhile isspace (rev s))"
  by (simp add: string_trim_right_def trim_right_loop_eq)

lemma string_trim_parts:
  "\<exists>l r. s = l @ string_trim s @ r \<and> (\<forall>c \<in> set l. isblank c) \<and> (\<forall>c \<in> set r. isspace c)"
proof -
  let ?m = "dropWhile isblank s"
  let ?r = "rev (takeWhile isspace (rev ?m))"
  have "?m = string_trim s @ ?r"
    by (metis rev_append rev_rev_ident string_duplicate_def string_trim_def string_trim_left_def
        string_trim_right_eq takeWhile_dropWhile_id)
  then have "s = takeWhile isblank s @ string_trim s @ ?r"
    by (metis takeWhile_dropWhile_id)
  moreover have "\<forall>c \<in> set (takeWhile isblank s). isblank c" "\<forall>c \<in> set ?r. isspace c"
    by (auto dest: set_takeWhileD)
  ultimately show ?thesis by blast
qed

lemma hd_string_trim: "string_trim s \<noteq> [] \<Longrightarrow> \<not> isblank (hd (string_trim s))"
proof -
  assume ne: "string_trim s \<noteq> []"
  let ?m = "dropWhile isblank s"
  have "\<exists>r. ?m = string_trim s @ r"
    by (metis rev_append rev_rev_ident string_duplicate_def string_trim_def string_trim_left_def
        string_trim_right_eq takeWhile_dropWhile_id)
  with ne have "hd (string_trim s) = hd ?m" "?m \<noteq> []" by (metis hd_append2, metis Nil_is_append_conv)
  then show ?thesis using hd_dropWhile[of isblank s] by argo
qed

lemma last_string_trim: "string_trim s \<noteq> [] \<Longrightarrow> \<not> isspace (last (string_trim s))"
  by (simp add: string_trim_def string_trim_right_eq last_rev hd_dropWhile)

lemma NUL_notin_string_trim: "NUL \<notin> set s \<Longrightarrow> NUL \<notin> set (string_trim s)"
  using string_trim_parts[of s] by (metis UnCI set_append)

lemma length_string_trim: "length (string_trim s) \<le> length s"
proof -
  obtain l r where "s = l @ string_trim s @ r" using string_trim_parts by blast
  then have "length s = length l + length (string_trim s) + length r"
    by (metis add.assoc length_append)
  then show ?thesis by simp
qed

lemma string_split_tokens:
  "tok \<in> set (string_split t sep) \<Longrightarrow> tok \<noteq> [] \<and> set tok \<inter> set sep = {}"
proof (induction t sep rule: string_split.induct)
  case (1 t sep)
  show ?case
  proof (cases "strtok_r t sep")
    case None
    with 1 show ?thesis by (simp add: string_split.simps[of t])
  next
    case (Some p)
    obtain tk rest where p: "p = (tk, rest)" by (cases p)
    let ?s = "dropWhile (\<lambda>c. c \<in> set sep) t"
    from Some p have ne: "?s \<noteq> []" and tk: "tk = takeWhile (\<lambda>c. c \<notin> set sep) ?s"
      by (auto simp: strtok_r_def Let_def split: if_splits)
    have "hd ?s \<notin> set sep" using ne hd_dropWhile by blast
    then have "tk \<noteq> []" using ne tk by (cases ?s) auto
    moreover have "set tk \<inter> set sep = {}" using tk by (auto dest: set_takeWhileD)
    moreover have "tok = tk \<or> tok \<in> set (string_split rest sep)"
      using 1(2) Some p by (simp add: string_split.simps[of t] string_duplicate_def)
    ultimately show ?thesis using 1(1)[OF Some p[symmetric]] by auto
  qed
qed

lemma filter_notin_takeWhile_dropWhile:
  "filter Q xs = filter Q (takeWhile P xs) @ filter Q (dropWhile P xs)"
  by (metis filter_append takeWhile_dropWhile_id)

lemma filter_drop1_dropWhile: "filter Q (drop 1 (dropWhile Q s)) = filter Q (dropWhile Q s)"
  by (induction s) auto

lemma concat_string_split:
  "concat (string_split t sep) = filter (\<lambda>c. c \<notin> set sep) t"
proof (induction t sep rule: string_split.induct)
  case (1 t sep)
  let ?Q = "\<lambda>c. c \<notin> set sep"
  let ?s = "dropWhile (\<lambda>c. c \<in> set sep) t"
  have tw: "filter ?Q (takeWhile (\<lambda>c. c \<in> set sep) t) = []"
    by (auto simp: filter_empty_conv dest: set_takeWhileD)
  have t: "filter ?Q t = filter ?Q ?s"
    using filter_notin_takeWhile_dropWhile[of ?Q t "\<lambda>c. c \<in> set sep"] tw by simp
  show ?case
  proof (cases "strtok_r t sep")
    case None
    then have "?s = []" by (simp add: strtok_r_def Let_def split: if_splits)
    with t have "filter ?Q t = []" by (metis filter.simps(1))
    with None show ?thesis by (simp add: string_split.simps[of t])
  next
    case (Some p)
    obtain tk rest where p: "p = (tk, rest)" by (cases p)
    let ?d = "dropWhile ?Q ?s"
    from Some p have tk: "tk = takeWhile ?Q ?s" and r: "rest = drop 1 ?d"
      by (auto simp: strtok_r_def Let_def split: if_splits)
    have d: "filter ?Q ?d = filter ?Q rest"
      unfolding r by (rule filter_drop1_dropWhile[symmetric])
    have "filter ?Q tk = tk" using tk by (auto simp: filter_id_conv dest: set_takeWhileD)
    then have "filter ?Q ?s = tk @ filter ?Q rest"
      using filter_notin_takeWhile_dropWhile[of ?Q ?s ?Q] tk d by argo
    moreover have "string_split t sep = tk # string_split rest sep"
      by (subst string_split.simps) (simp add: Some p string_duplicate_def)
    then have "concat (string_split t sep) = tk @ filter ?Q rest"
      using 1[OF Some p[symmetric]] by simp
    ultimately show ?thesis using t by metis
  qed
qed

end
