(* ===== verification/C_Log.thy ===== *)
theory C_Log
  imports C_Strings
begin

text \<open>
  \<open>commons/log.c\<close> with the time stamps of \<open>temporal.c\<close> and \<open>error_show\<close> of \<open>error.c\<close>. What
  \<open>printf\<close> makes of a template and its arguments is the argument \<open>message\<close>; the clock, the numbers of
  process and thread and the outcome of \<open>fopen\<close> are arguments. A file is its content. The levels are
  an enumeration without negative values, which the compiler keeps in an \<open>unsigned int\<close>.
\<close>

section \<open>Levels\<close>

type_synonym t_log_level = u32

definition enum_names :: "string list" where
  "enum_names = [''TRACE'', ''DEBUG'', ''INFO'', ''WARNING'', ''ERROR'']"

definition log_level_as_string :: "t_log_level \<Rightarrow> string res" where
  "log_level_as_string level = arr_get enum_names (unat level)"

fun level_index :: "string \<Rightarrow> string list \<Rightarrow> t_log_level \<Rightarrow> t_log_level" where
  "level_index level [] i = -1"
| "level_index level (name # names) i =
     (if string_equals_ignore_case level name then i else level_index level names (i + 1))"

definition log_level_from_string :: "string \<Rightarrow> t_log_level" where
  "log_level_from_string level = level_index level enum_names 0"

section \<open>Time stamps and errors\<close>

text \<open>\<open>None\<close> when a clock fails; the buffer of \<open>hh:mm:ss:mmmm\<close> has 14 bytes.\<close>

definition two_digits :: "nat \<Rightarrow> string" where
  "two_digits n = [digit_char (n div 10 mod 10), digit_char (n mod 10)]"

definition temporal_get_string_time :: "(nat \<times> nat \<times> nat) option \<Rightarrow> u16 option \<Rightarrow> string option res" where
  "temporal_get_string_time log_tm tmili =
     (case log_tm of None \<Rightarrow> Inr None | Some (h, m, s) \<Rightarrow>
      case tmili of None \<Rightarrow> Inr None | Some ms \<Rightarrow>
        let partial_time = two_digits h @ '':'' @ two_digits m @ '':'' @ two_digits s;
            str_time = partial_time @ '':'' @ show_nat (unat ms)
        in if length str_time < 14 then Inr (Some str_time) else Inl UB)"

definition error_show :: "(string \<Rightarrow> string) \<Rightarrow> string \<Rightarrow> string" where
  "error_show vprintf message = vprintf (string_append ''[[ERROR]]'' message)"

section \<open>Loggers\<close>

record t_log =
  log_file :: "string option"
  is_active_console :: bool
  detail :: t_log_level
  program_name :: string
  log_pid :: s32

text \<open>\<open>file\<close> is the name given, \<open>opened\<close> what \<open>fopen\<close> makes of it: the content there is, or failure.\<close>

definition log_create ::
  "string option \<Rightarrow> string option \<Rightarrow> string \<Rightarrow> bool \<Rightarrow> t_log_level \<Rightarrow> s32 \<Rightarrow> t_log option" where
  "log_create file opened name console level pid =
     (if file \<noteq> None \<and> opened = None then None
      else Some \<lparr>log_file = (if file = None then None else opened), is_active_console = console,
        detail = level, program_name = name, log_pid = pid\<rparr>)"

text \<open>\<open>fclose\<close> of a logger without a file follows a null pointer.\<close>

definition log_destroy :: "t_log \<Rightarrow> unit res" where
  "log_destroy logger = (if log_file logger = None then Inl UB else Inr ())"

definition isEnableLevelInLogger :: "t_log \<Rightarrow> t_log_level \<Rightarrow> bool" where
  "isEnableLevelInLogger logger level \<longleftrightarrow> detail logger \<le> level"

definition log_line :: "t_log \<Rightarrow> string \<Rightarrow> string option \<Rightarrow> s32 \<Rightarrow> string \<Rightarrow> string" where
  "log_line logger lname time thread_id message =
     ''['' @ lname @ ''] '' @ (case time of None \<Rightarrow> ''(null)'' | Some t \<Rightarrow> t) @ '' '' @ program_name logger
       @ ''/('' @ show_int (sint (log_pid logger)) @ '':'' @ show_int (sint thread_id) @ ''): '' @ message @ [NL]"

text \<open>\<open>message\<close> has 1025 bytes, \<open>buffer\<close> 1125. The second component is the console.\<close>

definition log_write_in_level ::
  "t_log_level \<Rightarrow> string \<Rightarrow> string option res \<Rightarrow> s32 \<Rightarrow> t_log \<times> string \<Rightarrow> (t_log \<times> string) res" where
  "log_write_in_level level message now thread_id = (\<lambda>(logger, console).
     if isEnableLevelInLogger logger level then
       if length message < 1024 + 1 then
         bindE now (\<lambda>time.
         bindE (log_level_as_string level) (\<lambda>lname.
         let buffer = log_line logger lname time thread_id message
         in if length buffer < 1024 + 100 + 1 then
              Inr (logger\<lparr>log_file := map_option (\<lambda>c. c @ buffer) (log_file logger)\<rparr>,
                if is_active_console logger then console @ buffer else console)
            else Inl UB))
       else Inl UB
     else Inr (logger, console))"

definition log_trace where "log_trace = log_write_in_level 0"
definition log_debug where "log_debug = log_write_in_level 1"
definition log_info where "log_info = log_write_in_level 2"
definition log_warning where "log_warning = log_write_in_level 3"
definition log_error where "log_error = log_write_in_level 4"

section \<open>What a logger writes\<close>

lemma level_cases: "level < 5 \<Longrightarrow> level \<in> {0, 1, 2, 3, 4 :: t_log_level}"
proof -
  assume "level < 5"
  then have "unat level < 5" by (simp add: word_less_nat_alt)
  then have "unat level \<in> {0, 1, 2, 3, 4}" by auto
  then have "(word_of_nat (unat level) :: t_log_level) \<in> word_of_nat ` {0, 1, 2, 3, 4}" by (rule imageI)
  then show ?thesis by simp
qed

lemma same_level:
  assumes "string_equals_ignore_case s name"
  shows "log_level_from_string s = log_level_from_string name"
proof -
  have "string_equals_ignore_case s = string_equals_ignore_case name"
    using assms by (intro ext) (simp add: string_equals_ignore_case_def)
  then show ?thesis by (simp add: log_level_from_string_def enum_names_def)
qed

lemma level_round_trip:
  assumes "level < 5"
  shows "\<exists>name. log_level_as_string level = Inr name \<and> length name \<le> 7
    \<and> (\<forall>s. string_equals_ignore_case s name \<longrightarrow> log_level_from_string s = level)"
proof -
  have l: "log_level_from_string ''TRACE'' = 0" "log_level_from_string ''DEBUG'' = 1"
    "log_level_from_string ''INFO'' = 2" "log_level_from_string ''WARNING'' = 3" "log_level_from_string ''ERROR'' = 4"
    by code_simp+
  show ?thesis using level_cases[OF assms]
    by (auto simp: log_level_as_string_def enum_names_def arr_get_def same_level l)
qed

text \<open>A name that is no level gives a logger that writes nothing.\<close>

lemma unknown_level:
  assumes "\<forall>name \<in> set enum_names. \<not> string_equals_ignore_case s name" and "level < 5"
  shows "log_level_from_string s = -1" "detail logger = -1 \<Longrightarrow> \<not> isEnableLevelInLogger logger level"
proof -
  show "log_level_from_string s = -1" using assms(1) by (simp add: log_level_from_string_def enum_names_def)
  show "\<not> isEnableLevelInLogger logger level" if "detail logger = -1"
  proof -
    have "\<not> (-1 :: t_log_level) \<le> 0" "\<not> (-1 :: t_log_level) \<le> 1" "\<not> (-1 :: t_log_level) \<le> 2"
      "\<not> (-1 :: t_log_level) \<le> 3" "\<not> (-1 :: t_log_level) \<le> 4"
      by code_simp+
    then show ?thesis using level_cases[OF assms(2)] that by (auto simp: isEnableLevelInLogger_def)
  qed
qed

lemma time_fits:
  "unat ms < 10000 \<Longrightarrow> \<exists>t. temporal_get_string_time (Some (h, m, s)) (Some ms) = Inr (Some t) \<and> length t \<le> 13"
  using length_show_nat[of "unat ms" 4] by (simp add: temporal_get_string_time_def two_digits_def Let_def)

lemma log_line_length:
  assumes "length lname \<le> 7" and "case time of None \<Rightarrow> True | Some t \<Rightarrow> length t \<le> 13"
    and "length (program_name logger) \<le> 47" and "length message \<le> 1024"
  shows "length (log_line logger lname time thread_id message) \<le> 1124"
  using assms length_show_s32[of "log_pid logger"] length_show_s32[of thread_id]
  by (simp add: log_line_def split: option.splits)

lemma log_write_spec:
  assumes "level < 5" and "case time of None \<Rightarrow> True | Some t \<Rightarrow> length t \<le> 13"
    and "length (program_name logger) \<le> 47"
  shows "detail logger \<le> level \<Longrightarrow> length message \<le> 1024 \<Longrightarrow> \<exists>lname. log_level_as_string level = Inr lname \<and>
     log_write_in_level level message (Inr time) tid (logger, console) =
       Inr (logger\<lparr>log_file := map_option (\<lambda>c. c @ log_line logger lname time tid message) (log_file logger)\<rparr>,
            console @ (if is_active_console logger then log_line logger lname time tid message else []))"
    and "detail logger \<le> level \<Longrightarrow> 1024 < length message \<Longrightarrow>
      log_write_in_level level message (Inr time) tid (logger, console) = Inl UB"
    and "\<not> detail logger \<le> level \<Longrightarrow> log_write_in_level level message (Inr time) tid (logger, console) = Inr (logger, console)"
proof -
  obtain lname where l: "log_level_as_string level = Inr lname" "length lname \<le> 7"
    using level_round_trip[OF assms(1)] by blast
  show "\<exists>lname. log_level_as_string level = Inr lname \<and>
     log_write_in_level level message (Inr time) tid (logger, console) =
       Inr (logger\<lparr>log_file := map_option (\<lambda>c. c @ log_line logger lname time tid message) (log_file logger)\<rparr>,
            console @ (if is_active_console logger then log_line logger lname time tid message else []))"
    if "detail logger \<le> level" "length message \<le> 1024"
  proof -
    have "length (log_line logger lname time tid message) < 1125"
      using log_line_length[OF l(2) assms(2,3) that(2), of tid] by simp
    then show ?thesis using that l(1) by (simp add: log_write_in_level_def isEnableLevelInLogger_def Let_def)
  qed
qed (simp_all add: log_write_in_level_def isEnableLevelInLogger_def)

end
