(* ===== verification/C_Dictionary.thy ===== *)
theory C_Dictionary
  imports C_Strings
begin

text \<open>
  \<open>commons/collections/dictionary.c\<close>: a hash table with chains. An element belongs to one chain
  only, so a chain is the list of its elements and the table the list of its chains. Keys are
  compared by their 32-bit hash alone. A null \<open>data\<close> is \<open>None\<close>.
\<close>

section \<open>Types and operations\<close>

record 'a t_hash_element =
  ekey :: string
  hashcode :: u32
  edata :: "'a option"

record 'a t_dictionary =
  table :: "'a t_hash_element list list"
  table_max_size :: nat
  table_current_size :: nat
  elements_amount :: nat

definition dictionary_create :: "'a t_dictionary" where
  "dictionary_create = \<lparr>table = replicate 20 [], table_max_size = 20, table_current_size = 0,
     elements_amount = 0\<rparr>"

definition hash_step :: "u32 \<Rightarrow> char \<Rightarrow> u32" where
  "hash_step hash c =
     (let hash1 = hash + of_nat (ord_of c);
          hash2 = hash1 + push_bit 10 hash1
      in xor hash2 (drop_bit 6 hash2))"

definition dictionary_hash :: "string \<Rightarrow> u32" where
  "dictionary_hash k =
     (let hash = foldl hash_step 0 k;
          hash1 = hash + push_bit 3 hash;
          hash2 = xor hash1 (drop_bit 11 hash1)
      in hash2 + push_bit 15 hash2)"

definition hash_index :: "u32 \<Rightarrow> nat \<Rightarrow> nat" where
  "hash_index h n = unat h mod n"

definition dictionary_create_element :: "string \<Rightarrow> u32 \<Rightarrow> 'a option \<Rightarrow> 'a t_hash_element" where
  "dictionary_create_element k h d = \<lparr>ekey = k, hashcode = h, edata = d\<rparr>"

text \<open>One element moved by \<open>dictionary_resize\<close>: to the end of its new chain.\<close>

definition move_element ::
  "nat \<Rightarrow> 'a t_hash_element list list \<times> nat \<Rightarrow> 'a t_hash_element \<Rightarrow> 'a t_hash_element list list \<times> nat" where
  "move_element n = (\<lambda>(new_table, cur) e.
     let i = hash_index (hashcode e) n; chain = new_table ! i
     in (new_table[i := chain @ [e]], if chain = [] then cur + 1 else cur))"

definition dictionary_resize :: "'a t_dictionary \<Rightarrow> nat \<Rightarrow> 'a t_dictionary" where
  "dictionary_resize self n =
     (case foldl (foldl (move_element n)) (replicate n [], 0) (table self) of
        (new_table, cur) \<Rightarrow> self\<lparr>table := new_table, table_max_size := n, table_current_size := cur\<rparr>)"

definition dictionary_put :: "'a t_dictionary \<Rightarrow> string \<Rightarrow> 'a option \<Rightarrow> 'a t_dictionary" where
  "dictionary_put self k d =
     (let h = dictionary_hash k; i = hash_index h (table_max_size self);
          e = dictionary_create_element k h d; chain = table self ! i;
          self1 = (if chain = [] then
             let s = self\<lparr>table := (table self)[i := [e]], table_current_size := table_current_size self + 1\<rparr>
             in if table_current_size s \<ge> table_max_size s
                then dictionary_resize s (table_max_size s * 2) else s
           else self\<lparr>table := (table self)[i := chain @ [e]]\<rparr>)
      in self1\<lparr>elements_amount := elements_amount self1 + 1\<rparr>)"

definition dictionary_get_element :: "'a t_dictionary \<Rightarrow> string \<Rightarrow> 'a t_hash_element option" where
  "dictionary_get_element self k =
     (let h = dictionary_hash k
      in find (\<lambda>e. hashcode e = h) (table self ! hash_index h (table_max_size self)))"

definition dictionary_get :: "'a t_dictionary \<Rightarrow> string \<Rightarrow> 'a option" where
  "dictionary_get self k = (case dictionary_get_element self k of None \<Rightarrow> None | Some e \<Rightarrow> edata e)"

definition dictionary_has_key :: "'a t_dictionary \<Rightarrow> string \<Rightarrow> bool" where
  "dictionary_has_key self k \<longleftrightarrow> dictionary_get_element self k \<noteq> None"

fun remove_from_chain :: "u32 \<Rightarrow> 'a t_hash_element list \<Rightarrow> 'a t_hash_element option \<times> 'a t_hash_element list" where
  "remove_from_chain h [] = (None, [])"
| "remove_from_chain h (e # es) = (if hashcode e = h then (Some e, es)
     else case remove_from_chain h es of (r, es') \<Rightarrow> (r, e # es'))"

text \<open>\<open>table_current_size\<close> goes down when the first element of a chain was its only one.\<close>

definition dictionary_remove_element :: "'a t_dictionary \<Rightarrow> string \<Rightarrow> 'a option \<times> 'a t_dictionary" where
  "dictionary_remove_element self k =
     (let h = dictionary_hash k; i = hash_index h (table_max_size self)
      in case remove_from_chain h (table self ! i) of
           (None, _) \<Rightarrow> (None, self)
         | (Some e, chain) \<Rightarrow>
             (edata e, self\<lparr>table := (table self)[i := chain],
                table_current_size := (if chain = [] then table_current_size self - 1
                                       else table_current_size self)\<rparr>))"

definition dictionary_remove :: "'a t_dictionary \<Rightarrow> string \<Rightarrow> 'a option \<times> 'a t_dictionary" where
  "dictionary_remove self k =
     (case dictionary_remove_element self k of
        (None, self') \<Rightarrow> (None, self')
      | (Some d, self') \<Rightarrow> (Some d, self'\<lparr>elements_amount := elements_amount self' - 1\<rparr>))"

text \<open>With a destroyer, a function on the state of the caller; a null one is not called by \<open>clean\<close>.\<close>

definition dictionary_remove_and_destroy ::
  "('a \<Rightarrow> 's \<Rightarrow> 's) \<Rightarrow> 'a t_dictionary \<Rightarrow> string \<Rightarrow> 's \<Rightarrow> 's \<times> 'a t_dictionary" where
  "dictionary_remove_and_destroy destroyer self k st =
     (case dictionary_remove_element self k of
        (None, self') \<Rightarrow> (st, self')
      | (Some d, self') \<Rightarrow> (destroyer d st, self'\<lparr>elements_amount := elements_amount self' - 1\<rparr>))"

definition dictionary_destroy_element ::
  "('a option \<Rightarrow> 's \<Rightarrow> 's) option \<Rightarrow> 'a t_hash_element \<Rightarrow> 's \<Rightarrow> 's" where
  "dictionary_destroy_element destroyer e st =
     (case destroyer of None \<Rightarrow> st | Some f \<Rightarrow> f (edata e) st)"

definition dictionary_clean ::
  "('a option \<Rightarrow> 's \<Rightarrow> 's) option \<Rightarrow> 'a t_dictionary \<Rightarrow> 's \<Rightarrow> 's \<times> 'a t_dictionary" where
  "dictionary_clean destroyer self st =
     (fold (fold (dictionary_destroy_element destroyer)) (table self) st,
      self\<lparr>table := replicate (length (table self)) [], table_current_size := 0, elements_amount := 0\<rparr>)"

text \<open>Destroying is cleaning; the table is freed, what stays is the state of the destroyer.\<close>

definition dictionary_destroy :: "('a option \<Rightarrow> 's \<Rightarrow> 's) option \<Rightarrow> 'a t_dictionary \<Rightarrow> 's \<Rightarrow> 's" where
  "dictionary_destroy destroyer self st = fst (dictionary_clean destroyer self st)"

definition dictionary_is_empty :: "'a t_dictionary \<Rightarrow> bool" where
  "dictionary_is_empty self \<longleftrightarrow> elements_amount self = 0"

definition dictionary_size :: "'a t_dictionary \<Rightarrow> nat" where
  "dictionary_size self = elements_amount self"

text \<open>
  The inner loop of \<open>dictionary_iterator\<close> reads the next element and never goes on to it: it ends
  after the first element of a chain if that is the only one.
\<close>

primrec iterate_chain ::
  "nat \<Rightarrow> (string \<Rightarrow> 'a t_hash_element \<Rightarrow> 's \<Rightarrow> 's res) \<Rightarrow> 'a t_hash_element list \<Rightarrow> 's \<Rightarrow> 's res" where
  "iterate_chain 0 closure chain st = Inl NoReturn"
| "iterate_chain (Suc n) closure chain st =
     (case chain of [] \<Rightarrow> Inr st
      | e # next_element \<Rightarrow> bindE (closure (ekey e) e st)
          (\<lambda>st'. if next_element \<noteq> [] then iterate_chain n closure chain st' else Inr st'))"

fun iterate_table ::
  "nat \<Rightarrow> (string \<Rightarrow> 'a t_hash_element \<Rightarrow> 's \<Rightarrow> 's res) \<Rightarrow> 'a t_hash_element list list \<Rightarrow> 's \<Rightarrow> 's res" where
  "iterate_table n closure [] st = Inr st"
| "iterate_table n closure (chain # rest) st =
     bindE (iterate_chain n closure chain st) (iterate_table n closure rest)"

definition dictionary_iterator ::
  "nat \<Rightarrow> 'a t_dictionary \<Rightarrow> (string \<Rightarrow> 'a t_hash_element \<Rightarrow> 's \<Rightarrow> 's res) \<Rightarrow> 's \<Rightarrow> 's res" where
  "dictionary_iterator n self closure st = iterate_table n closure (table self) st"

section \<open>The table and its chains\<close>

definition wf_dictionary :: "'a t_dictionary \<Rightarrow> bool" where
  "wf_dictionary d \<longleftrightarrow> 0 < table_max_size d \<and> length (table d) = table_max_size d
     \<and> (\<forall>i < table_max_size d. \<forall>e \<in> set (table d ! i). hash_index (hashcode e) (table_max_size d) = i)
     \<and> table_current_size d = length (filter (\<lambda>c. c \<noteq> []) (table d))
     \<and> elements_amount d = length (concat (table d))"

text \<open>The elements with a given hash, in the order they were put in.\<close>

definition entries :: "'a t_dictionary \<Rightarrow> u32 \<Rightarrow> 'a t_hash_element list" where
  "entries d h = filter (\<lambda>e. hashcode e = h) (table d ! hash_index h (table_max_size d))"

lemma hash_index_less [simp]: "0 < n \<Longrightarrow> hash_index h n < n"
  by (simp add: hash_index_def)

lemma create_wf: "wf_dictionary dictionary_create"
  by (simp add: wf_dictionary_def dictionary_create_def)

lemma entries_create [simp]: "entries dictionary_create h = []"
  by (simp add: entries_def dictionary_create_def)

lemma find_hd_filter: "find P xs = (case filter P xs of [] \<Rightarrow> None | x # _ \<Rightarrow> Some x)"
  by (induction xs) auto

lemma dictionary_get_entries:
  "dictionary_get d k = (case entries d (dictionary_hash k) of [] \<Rightarrow> None | e # _ \<Rightarrow> edata e)"
  by (simp add: dictionary_get_def dictionary_get_element_def entries_def find_hd_filter Let_def
      split: list.splits)

lemma dictionary_has_key_entries: "dictionary_has_key d k \<longleftrightarrow> entries d (dictionary_hash k) \<noteq> []"
  by (simp add: dictionary_has_key_def dictionary_get_element_def entries_def find_hd_filter Let_def
      split: list.splits)

lemma length_concat_update:
  "i < length xss \<Longrightarrow> length (concat (xss[i := ys])) + length (xss ! i) = length (concat xss) + length ys"
  by (induction xss arbitrary: i) (auto split: nat.splits)

lemma length_filter_update:
  "i < length xs \<Longrightarrow> length (filter P (xs[i := y])) + (if P (xs ! i) then 1 else 0)
     = length (filter P xs) + (if P y then 1 else 0)"
proof (induction xs arbitrary: i)
  case (Cons x xs)
  then show ?case using Cons.IH[of "i - 1"] by (cases i) auto
qed simp

section \<open>Growing the table\<close>

lemma foldl_foldl_concat: "foldl (foldl f) a xss = foldl f a (concat xss)"
  by (induction xss arbitrary: a) auto

lemma move_elements:
  assumes "0 < n"
  shows "\<exists>new_table cur. foldl (move_element n) (replicate n [], 0) es = (new_table, cur)
    \<and> length new_table = n \<and> (\<forall>j < n. new_table ! j = filter (\<lambda>e. hash_index (hashcode e) n = j) es)
    \<and> cur = length (filter (\<lambda>c. c \<noteq> []) new_table) \<and> length (concat new_table) = length es"
proof (induction es rule: rev_induct)
  case Nil
  then show ?case by (simp add: filter_replicate)
next
  case (snoc e es)
  then obtain t cur where t: "foldl (move_element n) (replicate n [], 0) es = (t, cur)"
    "length t = n" "\<forall>j < n. t ! j = filter (\<lambda>e. hash_index (hashcode e) n = j) es"
    "cur = length (filter (\<lambda>c. c \<noteq> []) t)" "length (concat t) = length es" by blast
  let ?i = "hash_index (hashcode e) n"
  let ?t = "t[?i := t ! ?i @ [e]]"
  have i: "?i < length t" using assms t(2) by simp
  have "length (filter (\<lambda>c. c \<noteq> []) ?t) = (if t ! ?i = [] then cur + 1 else cur)"
    using length_filter_update[OF i, of "\<lambda>c. c \<noteq> []" "t ! ?i @ [e]"] t(4) by (simp split: if_splits)
  moreover have "length (concat ?t) = Suc (length es)"
    using length_concat_update[OF i, of "t ! ?i @ [e]"] t(5) by simp
  moreover have "\<forall>j < n. ?t ! j = filter (\<lambda>e. hash_index (hashcode e) n = j) (es @ [e])"
    using t(2,3) by (auto simp: nth_list_update)
  ultimately show ?case using t(1,2) by (simp add: move_element_def Let_def)
qed

lemma filter_concat_index:
  "j < length xss \<Longrightarrow> (\<forall>i < length xss. i \<noteq> j \<longrightarrow> (\<forall>x \<in> set (xss ! i). \<not> P x)) \<Longrightarrow>
   filter P (concat xss) = filter P (xss ! j)"
proof (induction xss arbitrary: j)
  case Nil
  then show ?case by simp
next
  case (Cons ys xss)
  show ?case
  proof (cases j)
    case 0
    have "filter P (concat xss) = []"
    proof -
      have "\<not> P x" if zs: "zs \<in> set xss" and x: "x \<in> set zs" for zs x
      proof -
        obtain i where "i < length xss" "xss ! i = zs" using zs by (auto simp: in_set_conv_nth)
        then show ?thesis using Cons.prems(2)[rule_format, of "Suc i" x] 0 x by simp
      qed
      then show ?thesis by (auto simp: filter_empty_conv)
    qed
    then show ?thesis using 0 by simp
  next
    case (Suc k)
    have "filter P ys = []" using Cons.prems(2)[rule_format, of 0] Suc by (auto simp: filter_empty_conv)
    moreover have "filter P (concat xss) = filter P (xss ! k)"
      using Cons.prems Suc by (intro Cons.IH) fastforce+
    ultimately show ?thesis using Suc by simp
  qed
qed

lemma entries_concat:
  "wf_dictionary d \<Longrightarrow> entries d h = filter (\<lambda>e. hashcode e = h) (concat (table d))"
  unfolding entries_def wf_dictionary_def
  by (subst filter_concat_index[where j = "hash_index h (table_max_size d)"]) auto

lemma resize_spec:
  assumes "0 < n" and "length (concat (table d)) = elements_amount d"
    and "\<And>h. entries d h = filter (\<lambda>e. hashcode e = h) (concat (table d))"
  shows "wf_dictionary (dictionary_resize d n)" and "entries (dictionary_resize d n) h = entries d h"
    and "elements_amount (dictionary_resize d n) = elements_amount d"
proof -
  obtain t cur where t: "foldl (move_element n) (replicate n [], 0) (concat (table d)) = (t, cur)"
    "length t = n" "\<forall>j < n. t ! j = filter (\<lambda>e. hash_index (hashcode e) n = j) (concat (table d))"
    "cur = length (filter (\<lambda>c. c \<noteq> []) t)" "length (concat t) = length (concat (table d))"
    using move_elements[OF assms(1), of "concat (table d)"] by blast
  have r: "dictionary_resize d n = d\<lparr>table := t, table_max_size := n, table_current_size := cur\<rparr>"
    by (simp add: dictionary_resize_def foldl_foldl_concat t(1))
  show "wf_dictionary (dictionary_resize d n)"
    using t(2-5) assms(1,2) by (simp add: r wf_dictionary_def)
  have "filter (\<lambda>e. hashcode e = h) (t ! hash_index h n) = filter (\<lambda>e. hashcode e = h) (concat (table d))"
    using t(3) assms(1) by (auto simp: conj_commute intro: filter_cong)
  then show "entries (dictionary_resize d n) h = entries d h"
    unfolding assms(3) by (simp add: r entries_def)
  show "elements_amount (dictionary_resize d n) = elements_amount d" by (simp add: r)
qed

section \<open>Putting and removing\<close>

lemma update_chain:
  assumes wf: "wf_dictionary d" and i: "i = hash_index h (table_max_size d)"
    and chain: "\<forall>e \<in> set chain. hash_index (hashcode e) (table_max_size d) = i"
    and other: "\<And>h'. h' \<noteq> h \<Longrightarrow> filter (\<lambda>e. hashcode e = h') chain = filter (\<lambda>e. hashcode e = h') (table d ! i)"
    and new: "d' = d\<lparr>table := (table d)[i := chain], table_current_size := cur, elements_amount := amt\<rparr>"
    and cur: "cur + (if table d ! i \<noteq> [] then 1 else 0) = table_current_size d + (if chain \<noteq> [] then 1 else 0)"
    and amt: "amt + length (table d ! i) = elements_amount d + length chain"
  shows "wf_dictionary d'"
    and "entries d' h' = (if h' = h then filter (\<lambda>e. hashcode e = h) chain else entries d h')"
proof -
  have il: "i < length (table d)" using wf i by (simp add: wf_dictionary_def)
  show "wf_dictionary d'"
    using wf chain cur amt il length_filter_update[OF il, of "\<lambda>c. c \<noteq> []" chain]
      length_concat_update[OF il, of chain]
    by (auto simp: wf_dictionary_def new nth_list_update)
  show "entries d' h' = (if h' = h then filter (\<lambda>e. hashcode e = h) chain else entries d h')"
    using il i other[of h'] by (auto simp: entries_def new nth_list_update)
qed

lemma put_spec:
  assumes wf: "wf_dictionary d"
  shows "wf_dictionary (dictionary_put d k v)"
    and "entries (dictionary_put d k v) h = (if h = dictionary_hash k
       then entries d h @ [dictionary_create_element k h v] else entries d h)"
    and "elements_amount (dictionary_put d k v) = elements_amount d + 1"
proof -
  define i where "i = hash_index (dictionary_hash k) (table_max_size d)"
  define e where "e = dictionary_create_element k (dictionary_hash k) v"
  define ch where "ch = table d ! i"
  define cur where "cur = (if ch = [] then table_current_size d + 1 else table_current_size d)"
  define d1 where "d1 = d\<lparr>table := (table d)[i := ch @ [e]], table_current_size := cur,
    elements_amount := elements_amount d + 1\<rparr>"
  have he: "hashcode e = dictionary_hash k" by (simp add: e_def dictionary_create_element_def)
  have ch: "\<forall>x \<in> set (ch @ [e]). hash_index (hashcode x) (table_max_size d) = i"
    using wf he by (auto simp: ch_def wf_dictionary_def i_def)
  have wf1: "wf_dictionary d1"
    by (rule update_chain(1)[OF wf i_def ch _ d1_def]) (auto simp: ch_def cur_def he)
  have en1: "entries d1 h = (if h = dictionary_hash k
       then entries d h @ [dictionary_create_element k h v] else entries d h)" for h
    by (subst update_chain(2)[OF wf i_def ch _ d1_def])
      (auto simp: ch_def cur_def he entries_def i_def e_def dictionary_create_element_def)
  have put: "dictionary_put d k v = (if ch = [] \<and> table_max_size d \<le> cur
      then dictionary_resize d1 (table_max_size d * 2) else d1)"
    by (simp add: dictionary_put_def Let_def i_def[symmetric] e_def[symmetric] ch_def[symmetric]
        d1_def cur_def dictionary_resize_def split: prod.splits)
  have am1: "elements_amount d1 = elements_amount d + 1" by (simp add: d1_def)
  have pos: "0 < table_max_size d * 2" using wf by (simp add: wf_dictionary_def)
  have am: "length (concat (table d1)) = elements_amount d1" using wf1 by (simp add: wf_dictionary_def)
  note rs = resize_spec[OF pos am entries_concat[OF wf1]]
  show "wf_dictionary (dictionary_put d k v)" using wf1 rs(1) by (simp add: put)
  show "entries (dictionary_put d k v) h = (if h = dictionary_hash k
       then entries d h @ [dictionary_create_element k h v] else entries d h)"
    using rs(2)[of h] en1[of h] by (cases "h = dictionary_hash k") (simp_all add: put)
  show "elements_amount (dictionary_put d k v) = elements_amount d + 1"
    using rs(3) am1 by (simp add: put)
qed

lemma remove_from_chain_spec:
  "remove_from_chain h es =
     (case filter (\<lambda>e. hashcode e = h) es of
        [] \<Rightarrow> (None, es)
      | e # _ \<Rightarrow> (Some e, takeWhile (\<lambda>e. hashcode e \<noteq> h) es @ tl (dropWhile (\<lambda>e. hashcode e \<noteq> h) es)))"
  by (induction es) (auto split: list.splits)

lemma filter_remove_chain:
  "filter (\<lambda>e. hashcode e = h') (takeWhile (\<lambda>e. hashcode e \<noteq> h) es @ tl (dropWhile (\<lambda>e. hashcode e \<noteq> h) es))
     = (if h' = h then tl (filter (\<lambda>e. hashcode e = h) es) else filter (\<lambda>e. hashcode e = h') es)"
  by (induction es) auto

lemma length_remove_chain:
  "filter (\<lambda>e. hashcode e = h) es \<noteq> [] \<Longrightarrow>
   Suc (length (takeWhile (\<lambda>e. hashcode e \<noteq> h) es @ tl (dropWhile (\<lambda>e. hashcode e \<noteq> h) es))) = length es"
  by (induction es) auto

lemma set_remove_chain:
  "set (takeWhile (\<lambda>e. hashcode e \<noteq> h) es @ tl (dropWhile (\<lambda>e. hashcode e \<noteq> h) es)) \<subseteq> set es"
  by (induction es) auto

text \<open>Removing takes the first element with the hash out; nothing is counted for a null \<open>data\<close>.\<close>

lemma remove_spec:
  assumes wf: "wf_dictionary d" and data: "\<forall>e \<in> set (entries d (dictionary_hash k)). edata e \<noteq> None"
  shows "fst (dictionary_remove d k) = dictionary_get d k"
    and "wf_dictionary (snd (dictionary_remove d k))"
    and "entries (snd (dictionary_remove d k)) h =
      (if h = dictionary_hash k then tl (entries d h) else entries d h)"
proof -
  define hk where "hk = dictionary_hash k"
  define i where "i = hash_index hk (table_max_size d)"
  define es where "es = table d ! i"
  define rest where "rest = takeWhile (\<lambda>e. hashcode e \<noteq> hk) es @ tl (dropWhile (\<lambda>e. hashcode e \<noteq> hk) es)"
  have en: "entries d hk = filter (\<lambda>e. hashcode e = hk) es" by (simp add: entries_def es_def i_def)
  have "fst (dictionary_remove d k) = dictionary_get d k \<and> wf_dictionary (snd (dictionary_remove d k))
    \<and> entries (snd (dictionary_remove d k)) h = (if h = hk then tl (entries d h) else entries d h)"
  proof (cases "entries d hk")
    case Nil
    then have "dictionary_remove d k = (None, d)"
      using en by (simp add: dictionary_remove_def dictionary_remove_element_def Let_def hk_def[symmetric]
          i_def[symmetric] es_def[symmetric] remove_from_chain_spec)
    then show ?thesis using Nil wf by (auto simp: dictionary_get_entries hk_def[symmetric])
  next
    case (Cons e es')
    then obtain x where x: "edata e = Some x" using data by (auto simp: hk_def)
    define cur where "cur = (if rest = [] then table_current_size d - 1 else table_current_size d)"
    define d1 where "d1 = d\<lparr>table := (table d)[i := rest], table_current_size := cur,
      elements_amount := elements_amount d - 1\<rparr>"
    have fl: "filter (\<lambda>e. hashcode e = hk) es = e # es'" using en Cons by simp
    have rc: "remove_from_chain hk es = (Some e, rest)"
      unfolding remove_from_chain_spec fl rest_def by simp
    have rm: "dictionary_remove d k = (Some x, d1)"
      unfolding dictionary_remove_def dictionary_remove_element_def Let_def hk_def[symmetric]
        i_def[symmetric] es_def[symmetric] rc
      using x by (simp add: d1_def cur_def)
    have il: "i < length (table d)" using wf by (simp add: wf_dictionary_def i_def)
    have ne: "es \<noteq> []" using en Cons by auto
    have len: "Suc (length rest) = length es" using length_remove_chain[of hk es] fl by (simp add: rest_def)
    have "0 < table_current_size d"
      using wf il ne by (auto simp: wf_dictionary_def es_def filter_empty_conv)
    then have cur: "cur + (if table d ! i \<noteq> [] then 1 else 0)
        = table_current_size d + (if rest \<noteq> [] then 1 else 0)"
      using ne by (simp add: cur_def es_def)
    have "length (concat (table d)) \<ge> length es"
      using length_concat_update[OF il, of "[]"] by (simp add: es_def)
    then have amt: "elements_amount d - 1 + length (table d ! i) = elements_amount d + length rest"
      using wf len by (simp add: wf_dictionary_def es_def)
    have chain: "\<forall>e \<in> set rest. hash_index (hashcode e) (table_max_size d) = i"
      using set_remove_chain[of hk es] wf il by (auto simp: rest_def es_def wf_dictionary_def)
    have other: "filter (\<lambda>e. hashcode e = h') rest = filter (\<lambda>e. hashcode e = h') (table d ! i)"
      if "h' \<noteq> hk" for h' unfolding rest_def filter_remove_chain using that by (simp add: es_def)
    note up = update_chain[OF wf i_def chain other d1_def cur amt]
    have "filter (\<lambda>e. hashcode e = hk) rest = tl (entries d hk)"
      unfolding rest_def filter_remove_chain en by simp
    then show ?thesis using up rm Cons x by (simp add: dictionary_get_entries hk_def[symmetric])
  qed
  then show "fst (dictionary_remove d k) = dictionary_get d k" "wf_dictionary (snd (dictionary_remove d k))"
    "entries (snd (dictionary_remove d k)) h = (if h = dictionary_hash k then tl (entries d h) else entries d h)"
    by (simp_all add: hk_def)
qed

section \<open>The interface of the dictionary\<close>

text \<open>
  A store of values under keys that are told apart up to \<open>same\<close> only: the values of a key in the
  order they were put in, of which \<open>get\<close> delivers the first.
\<close>

locale value_store =
  fixes ok :: "'d \<Rightarrow> bool"
    and vals :: "'d \<Rightarrow> string \<Rightarrow> 'v option list"
    and same :: "string \<Rightarrow> string \<Rightarrow> bool"
    and empty :: 'd
    and put :: "'d \<Rightarrow> string \<Rightarrow> 'v option \<Rightarrow> 'd"
    and get :: "'d \<Rightarrow> string \<Rightarrow> 'v option"
  assumes ok_empty: "ok empty" and vals_empty: "vals empty k = []"
    and ok_put: "ok d \<Longrightarrow> ok (put d k v)"
    and vals_put: "ok d \<Longrightarrow> vals (put d k v) k' = vals d k' @ (if same k k' then [v] else [])"
    and get_vals: "ok d \<Longrightarrow> get d k = (case vals d k of [] \<Rightarrow> None | v # _ \<Rightarrow> v)"
    and same_refl: "same k k"
begin

lemma get_empty: "get empty k = None"
  by (simp add: get_vals ok_empty vals_empty)

lemma get_put_fresh: "ok d \<Longrightarrow> vals d k = [] \<Longrightarrow> get (put d k v) k = v"
  by (simp add: get_vals ok_put vals_put same_refl)

lemma get_put_keeps: "ok d \<Longrightarrow> vals d k' \<noteq> [] \<or> \<not> same k k' \<Longrightarrow> get (put d k v) k' = get d k'"
  by (auto simp: get_vals ok_put vals_put split: list.splits)

lemma vals_put_all:
  "ok d \<Longrightarrow> ok (foldl (\<lambda>d (k, v). put d k v) d ps)
   \<and> vals (foldl (\<lambda>d (k, v). put d k v) d ps) k' = vals d k' @ map snd (filter (\<lambda>(k, v). same k k') ps)"
  by (induction ps arbitrary: d) (auto simp: ok_put vals_put)

text \<open>Of several pairs with the same key the first one counts.\<close>

lemma get_put_all:
  "get (foldl (\<lambda>d (k, v). put d k v) empty ps) k' =
     (case find (\<lambda>(k, v). same k k') ps of None \<Rightarrow> None | Some (k, v) \<Rightarrow> v)"
proof -
  have "find (\<lambda>(k, v). same k k') ps = (case filter (\<lambda>(k, v). same k k') ps of [] \<Rightarrow> None | p # _ \<Rightarrow> Some p)"
    by (rule find_hd_filter)
  then show ?thesis using vals_put_all[OF ok_empty, of ps k']
    by (cases "filter (\<lambda>(k, v). same k k') ps") (auto simp: get_vals vals_empty)
qed

end

interpretation dict: value_store wf_dictionary "\<lambda>d k. map edata (entries d (dictionary_hash k))"
    "\<lambda>k k'. dictionary_hash k = dictionary_hash k'" dictionary_create dictionary_put dictionary_get
  by unfold_locales
    (auto simp: create_wf put_spec dictionary_get_entries dictionary_create_element_def split: list.splits)

section \<open>Iteration\<close>

lemma iterate_chain_one: "0 < n \<Longrightarrow> iterate_chain n closure [e] st = closure (ekey e) e st"
  by (cases n; cases "closure (ekey e) e st") auto

lemma iterate_chain_stuck:
  "es \<noteq> [] \<Longrightarrow> (\<And>st. \<exists>st'. closure (ekey e) e st = Inr st') \<Longrightarrow> iterate_chain n closure (e # es) st = Inl NoReturn"
proof (induction n arbitrary: st)
  case (Suc n)
  obtain st' where "closure (ekey e) e st = Inr st'" using Suc.prems(2) by blast
  then show ?case using Suc by simp
qed simp

lemma iterate_table_stuck:
  assumes "\<And>e st. \<exists>st'. closure (ekey e) e st = Inr st'"
  shows "(\<exists>c \<in> set chains'. 1 < length c) \<Longrightarrow> iterate_table n closure chains' st = Inl NoReturn"
proof (induction chains' arbitrary: st)
  case (Cons c cs)
  show ?case
  proof (cases "1 < length c")
    case True
    then obtain e e' es where "c = e # e' # es" by (cases c; cases "tl c") auto
    then show ?thesis using iterate_chain_stuck[of "e' # es" closure e n st] assms by simp
  next
    case False
    then have "\<exists>c \<in> set cs. 1 < length c" using Cons.prems by auto
    moreover have "iterate_chain n closure c st = Inl NoReturn
        \<or> (\<exists>st'. iterate_chain n closure c st = Inr st')"
    proof (cases n)
      case (Suc m)
      show ?thesis
      proof (cases c)
        case (Cons e es)
        then have "es = []" using False by simp
        moreover obtain st' where "closure (ekey e) e st = Inr st'" using assms by blast
        ultimately show ?thesis using Suc Cons by simp
      qed (simp add: Suc)
    qed simp
    ultimately show ?thesis using Cons.IH by auto
  qed
qed simp

end
