(* ===== verification/C_Config.thy ===== *)
theory C_Config
  imports Complex_Main C_Dictionary
begin

text \<open>
  \<open>commons/config.c\<close>: a configuration file is cut into lines, each line into a key and a value,
  which go into a dictionary. The file is its content, \<open>None\<close> when it cannot be opened.
\<close>

record t_config =
  path :: string
  properties :: "string t_dictionary"

text \<open>
  A line of separators only gives no token at all: its key is the closing NULL of the array, which
  \<open>dictionary_put\<close> follows. A line with a key alone stores a null value.
\<close>

definition add_cofiguration :: "string t_dictionary \<Rightarrow> string \<Rightarrow> string t_dictionary res" where
  "add_cofiguration d line =
     (if \<not> string_starts_with line ''#'' then
        case string_split line ''='' of
          [] \<Rightarrow> Inl UB
        | [k] \<Rightarrow> Inr (dictionary_put d k None)
        | k # v # _ \<Rightarrow> Inr (dictionary_put d k (Some v))
      else Inr d)"

fun add_lines :: "string t_dictionary \<Rightarrow> string list \<Rightarrow> string t_dictionary res" where
  "add_lines d [] = Inr d"
| "add_lines d (line # ls) = bindE (add_cofiguration d line) (\<lambda>d'. add_lines d' ls)"

definition config_create :: "string \<Rightarrow> string option \<Rightarrow> t_config res" where
  "config_create p file =
     (case file of
        None \<Rightarrow> Inr \<lparr>path = p, properties = dictionary_create\<rparr>
      | Some content \<Rightarrow> bindE (add_lines dictionary_create (string_split (cstring content) [NL]))
          (\<lambda>d. Inr \<lparr>path = p, properties = d\<rparr>))"

definition config_has_property :: "t_config \<Rightarrow> string \<Rightarrow> bool" where
  "config_has_property self k \<longleftrightarrow> dictionary_has_key (properties self) k"

definition config_get_string_value :: "t_config \<Rightarrow> string \<Rightarrow> string option" where
  "config_get_string_value self k = dictionary_get (properties self) k"

text \<open>\<open>atoi\<close> follows its argument, also a null one.\<close>

definition config_get_int_value :: "t_config \<Rightarrow> string \<Rightarrow> s32 res" where
  "config_get_int_value self k =
     (case config_get_string_value self k of None \<Rightarrow> Inl UB | Some v \<Rightarrow> Inr (atoi v))"

definition config_get_long_value :: "t_config \<Rightarrow> string \<Rightarrow> int res" where
  "config_get_long_value self k =
     (case config_get_string_value self k of None \<Rightarrow> Inl UB | Some v \<Rightarrow> Inr (strtol10 v))"

text \<open>
  \<open>atof\<close> on decimal notation, with an optional fraction and exponent; the value is the exact
  rational one, and the forms for infinity, NaN and hexadecimal numbers are left out.
\<close>

definition pow10 :: "int \<Rightarrow> rat" where
  "pow10 e = (if 0 \<le> e then 10 ^ nat e else 1 / 10 ^ nat (- e))"

definition exponent_of :: "string \<Rightarrow> int" where
  "exponent_of s =
     (case s of
        c # s' \<Rightarrow> if c = CHR ''e'' \<or> c = CHR ''E'' then
            (case s' of
               sg # ds \<Rightarrow> if sg = CHR ''-'' then - int (dec_val (takeWhile isdigit ds))
                 else if sg = CHR ''+'' then int (dec_val (takeWhile isdigit ds))
                 else int (dec_val (takeWhile isdigit s'))
             | [] \<Rightarrow> 0)
          else 0
      | [] \<Rightarrow> 0)"

definition unsigned_decimal :: "string \<Rightarrow> rat" where
  "unsigned_decimal s =
     (let whole = takeWhile isdigit s; rest = dropWhile isdigit s;
          frac = (if rest \<noteq> [] \<and> hd rest = CHR ''.'' then takeWhile isdigit (tl rest) else []);
          rest' = (if rest \<noteq> [] \<and> hd rest = CHR ''.'' then dropWhile isdigit (tl rest) else rest)
      in if whole = [] \<and> frac = [] then 0
         else of_nat (dec_val (whole @ frac)) * pow10 (exponent_of rest' - int (length frac)))"

definition atof :: "string \<Rightarrow> rat" where
  "atof s =
     (let s1 = dropWhile isspace s in
      case s1 of
        [] \<Rightarrow> 0
      | c # s2 \<Rightarrow> if c = CHR ''-'' then - unsigned_decimal s2
          else if c = CHR ''+'' then unsigned_decimal s2 else unsigned_decimal s1)"

definition config_get_double_value :: "t_config \<Rightarrow> string \<Rightarrow> rat res" where
  "config_get_double_value self k =
     (case config_get_string_value self k of None \<Rightarrow> Inl UB | Some v \<Rightarrow> Inr (atof v))"

definition config_keys_amount :: "t_config \<Rightarrow> nat" where
  "config_keys_amount self = dictionary_size (properties self)"

section \<open>What a file defines\<close>

text \<open>The pairs of a file, in order: a line that is no comment gives its first two tokens.\<close>

definition line_pair :: "string \<Rightarrow> string \<times> string option" where
  "line_pair line = (case string_split line ''='' of [] \<Rightarrow> ([], None) | [k] \<Rightarrow> (k, None)
     | k # v # _ \<Rightarrow> (k, Some v))"

definition config_lines :: "string \<Rightarrow> string list" where
  "config_lines content =
     filter (\<lambda>line. \<not> string_starts_with line ''#'') (string_split (cstring content) [NL])"

definition config_ok :: "string \<Rightarrow> bool" where
  "config_ok content \<longleftrightarrow> (\<forall>line \<in> set (config_lines content). \<exists>c \<in> set line. c \<noteq> CHR ''='')"

definition lookup_line :: "string \<Rightarrow> string \<Rightarrow> string option" where
  "lookup_line content k =
     (case find (\<lambda>(k', v). dictionary_hash k' = dictionary_hash k) (map line_pair (config_lines content)) of
        None \<Rightarrow> None | Some (k', v) \<Rightarrow> v)"

lemma split_not_Nil: "\<exists>c \<in> set line. c \<notin> set sep \<Longrightarrow> string_split line sep \<noteq> []"
proof
  assume "\<exists>c \<in> set line. c \<notin> set sep" and "string_split line sep = []"
  then show False by (metis concat.simps(1) concat_string_split filter_empty_conv)
qed

lemma add_lines_pairs:
  "(\<forall>line \<in> set (filter (\<lambda>line. \<not> string_starts_with line ''#'') ls). \<exists>c \<in> set line. c \<noteq> CHR ''='') \<Longrightarrow>
   add_lines d ls = Inr (foldl (\<lambda>d (k, v). dictionary_put d k v) d
     (map line_pair (filter (\<lambda>line. \<not> string_starts_with line ''#'') ls)))"
proof (induction ls arbitrary: d)
  case (Cons line ls)
  show ?case
  proof (cases "string_starts_with line ''#''")
    case False
    then have "string_split line ''='' \<noteq> []" using Cons.prems split_not_Nil[of line "''=''"] by auto
    then show ?thesis using Cons False
      by (auto simp: add_cofiguration_def line_pair_def split: list.splits)
  qed (use Cons in \<open>simp add: add_cofiguration_def\<close>)
qed simp

lemma config_create_spec:
  assumes "config_ok content"
  shows "\<exists>cfg. config_create p (Some content) = Inr cfg \<and> wf_dictionary (properties cfg)
    \<and> (\<forall>k. config_get_string_value cfg k = lookup_line content k)"
proof -
  let ?ps = "map line_pair (config_lines content)"
  let ?d = "foldl (\<lambda>d (k, v). dictionary_put d k v) dictionary_create ?ps"
  have "config_create p (Some content) = Inr \<lparr>path = p, properties = ?d\<rparr>"
    using assms add_lines_pairs[of "string_split (cstring content) [NL]" dictionary_create]
    by (simp add: config_create_def config_ok_def config_lines_def)
  moreover have "wf_dictionary ?d" using dict.vals_put_all[OF create_wf, of ?ps "[]"] by blast
  moreover have "dictionary_get ?d k = lookup_line content k" for k
    by (simp add: dict.get_put_all lookup_line_def)
  ultimately show ?thesis by (auto simp: config_get_string_value_def)
qed

lemma config_create_bad_line:
  "line \<in> set (string_split (cstring content) [NL]) \<Longrightarrow> set line \<subseteq> {CHR ''=''} \<Longrightarrow>
   config_create p (Some content) = Inl UB"
proof -
  assume l: "line \<in> set (string_split (cstring content) [NL])" and eq: "set line \<subseteq> {CHR ''=''}"
  have "line \<noteq> []" using string_split_tokens[OF l] by blast
  then have nc: "\<not> string_starts_with line ''#''" using eq by (cases line) (auto simp: string_starts_with_prefix)
  have "concat (string_split line ''='') = []"
    using eq by (auto simp: concat_string_split filter_empty_conv)
  then have "string_split line ''='' = []"
    using string_split_tokens[of _ line "''=''"] by (cases "string_split line ''=''") auto
  then have bad: "add_cofiguration d line = Inl UB" for d using nc by (simp add: add_cofiguration_def)
  have only: "add_cofiguration d l = Inl UB \<or> (\<exists>d'. add_cofiguration d l = Inr d')" for d l
    by (auto simp: add_cofiguration_def split: list.splits)
  have "line \<in> set ls \<Longrightarrow> add_lines d ls = Inl UB" for ls d
  proof (induction ls arbitrary: d)
    case (Cons m ls)
    then show ?case using bad only[of d m] by auto
  qed simp
  then show ?thesis using l by (simp add: config_create_def)
qed

end
