(* ===== verification/PP_Data.thy ===== *)
theory PP_Data
  imports Complex_Main C_Strings C_List_Spec
begin

text \<open>
  The process image of \<open>PP/src/procer_defs.h\<close> and the helpers of \<open>PP/src/procer_defs.c\<close> that read
  and write its parts: the code segment (the script cut into trimmed lines), the data segment (an
  array of variables closed by an entry named NUL), labels and functions, and the dump of an image
  that is sent to the client. The arrays are modelled whole: a data segment is the list of its
  entries with the closing one, a code segment the list of its lines (the closing NULL is position
  \<open>length code\<close>, and following it is undefined). A \<open>uint16_t\<close> counter is a \<open>16 word\<close>.
\<close>

section \<open>Types of \<open>procer_defs.h\<close>\<close>

record t_data =
  varName :: char
  varValue :: s32

record t_stack =
  functionName :: string
  stPC :: u16
  linecall :: u16

record t_ProcessImage =
  clientfd :: int
  pid :: int
  priority :: s32
  piPC :: u16
  piCode :: string
  piData :: "t_data list option"
  piStack :: "t_stack list"
  Tspn :: rat

section \<open>Data segment\<close>

definition dataCount :: "t_data list option \<Rightarrow> nat res" where
  "dataCount data = (case data of None \<Rightarrow> Inr 0 | Some d \<Rightarrow> scan (\<lambda>e. varName e = NUL) d)"

text \<open>
  The loop of \<open>addVariables\<close> over the rest \<open>v\<close> of the variable list: the new entry goes to index
  \<open>varCount - 1\<close> of the array reallocated to \<open>varCount\<close> entries; a counter that wraps to 0 makes
  that index -1. A list that ends after a separator stores the NUL and reads beyond it.
\<close>

definition store_last :: "t_data list \<Rightarrow> u16 \<Rightarrow> t_data \<Rightarrow> t_data list res" where
  "store_last d varCount e = (if varCount = 0 then Inl UB else Inr (take (unat varCount - 1) d @ [e]))"

fun addVariables_loop :: "string \<Rightarrow> u16 \<Rightarrow> t_data list \<Rightarrow> (u16 \<times> t_data list) res" where
  "addVariables_loop [] varCount d = Inl UB"
| "addVariables_loop [c] varCount d =
     bindE (store_last d (varCount + 1) \<lparr>varName = c, varValue = 0\<rparr>) (\<lambda>d'. Inr (varCount + 1, d'))"
| "addVariables_loop (c # sep # v) varCount d =
     bindE (store_last d (varCount + 1) \<lparr>varName = c, varValue = 0\<rparr>)
       (\<lambda>d'. addVariables_loop v (varCount + 1) d')"

definition addVariables :: "t_data list option \<Rightarrow> string \<Rightarrow> t_data list option res" where
  "addVariables data varList =
     bindE (dataCount data) (\<lambda>n.
     bindE (addVariables_loop varList (of_nat n) (case data of None \<Rightarrow> [] | Some d \<Rightarrow> d)) (\<lambda>(varCount, d).
     bindE (store_last d (varCount + 1) \<lparr>varName = NUL, varValue = 0\<rparr>) (\<lambda>d'. Inr (Some d'))))"

definition data_index :: "t_data list option \<Rightarrow> char \<Rightarrow> (t_data list \<times> nat) res" where
  "data_index data v =
     (case data of None \<Rightarrow> Inl UB
      | Some d \<Rightarrow> bindE (scan (\<lambda>e. varName e = NUL \<or> varName e = v) d) (\<lambda>i. Inr (d, i)))"

definition readData :: "t_data list option \<Rightarrow> char \<Rightarrow> s32 res" where
  "readData data v =
     bindE (data_index data v) (\<lambda>(d, i).
       if varName (d ! i) = NUL then Inr (atoi [v]) else Inr (varValue (d ! i)))"

definition writeData :: "t_data list option \<Rightarrow> char \<Rightarrow> s32 \<Rightarrow> t_data list option res" where
  "writeData data v x =
     bindE (data_index data v) (\<lambda>(d, i).
       if varName (d ! i) \<noteq> NUL then Inr (Some (d[i := (d ! i)\<lparr>varValue := x\<rparr>])) else Inr (Some d))"

section \<open>Code segment\<close>

definition strlenCS :: "string \<Rightarrow> nat" where
  "strlenCS line = length (takeWhile (\<lambda>c. c \<noteq> NL) line)"

text \<open>The inner loop of \<open>codeSegmentCreator\<close>: where the line, or the code before a \<open>#\<close>, ends.\<close>

definition line_length :: "string \<Rightarrow> nat" where
  "line_length c = length (takeWhile (\<lambda>x. x \<noteq> NL \<and> x \<noteq> CHR ''#'') c)"

text \<open>
  One round per line. The counter \<open>lineLength\<close> has 16 bits: with no stop among the first 65536
  characters it wraps and the scan never ends. After a line the pointer moves to
  \<open>strlenCS(code) + 1\<close>, which lies beyond the script when the last line has a \<open>#\<close> and no newline.
\<close>

function codeSegment_loop :: "u16 \<Rightarrow> string \<Rightarrow> string list \<Rightarrow> string list res" where
  "codeSegment_loop linesCount c segs =
     (let linesCount' = linesCount + 1; lineLength = line_length c in
      if lineLength > 65535 then Inl NoReturn
      else if linesCount' = 0 then Inl UB
      else let segs' = segs @ [string_trim (take lineLength c)] in
        if lineLength = length c
        then (if linesCount' + 1 = 0 then Inl UB else Inr segs')
        else if strlenCS c < length c
        then codeSegment_loop linesCount' (drop (strlenCS c + 1) c) segs'
        else Inl UB)"
  by pat_completeness auto
termination
  by (relation "measure (\<lambda>(_, c, _). length c)") auto

declare codeSegment_loop.simps [simp del]

definition codeSegmentCreator :: "string \<Rightarrow> string list res" where
  "codeSegmentCreator script = codeSegment_loop 0 script []"

text \<open>\<open>code[PC]\<close>: the entry \<open>length code\<close> is the NULL that every caller follows.\<close>

definition code_line :: "string list \<Rightarrow> u16 \<Rightarrow> string res" where
  "code_line code PC = arr_get code (unat PC)"

definition find_line :: "string list \<Rightarrow> string \<Rightarrow> u16 res" where
  "find_line code l = bindE (scan (\<lambda>x. x = l) code) (\<lambda>i. Inr (of_nat i))"

definition changePC :: "string list \<Rightarrow> string \<Rightarrow> u16 res" where
  "changePC code tagName =
     (let realTagName = takeWhile (\<lambda>c. c \<noteq> CHR '';'') tagName
      in find_line code (realTagName @ '':''))"

definition findFunctionLine :: "string list \<Rightarrow> string \<Rightarrow> u16 res" where
  "findFunctionLine code fname = find_line code (''comienzo_funcion '' @ fname)"

definition stack_get :: "t_stack list \<Rightarrow> (t_stack option \<times> t_stack list) res" where
  "stack_get stack = ls_remove stack (int (length stack) - 1)"

section \<open>Dump of an image\<close>

text \<open>
  \<open>tmp_size\<close> is added to, never reset: \<open>realloc\<close> gets more than it needs in \<open>dataStructureMsg\<close>
  until \<open>offset\<close> wraps, and \<open>stackStructureMsg\<close> copies \<open>tmp_size\<close> bytes out of a line that is
  shorter from the second element on.
\<close>

fun dataMsg_loop :: "t_data list \<Rightarrow> u16 \<Rightarrow> u16 \<Rightarrow> string option \<Rightarrow> string option res" where
  "dataMsg_loop [] offset tmp_size msg = Inl UB"
| "dataMsg_loop (e # d) offset tmp_size msg =
     (if varName e = NUL then Inr msg
      else let aux = [varName e] @ ''='' @ show_int (sint (varValue e)) @ [NL];
               tmp_size' = tmp_size + of_nat (length aux + 1);
               cap = unat offset + unat tmp_size';
               old = (if offset = 0 then [] else case msg of None \<Rightarrow> [] | Some m \<Rightarrow> m)
           in if length old + length aux + 1 \<le> cap
              then dataMsg_loop d (offset + tmp_size' - 1) tmp_size' (Some (old @ aux))
              else Inl UB)"

definition dataStructureMsg :: "t_data list option \<Rightarrow> string option res" where
  "dataStructureMsg data =
     (case data of None \<Rightarrow> Inr (Some []) | Some d \<Rightarrow> dataMsg_loop d 0 0 None)"

fun stackMsg_loop :: "t_stack list \<Rightarrow> u16 \<Rightarrow> u16 \<Rightarrow> char list \<Rightarrow> char list res" where
  "stackMsg_loop [] offset tmp_size msg = Inr msg"
| "stackMsg_loop (e # es) offset tmp_size msg =
     (let aux = show_nat (unat (linecall e) + 1) @ '','' @ functionName e @ [NL];
          tmp_size' = tmp_size + of_nat (length aux + 1)
      in if unat tmp_size' \<le> length aux + 1 \<and> unat offset \<le> length msg
         then stackMsg_loop es (offset + tmp_size' - 1) tmp_size'
                (take (unat offset) msg @ take (unat tmp_size') (aux @ [NUL]))
         else Inl UB)"

definition stackStructureMsg :: "t_stack list \<Rightarrow> string res" where
  "stackStructureMsg stack =
     (if stack \<noteq> [] then bindE (stackMsg_loop stack 0 0 []) (\<lambda>m. Inr (cstring m)) else Inr [])"

text \<open>\<open>%s\<close> of a null pointer prints \<open>(null)\<close>.\<close>

definition str_or_null :: "string option \<Rightarrow> string" where
  "str_or_null s = (case s of None \<Rightarrow> ''(null)'' | Some t \<Rightarrow> t)"

definition prepareMessage :: "t_ProcessImage \<Rightarrow> string res" where
  "prepareMessage img =
     bindE (dataStructureMsg (piData img)) (\<lambda>dataStructure.
     bindE (stackStructureMsg (piStack img)) (\<lambda>stackStructure.
     let nl = [NL];
         bar = ''------------------------------------------'';
         half = ''-------------------------''
     in Inr (nl @ bar @ nl @ nl @ ''ID='' @ show_int (pid img) @ nl
         @ ''PC='' @ show_int (int (unat (piPC img)) + 1) @ nl @ nl
         @ ''- Estructura de c'' @ [CHR 0xC3, CHR 0xB3] @ ''digo ----'' @ nl
         @ piCode img @ nl @ half @ nl @ nl
         @ ''- Estructura de Datos ----'' @ nl
         @ str_or_null dataStructure @ nl @ half @ nl @ nl
         @ ''- Estructura de Stack ----'' @ nl
         @ stackStructure @ nl @ bar @ nl @ nl)))"

end
