(* ===== verification/PP_STS.thy ===== *)
theory PP_STS
  imports PP_Data C_Queue
begin

text \<open>
  The short-term scheduler of \<open>PP/src/STS.c\<close> and the queue priorities of \<open>PP/src/configure.c\<close>.
  Queues and lists hold addresses of process images (\<open>memory\<close> maps an address to its image, a freed
  one to \<open>None\<close>); a semaphore is its value. \<open>sem_trywait\<close> on 0 fails and leaves it at 0, which is
  what subtraction on \<open>nat\<close> does. The functions here run without interference; \<open>PP_System\<close> puts
  them among the other threads.
\<close>

type_synonym memory = "addr \<Rightarrow> t_ProcessImage option"

definition load_img :: "memory \<Rightarrow> addr \<Rightarrow> t_ProcessImage res" where
  "load_img mem p = (case mem p of None \<Rightarrow> Inl UB | Some i \<Rightarrow> Inr i)"

record t_queuesArray =
  qpriority :: s32
  qname :: string

record t_STSargs =
  LPN :: "addr list"
  LPR :: "addr list"
  LFIO :: "addr list"
  LFQ :: "addr list"
  LPL :: "addr list"
  LPN_empty :: nat
  LPR_empty :: nat
  LFIO_empty :: nat
  LFQ_empty :: nat
  LPL_empty :: nat
  STS_in_empty :: nat
  queuesArray :: "t_queuesArray list"

definition strSwitch :: "string \<Rightarrow> int" where
  "strSwitch alg =
     (if alg = ''FIFO'' then 1
      else if alg = ''RR'' then 2
      else if alg = ''PRI'' then 3
      else if alg = ''SPN'' then 4
      else if alg = ''PLPN'' then 5
      else if alg = ''PLPR'' then 6
      else if alg = ''PLFQ'' then 7
      else if alg = ''PLFIO'' then 8
      else -1)"

section \<open>Emptying the source queues\<close>

text \<open>The semaphore and the queue of a \<open>case\<close> of the switch, and their update.\<close>

definition source_get :: "int \<Rightarrow> t_STSargs \<Rightarrow> nat \<times> addr list" where
  "source_get c s =
     (if c = 5 then (LPN_empty s, LPN s)
      else if c = 6 then (LPR_empty s, LPR s)
      else if c = 7 then (LFQ_empty s, LFQ s)
      else if c = 8 then (LFIO_empty s, LFIO s)
      else (0, []))"

definition source_put :: "int \<Rightarrow> nat \<Rightarrow> addr list \<Rightarrow> t_STSargs \<Rightarrow> t_STSargs" where
  "source_put c n q s =
     (if c = 5 then s\<lparr>LPN_empty := n, LPN := q\<rparr>
      else if c = 6 then s\<lparr>LPR_empty := n, LPR := q\<rparr>
      else if c = 7 then s\<lparr>LFQ_empty := n, LFQ := q\<rparr>
      else if c = 8 then s\<lparr>LFIO_empty := n, LFIO := q\<rparr>
      else s)"

text \<open>Where a process goes: \<open>ordenarFIFO\<close> queues it at once, the others collect it in \<open>prioList\<close>.\<close>

definition push_LPL :: "addr \<Rightarrow> t_STSargs \<Rightarrow> t_STSargs" where
  "push_LPL p s = s\<lparr>LPL := lq_push (LPL s) p, LPL_empty := LPL_empty s + 1\<rparr>"

definition to_LPL :: "addr \<Rightarrow> t_STSargs \<times> addr list \<Rightarrow> t_STSargs \<times> addr list" where
  "to_LPL p = (\<lambda>(s, prioList). (push_LPL p s, prioList))"

definition to_prioList :: "addr \<Rightarrow> t_STSargs \<times> addr list \<Rightarrow> t_STSargs \<times> addr list" where
  "to_prioList p = (\<lambda>(s, prioList). (s, ls_add prioList p))"

text \<open>
  The loop of one case, entered with the semaphore at \<open>n\<close>: it takes the semaphore \<open>n\<close> times. An
  empty queue gives a null pointer, which the log line after the pop follows.
\<close>

primrec drain ::
  "nat \<Rightarrow> memory \<Rightarrow> (addr \<Rightarrow> t_STSargs \<times> addr list \<Rightarrow> t_STSargs \<times> addr list) \<Rightarrow> int
    \<Rightarrow> t_STSargs \<times> addr list \<Rightarrow> (t_STSargs \<times> addr list) res" where
  "drain 0 mem sink c st = Inr st"
| "drain (Suc n) mem sink c st =
     (case st of (s, prioList) \<Rightarrow>
        let s1 = s\<lparr>STS_in_empty := STS_in_empty s - 1\<rparr>;
            (processImg, q) = lq_pop (snd (source_get c s1))
        in case processImg of
             None \<Rightarrow> Inl UB
           | Some p \<Rightarrow> bindE (load_img mem p) (\<lambda>_.
               drain n mem sink c (sink p (source_put c n q s1, prioList))))"

text \<open>The \<open>for\<close> loop over the queues, highest priority first; other names take no case.\<close>

fun drain_all ::
  "memory \<Rightarrow> (addr \<Rightarrow> t_STSargs \<times> addr list \<Rightarrow> t_STSargs \<times> addr list) \<Rightarrow> t_queuesArray list
    \<Rightarrow> t_STSargs \<times> addr list \<Rightarrow> (t_STSargs \<times> addr list) res" where
  "drain_all mem sink [] st = Inr st"
| "drain_all mem sink (qa # qas) st =
     bindE (drain (fst (source_get (strSwitch (qname qa)) (fst st))) mem sink (strSwitch (qname qa)) st)
       (drain_all mem sink qas)"

definition ordenarFIFO :: "memory \<Rightarrow> t_STSargs \<Rightarrow> t_STSargs res" where
  "ordenarFIFO mem s = bindE (drain_all mem to_LPL (queuesArray s) (s, [])) (\<lambda>(s', _). Inr s')"

section \<open>Insertion in order\<close>

text \<open>A loop \<open>while (!flag) \<open>{\<close> flag = true; ... \<open>}\<close>\<close>; the body returns the new flag.\<close>

primrec until_flag :: "nat \<Rightarrow> ('a \<Rightarrow> ('a \<times> bool) res) \<Rightarrow> 'a \<Rightarrow> 'a res" where
  "until_flag 0 body x = Inl NoReturn"
| "until_flag (Suc n) body x =
     bindE (body x) (\<lambda>(x', flag). if flag then Inr x' else until_flag n body x')"

text \<open>
  The first loop of \<open>orderInsertPrioList\<close>, \<open>n\<close> rounds from its end: a failed \<open>sem_trywait\<close> ends
  the loop, but only after the pop of that round. \<open>list_add_in_index\<close> on an empty list does nothing.
\<close>

primrec take_LPL :: "nat \<Rightarrow> addr list \<Rightarrow> t_STSargs \<Rightarrow> (addr list \<times> t_STSargs) res" where
  "take_LPL 0 prioList s = Inr (prioList, s)"
| "take_LPL (Suc n) prioList s =
     (let taken = (LPL_empty s > 0);
          (psImg2, q) = lq_pop (LPL s);
          s' = s\<lparr>LPL_empty := LPL_empty s - 1, LPL := q\<rparr>
      in case psImg2 of
           None \<Rightarrow> Inl UB
         | Some p \<Rightarrow> let prioList' = ls_add_in_index prioList 0 p
             in if taken then take_LPL n prioList' s' else Inr (prioList', s'))"

text \<open>One pass of the sort, from index \<open>i\<close> on.\<close>

definition list_elem :: "addr list \<Rightarrow> int \<Rightarrow> addr res" where
  "list_elem l i = (case ls_get l i of None \<Rightarrow> Inl UB | Some p \<Rightarrow> Inr p)"

function order_pass ::
  "(t_ProcessImage \<Rightarrow> 'k :: linorder) \<Rightarrow> memory \<Rightarrow> int \<Rightarrow> int \<Rightarrow> addr list \<Rightarrow> bool
    \<Rightarrow> (addr list \<times> bool) res" where
  "order_pass key mem ilimit i prioList flag =
     (if i < ilimit then
        bindE (list_elem prioList i) (\<lambda>psImg1.
        bindE (list_elem prioList (i + 1)) (\<lambda>psImg2.
        bindE (load_img mem psImg1) (\<lambda>img1.
        bindE (load_img mem psImg2) (\<lambda>img2.
        if key img1 > key img2 then
          bindE (ls_remove prioList i) (\<lambda>(x, rest).
            case x of
              None \<Rightarrow> Inl UB
            | Some p \<Rightarrow>
                if ilimit - i = 1 then order_pass key mem ilimit (i + 1) (ls_add rest p) False
                else order_pass key mem ilimit (i + 1) (ls_add_in_index rest (i + 1) p) False)
        else order_pass key mem ilimit (i + 1) prioList flag))))
      else Inr (prioList, flag))"
  by pat_completeness auto
termination
  by (relation "measure (\<lambda>(_, _, ilimit, i, _). nat (ilimit - i))") auto

declare order_pass.simps [simp del]

definition order_loop ::
  "nat \<Rightarrow> (t_ProcessImage \<Rightarrow> 'k :: linorder) \<Rightarrow> memory \<Rightarrow> addr list \<Rightarrow> addr list res" where
  "order_loop n key mem prioList =
     until_flag n (\<lambda>l. order_pass key mem (int (length prioList) - 1) 0 l True) prioList"

primrec push_back :: "nat \<Rightarrow> addr list \<Rightarrow> t_STSargs \<Rightarrow> t_STSargs res" where
  "push_back 0 prioList s = Inr s"
| "push_back (Suc n) prioList s =
     bindE (ls_remove prioList 0) (\<lambda>(x, rest).
       case x of None \<Rightarrow> Inl UB | Some p \<Rightarrow> push_back n rest (push_LPL p s))"

definition orderInsertList ::
  "(t_ProcessImage \<Rightarrow> 'k :: linorder) \<Rightarrow> nat \<Rightarrow> memory \<Rightarrow> addr list \<Rightarrow> t_STSargs \<Rightarrow> t_STSargs res" where
  "orderInsertList key n mem prioList s =
     bindE (take_LPL (length (LPL s)) prioList s) (\<lambda>(prioList1, s1).
     bindE (order_loop n key mem prioList1) (\<lambda>prioList2.
     push_back (length prioList2) prioList2 s1))"

definition orderInsertPrioList :: "nat \<Rightarrow> memory \<Rightarrow> addr list \<Rightarrow> t_STSargs \<Rightarrow> t_STSargs res" where
  "orderInsertPrioList = orderInsertList (\<lambda>i. sint (priority i))"

definition orderInsertSPNList :: "nat \<Rightarrow> memory \<Rightarrow> addr list \<Rightarrow> t_STSargs \<Rightarrow> t_STSargs res" where
  "orderInsertSPNList = orderInsertList Tspn"

definition ordenarPRI :: "nat \<Rightarrow> memory \<Rightarrow> t_STSargs \<Rightarrow> t_STSargs res" where
  "ordenarPRI n mem s = bindE (drain_all mem to_prioList (queuesArray s) (s, []))
     (\<lambda>(s', prioList). orderInsertPrioList n mem prioList s')"

definition ordenarSPN :: "nat \<Rightarrow> memory \<Rightarrow> t_STSargs \<Rightarrow> t_STSargs res" where
  "ordenarSPN n mem s = bindE (drain_all mem to_prioList (queuesArray s) (s, []))
     (\<lambda>(s', prioList). orderInsertSPNList n mem prioList s')"

text \<open>
  One round of the thread, once \<open>sem_wait\<close> and \<open>sem_post\<close> on \<open>STS_in_empty\<close> have let it pass;
  \<open>None\<close> is \<open>exit(EXIT_FAILURE)\<close>.
\<close>

definition STS_round :: "nat \<Rightarrow> memory \<Rightarrow> string \<Rightarrow> t_STSargs \<Rightarrow> t_STSargs option res" where
  "STS_round n mem alg s =
     (let c = strSwitch alg in
      if c = 1 \<or> c = 2 then bindE (ordenarFIFO mem s) (\<lambda>s'. Inr (Some s'))
      else if c = 3 then bindE (ordenarPRI n mem s) (\<lambda>s'. Inr (Some s'))
      else if c = 4 then bindE (ordenarSPN n mem s) (\<lambda>s'. Inr (Some s'))
      else Inr None)"

section \<open>Queue priorities\<close>

function reorder_pass :: "nat \<Rightarrow> t_queuesArray list \<Rightarrow> bool \<Rightarrow> (t_queuesArray list \<times> bool) res" where
  "reorder_pass i qs flag =
     (if i < 3 then
        bindE (arr_get qs i) (\<lambda>a.
        bindE (arr_get qs (i + 1)) (\<lambda>b.
        if sint (qpriority a) > sint (qpriority b)
        then reorder_pass (i + 1) (qs[i + 1 := a, i := b]) False
        else reorder_pass (i + 1) qs flag))
      else Inr (qs, flag))"
  by pat_completeness auto
termination
  by (relation "measure (\<lambda>(i, _). 3 - i)") auto

declare reorder_pass.simps [simp del]

definition reorderQueuesArrayPriority :: "nat \<Rightarrow> t_queuesArray list \<Rightarrow> t_queuesArray list res" where
  "reorderQueuesArrayPriority n qs = until_flag n (\<lambda>l. reorder_pass 0 l True) qs"

end
