(* ===== verification/PP_STS_Spec.thy ===== *)
theory PP_STS_Spec
  imports PP_STS
begin

text \<open>
  The contract of the scheduler: the two hand-written bubble sorts deliver the stable sort of their
  input within as many passes as there are elements, and the insertion functions, the FIFO
  transfer and the rounds of the thread have exactly the effect stated here, including where they
  lose processes.
\<close>

section \<open>One pass, and repeated passes\<close>

fun bub :: "('a \<Rightarrow> 'k :: linorder) \<Rightarrow> 'a list \<Rightarrow> 'a list" where
  "bub key (x # y # zs) = (if key x > key y then y # bub key (x # zs) else x # bub key (y # zs))"
| "bub key xs = xs"

lemma length_bub [simp]: "length (bub key xs) = length xs"
  by (induction key xs rule: bub.induct) auto

lemma mset_bub [simp]: "mset (bub key xs) = mset xs"
  by (induction key xs rule: bub.induct) auto

lemma set_bub [simp]: "set (bub key xs) = set xs"
  by (metis mset_bub set_mset_mset)

lemma filter_bub: "filter (\<lambda>x. k = key x) (bub key xs) = filter (\<lambda>x. k = key x) xs"
  by (induction key xs rule: bub.induct) auto

lemma bub_sorted_iff: "bub key xs = xs \<longleftrightarrow> sorted (map key xs)"
proof (induction key xs rule: bub.induct)
  case (1 key x y zs)
  then show ?case by (cases "key x > key y") (auto simp: not_less intro: order_trans)
qed auto

text \<open>A pass moves the maximum to the end, before a suffix that is already in place.\<close>

lemma bub_suffix:
  "xs \<noteq> [] \<Longrightarrow> sorted (map key ys) \<Longrightarrow> (\<forall>x \<in> set xs. \<forall>y \<in> set ys. key x \<le> key y) \<Longrightarrow>
   \<exists>xs' m. bub key (xs @ ys) = xs' @ m # ys \<and> length xs' = length xs - 1
     \<and> insert m (set xs') = set xs \<and> (\<forall>x \<in> set xs'. key x \<le> key m)"
proof (induction "length xs" arbitrary: xs)
  case 0
  then show ?case by simp
next
  case (Suc n)
  then obtain x zs where xs: "xs = x # zs" by (cases xs) auto
  show ?case
  proof (cases zs)
    case Nil
    have "bub key (x # ys) = x # ys"
      using Suc.prems xs by (subst bub_sorted_iff) auto
    then show ?thesis using xs Nil by (intro exI[of _ "[]"] exI[of _ x]) auto
  next
    case (Cons y us)
    define a where "a = (if key x > key y then x else y)"
    define b where "b = (if key x > key y then y else x)"
    have step: "bub key (xs @ ys) = b # bub key ((a # us) @ ys)"
      by (simp add: xs Cons a_def b_def)
    have "\<exists>xs' m. bub key ((a # us) @ ys) = xs' @ m # ys \<and> length xs' = length (a # us) - 1
        \<and> insert m (set xs') = set (a # us) \<and> (\<forall>x \<in> set xs'. key x \<le> key m)"
      using Suc.hyps Suc.prems xs Cons by (intro Suc.hyps(1)) (auto simp: a_def)
    then obtain xs' m where 1: "bub key ((a # us) @ ys) = xs' @ m # ys"
      "length xs' = length us" "insert m (set xs') = set (a # us)" "\<forall>x \<in> set xs'. key x \<le> key m"
      by auto
    have "key b \<le> key a" by (auto simp: a_def b_def)
    moreover have "key a \<le> key m" using 1(3,4) by auto
    moreover have "{a, b} = {x, y}" by (auto simp: a_def b_def)
    ultimately show ?thesis using 1 step xs Cons
      by (intro exI[of _ "b # xs'"] exI[of _ m]) auto
  qed
qed

text \<open>After \<open>k\<close> passes the last \<open>k\<close> elements are in place.\<close>

lemma bub_iter:
  "k \<le> length xs \<Longrightarrow> \<exists>us vs. (bub key ^^ k) xs = us @ vs \<and> length vs = k
     \<and> sorted (map key vs) \<and> (\<forall>u \<in> set us. \<forall>v \<in> set vs. key u \<le> key v)"
proof (induction k)
  case 0
  then show ?case by simp
next
  case (Suc k)
  then obtain us vs where 1: "(bub key ^^ k) xs = us @ vs" "length vs = k" "sorted (map key vs)"
    "\<forall>u \<in> set us. \<forall>v \<in> set vs. key u \<le> key v" by auto
  have "length ((bub key ^^ k) xs) = length xs" by (induction k) auto
  then have "us \<noteq> []" using 1 Suc.prems by auto
  from bub_suffix[OF this 1(3,4)] obtain us' m where
    2: "bub key (us @ vs) = us' @ m # vs" "insert m (set us') = set us" "\<forall>x \<in> set us'. key x \<le> key m"
    by blast
  have "m \<in> set us" using 2(2) by blast
  then show ?case using 1 2
    by (intro exI[of _ us'] exI[of _ "m # vs"]) auto
qed

lemma mset_bub_iter: "mset ((bub key ^^ k) xs) = mset xs"
  by (induction k) auto

lemma filter_bub_iter: "filter (\<lambda>x. v = key x) ((bub key ^^ k) xs) = filter (\<lambda>x. v = key x) xs"
  by (induction k) (auto simp: filter_bub)

lemma bub_iter_sort:
  assumes "sorted (map key ((bub key ^^ k) xs))"
  shows "(bub key ^^ k) xs = sort_key key xs"
  by (rule properties_for_sort_key[symmetric])
    (use assms in \<open>auto simp: mset_bub_iter filter_bub_iter\<close>)

lemma bub_iter_length: "length xs \<le> Suc k \<Longrightarrow> sorted (map key ((bub key ^^ k) xs))"
proof (cases "xs = []")
  case True
  then have "(bub key ^^ k) xs = []" using mset_bub_iter[of k key xs] by simp
  then show ?thesis by simp
next
  case False
  assume le: "length xs \<le> Suc k"
  define n where "n = length xs - 1"
  have "n \<le> length xs" by (simp add: n_def)
  from bub_iter[OF this, of key] obtain us vs where
    1: "(bub key ^^ n) xs = us @ vs" "length vs = n" "sorted (map key vs)"
      "\<forall>u \<in> set us. \<forall>v \<in> set vs. key u \<le> key v" by auto
  have "length ((bub key ^^ n) xs) = length xs" by (rule mset_eq_length) (rule mset_bub_iter)
  with 1(1,2) False have "length us = 1" by (cases xs) (auto simp: n_def)
  then obtain u where "us = [u]" by (cases us) auto
  with 1 have srt: "sorted (map key ((bub key ^^ n) xs))" by auto
  have "(bub key ^^ j) ((bub key ^^ n) xs) = (bub key ^^ n) xs" for j
    using srt by (induction j) (auto simp: bub_sorted_iff)
  then have "(bub key ^^ ((k - n) + n)) xs = (bub key ^^ n) xs" by (simp only: funpow_add comp_apply)
  moreover have "k - n + n = k" using le by (simp add: n_def)
  ultimately show ?thesis using srt by simp
qed

section \<open>The interface of a bubble sort\<close>

text \<open>A pass swaps as \<open>bub\<close> does and clears the flag when it swapped something.\<close>

locale bubble_sort =
  fixes key :: "'a \<Rightarrow> 'k :: linorder"
    and ok :: "'a list \<Rightarrow> bool"
    and pass :: "'a list \<Rightarrow> ('a list \<times> bool) res"
  assumes pass_bub: "ok xs \<Longrightarrow> pass xs = Inr (bub key xs, sorted (map key xs))"
    and ok_bub: "ok xs \<Longrightarrow> ok (bub key xs)"
begin

lemma until_flag_from:
  "ok ((bub key ^^ k) xs) \<Longrightarrow> length xs \<le> k + n \<Longrightarrow> 0 < n
    \<Longrightarrow> until_flag n pass ((bub key ^^ k) xs) = Inr (sort_key key xs)"
proof (induction n arbitrary: k)
  case 0
  then show ?case by simp
next
  case (Suc n)
  show ?case
  proof (cases "sorted (map key ((bub key ^^ k) xs))")
    case True
    then have "bub key ((bub key ^^ k) xs) = (bub key ^^ k) xs" by (simp only: bub_sorted_iff)
    then show ?thesis using True Suc.prems(1) bub_iter_sort[OF True] by (simp add: pass_bub)
  next
    case False
    with bub_iter_length[of xs k key] Suc.prems(2) have "0 < n" by (cases n) auto
    moreover have "ok ((bub key ^^ Suc k) xs)" using Suc.prems(1) by (simp add: ok_bub)
    ultimately have "until_flag n pass ((bub key ^^ Suc k) xs) = Inr (sort_key key xs)"
      using Suc.prems(2) by (intro Suc.IH) auto
    then show ?thesis using False Suc.prems(1) by (simp add: pass_bub)
  qed
qed

lemma sorts: "ok xs \<Longrightarrow> length xs \<le> n \<Longrightarrow> 0 < n \<Longrightarrow> until_flag n pass xs = Inr (sort_key key xs)"
  using until_flag_from[of 0 xs n] by simp

end

section \<open>The sort of the ready queue\<close>

definition live :: "memory \<Rightarrow> addr list \<Rightarrow> bool" where
  "live mem ps \<longleftrightarrow> (\<forall>p \<in> set ps. mem p \<noteq> None)"

definition key_at :: "(t_ProcessImage \<Rightarrow> 'k) \<Rightarrow> memory \<Rightarrow> addr \<Rightarrow> 'k" where
  "key_at key mem p = key (the (mem p))"

lemma live_append [simp]: "live mem (ps @ qs) \<longleftrightarrow> live mem ps \<and> live mem qs"
  by (auto simp: live_def)

lemma live_Cons [simp]: "live mem (p # ps) \<longleftrightarrow> mem p \<noteq> None \<and> live mem ps"
  by (auto simp: live_def)

lemma live_Nil [simp]: "live mem []"
  by (simp add: live_def)

lemma live_rev [simp]: "live mem (rev ps) = live mem ps"
  by (simp add: live_def)

lemma load_img_key: "mem p \<noteq> None \<Longrightarrow> load_img mem p = Inr (the (mem p))"
  by (auto simp: load_img_def)

lemma order_pass_from:
  "live mem (ps @ qs) \<Longrightarrow> qs \<noteq> [] \<Longrightarrow>
   order_pass key mem (int (length (ps @ qs)) - 1) (int (length ps)) (ps @ qs) flag
     = Inr (ps @ bub (key_at key mem) qs, flag \<and> sorted (map (key_at key mem) qs))"
proof (induction "length qs" arbitrary: ps qs flag)
  case 0
  then show ?case by simp
next
  case (Suc n)
  then obtain x qs' where qs: "qs = x # qs'" by (cases qs) auto
  show ?case
  proof (cases qs')
    case Nil
    then show ?thesis using qs by (subst order_pass.simps) simp
  next
    case (Cons y zs)
    define lim where "lim = int (length (ps @ qs)) - 1"
    let ?k = "key_at key mem"
    have at: "list_elem (ps @ qs) (int (length ps)) = Inr x"
      "list_elem (ps @ qs) (int (length ps) + 1) = Inr y"
      by (auto simp: list_elem_def ls_get_def qs Cons nth_append)
    have ld: "load_img mem x = Inr (the (mem x))" "load_img mem y = Inr (the (mem y))"
      using Suc.prems qs Cons by (auto intro!: load_img_key)
    have lt: "int (length ps) < lim" using qs Cons by (simp add: lim_def)
    have nxt: "int (length (ps @ [z])) = int (length ps) + 1" for z by simp
    show ?thesis
    proof (cases "?k x > ?k y")
      case True
      let ?new = "(ps @ [y]) @ x # zs"
      have rm: "ls_remove (ps @ qs) (int (length ps)) = Inr (Some x, ps @ y # zs)"
        by (simp add: ls_remove_def qs Cons nth_append)
      have ins: "lim - int (length ps) = 1 \<Longrightarrow> ls_add (ps @ y # zs) x = ?new"
        "lim - int (length ps) \<noteq> 1 \<Longrightarrow> ls_add_in_index (ps @ y # zs) (int (length ps) + 1) x = ?new"
        by (cases zs; simp add: lim_def qs Cons ls_add_def ls_add_in_index_def nat_add_distrib)+
      have "order_pass key mem lim (int (length ps)) (ps @ qs) flag
          = order_pass key mem lim (int (length ps) + 1) ?new False"
        using True lt by (subst order_pass.simps) (simp add: at ld rm ins key_at_def)
      also have "\<dots> = order_pass key mem (int (length ?new) - 1) (int (length (ps @ [y]))) ?new False"
        by (simp only: nxt) (simp add: lim_def qs Cons)
      also have "\<dots> = Inr ((ps @ [y]) @ bub ?k (x # zs), False \<and> sorted (map ?k (x # zs)))"
        using Suc qs Cons by (intro Suc.hyps(1)) auto
      finally show ?thesis using True qs Cons by (auto simp: lim_def)
    next
      case False
      let ?new = "(ps @ [x]) @ y # zs"
      have "order_pass key mem lim (int (length ps)) (ps @ qs) flag
          = order_pass key mem lim (int (length ps) + 1) (ps @ qs) flag"
        using False lt by (subst order_pass.simps) (simp add: at ld key_at_def)
      also have "\<dots> = order_pass key mem (int (length ?new) - 1) (int (length (ps @ [x]))) ?new flag"
        by (simp only: nxt) (simp add: lim_def qs Cons)
      also have "\<dots> = Inr ((ps @ [x]) @ bub ?k (y # zs), flag \<and> sorted (map ?k (y # zs)))"
        using Suc qs Cons by (intro Suc.hyps(1)) auto
      finally show ?thesis using False qs Cons by (auto simp: lim_def intro: order_trans)
    qed
  qed
qed

lemma order_pass_bub:
  assumes "live mem ps" and "length ps = n"
  shows "order_pass key mem (int n - 1) 0 ps True
    = Inr (bub (key_at key mem) ps, sorted (map (key_at key mem) ps))"
proof (cases "ps = []")
  case True
  then show ?thesis using assms by (subst order_pass.simps) auto
next
  case False
  then show ?thesis using order_pass_from[of mem "[]" ps key True] assms by simp
qed

interpretation ready: bubble_sort "key_at key mem" "\<lambda>ps. live mem ps \<and> length ps = n"
    "\<lambda>l. order_pass key mem (int n - 1) 0 l True" for key mem n
  by unfold_locales (auto simp: order_pass_bub live_def)

lemma order_loop_sorts:
  "live mem ps \<Longrightarrow> length ps \<le> n \<Longrightarrow> 0 < n \<Longrightarrow>
   order_loop n key mem ps = Inr (sort_key (key_at key mem) ps)"
  unfolding order_loop_def by (rule ready.sorts) auto

section \<open>Insertion\<close>

text \<open>How many processes the first loop takes, with the semaphore at \<open>k\<close> and \<open>n\<close> in the queue.\<close>

definition taken :: "nat \<Rightarrow> nat \<Rightarrow> nat" where
  "taken k n = min (k + 1) n"

lemma take_LPL_spec:
  "n \<le> length (LPL s) \<Longrightarrow>
   take_LPL n ps s =
     (let m = taken (LPL_empty s) n
      in Inr (if ps = [] then [] else rev (take m (LPL s)) @ ps,
              s\<lparr>LPL_empty := LPL_empty s - m, LPL := drop m (LPL s)\<rparr>))"
proof (induction n arbitrary: ps s)
  case 0
  then show ?case by (simp add: taken_def)
next
  case (Suc n)
  then obtain x q where q: "LPL s = x # q" by (cases "LPL s") auto
  have ins: "ls_add_in_index ps 0 x = (if ps = [] then [] else x # ps)"
    by (simp add: ls_add_in_index_def)
  show ?case
  proof (cases "LPL_empty s = 0")
    case True
    then show ?thesis using q by (simp add: ins taken_def)
  next
    case False
    define s' where "s' = s\<lparr>LPL_empty := LPL_empty s - 1, LPL := q\<rparr>"
    have m: "taken (LPL_empty s) (Suc n) = Suc (taken (LPL_empty s') n)"
      using False by (simp add: s'_def taken_def)
    have "take_LPL (Suc n) ps s = take_LPL n (if ps = [] then [] else x # ps) s'"
      using False q by (simp add: ins s'_def)
    also have "\<dots> = Inr (if ps = [] then [] else rev (take (taken (LPL_empty s') n) q) @ x # ps,
        s'\<lparr>LPL_empty := LPL_empty s' - taken (LPL_empty s') n, LPL := drop (taken (LPL_empty s') n) q\<rparr>)"
      using Suc.prems q by (subst Suc.IH) (auto simp: s'_def Let_def)
    finally show ?thesis using q by (simp add: m Let_def) (simp add: s'_def)
  qed
qed

lemma push_back_spec:
  "push_back (length ps) ps s = Inr (s\<lparr>LPL := LPL s @ ps, LPL_empty := LPL_empty s + length ps\<rparr>)"
  by (induction ps arbitrary: s) (auto simp: push_LPL_def)

lemma orderInsertList_spec:
  assumes "live mem (LPL s)" and "live mem ps" and "length (LPL s) + length ps \<le> n" and "0 < n"
    and "m = taken (LPL_empty s) (length (LPL s))"
    and "new = (if ps = [] then [] else sort_key (key_at key mem) (rev (take m (LPL s)) @ ps))"
  shows "orderInsertList key n mem ps s =
    Inr (s\<lparr>LPL := drop m (LPL s) @ new, LPL_empty := (LPL_empty s - m) + length new\<rparr>)"
proof -
  define ps1 where "ps1 = (if ps = [] then [] else rev (take m (LPL s)) @ ps)"
  have lv: "live mem ps1" using assms(1,2) by (auto simp: ps1_def live_def dest: in_set_takeD)
  have len: "length ps1 \<le> n" using assms(3) by (auto simp: ps1_def min_def)
  have "take_LPL (length (LPL s)) ps s =
      Inr (ps1, s\<lparr>LPL_empty := LPL_empty s - m, LPL := drop m (LPL s)\<rparr>)"
    using assms(5) by (subst take_LPL_spec) (simp_all add: Let_def ps1_def)
  moreover have "order_loop n key mem ps1 = Inr new"
    using order_loop_sorts[OF lv len assms(4), of key] assms(6) by (simp add: ps1_def)
  ultimately show ?thesis
    unfolding orderInsertList_def by (simp add: push_back_spec)
qed

lemma length_sorted_insert:
  "ps \<noteq> [] \<Longrightarrow> length (sort_key f (rev (take m q) @ ps)) = min (length q) m + length ps"
  by simp

text \<open>With every queued process announced, all of them are taken.\<close>

lemma taken_all: "n \<le> k + 1 \<Longrightarrow> taken k n = n"
  by (simp add: taken_def)

section \<open>The source queues\<close>

abbreviation source_sem :: "int \<Rightarrow> t_STSargs \<Rightarrow> nat" where
  "source_sem c s \<equiv> fst (source_get c s)"

abbreviation source_queue :: "int \<Rightarrow> t_STSargs \<Rightarrow> addr list" where
  "source_queue c s \<equiv> snd (source_get c s)"

lemma source_get_put [simp]:
  "source_get c (source_put d n q s) =
     (if c = d \<and> c \<in> {5, 6, 7, 8} then (n, q) else source_get c s)"
  by (auto simp: source_get_def source_put_def)

lemma source_put_put [simp]: "source_put c n q (source_put c n' q' s) = source_put c n q s"
  by (simp add: source_put_def)

lemma source_put_commute:
  "source_put c n q (s\<lparr>STS_in_empty := k\<rparr>) = (source_put c n q s)\<lparr>STS_in_empty := k\<rparr>"
  "source_put c n q (s\<lparr>LPL := l, LPL_empty := e\<rparr>) = (source_put c n q s)\<lparr>LPL := l, LPL_empty := e\<rparr>"
  by (simp_all add: source_put_def)

lemma source_put_other [simp]:
  "STS_in_empty (source_put c n q s) = STS_in_empty s" "LPL (source_put c n q s) = LPL s"
  "LPL_empty (source_put c n q s) = LPL_empty s" "queuesArray (source_put c n q s) = queuesArray s"
  by (simp_all add: source_put_def)

lemma source_get_other [simp]:
  "source_get c (s\<lparr>STS_in_empty := k\<rparr>) = source_get c s"
  "source_get c (s\<lparr>LPL := l, LPL_empty := e\<rparr>) = source_get c s"
  by (simp_all add: source_get_def)

lemma source_put_self: "source_get c s = (n, q) \<Longrightarrow> source_put c n q s = s"
  by (auto simp: source_get_def source_put_def split: if_splits)

lemma drain_to_LPL:
  "c \<in> {5, 6, 7, 8} \<Longrightarrow> source_get c s = (length ps, ps) \<Longrightarrow> live mem ps \<Longrightarrow>
   drain (length ps) mem to_LPL c (s, pl) =
     Inr (source_put c 0 [] (s\<lparr>LPL := LPL s @ ps, LPL_empty := LPL_empty s + length ps,
       STS_in_empty := STS_in_empty s - length ps\<rparr>), pl)"
proof (induction ps arbitrary: s)
  case Nil
  then have "source_put c 0 [] s = s" by (simp add: source_put_self)
  then show ?case by simp
next
  case (Cons p ps)
  define s1 where "s1 = push_LPL p (source_put c (length ps) ps
    (s\<lparr>STS_in_empty := STS_in_empty s - 1\<rparr>))"
  have g: "source_get c s1 = (length ps, ps)"
    using Cons.prems(1) by (simp add: s1_def push_LPL_def)
  have "drain (length (p # ps)) mem to_LPL c (s, pl) = drain (length ps) mem to_LPL c (s1, pl)"
    using Cons.prems by (simp add: to_LPL_def s1_def load_img_key)
  also have "\<dots> = Inr (source_put c 0 [] (s1\<lparr>LPL := LPL s1 @ ps,
      LPL_empty := LPL_empty s1 + length ps, STS_in_empty := STS_in_empty s1 - length ps\<rparr>), pl)"
    using Cons.prems g by (intro Cons.IH) auto
  also have "source_put c 0 [] (s1\<lparr>LPL := LPL s1 @ ps, LPL_empty := LPL_empty s1 + length ps,
      STS_in_empty := STS_in_empty s1 - length ps\<rparr>)
    = source_put c 0 [] (s\<lparr>LPL := LPL s @ p # ps, LPL_empty := LPL_empty s + length (p # ps),
      STS_in_empty := STS_in_empty s - length (p # ps)\<rparr>)"
    by (simp add: s1_def push_LPL_def source_put_def)
  finally show ?case .
qed

lemma drain_to_prioList:
  "c \<in> {5, 6, 7, 8} \<Longrightarrow> source_get c s = (length ps, ps) \<Longrightarrow> live mem ps \<Longrightarrow>
   drain (length ps) mem to_prioList c (s, pl) =
     Inr (source_put c 0 [] (s\<lparr>STS_in_empty := STS_in_empty s - length ps\<rparr>), pl @ ps)"
proof (induction ps arbitrary: s pl)
  case Nil
  then have "source_put c 0 [] s = s" by (simp add: source_put_self)
  then show ?case by simp
next
  case (Cons p ps)
  define s1 where "s1 = source_put c (length ps) ps (s\<lparr>STS_in_empty := STS_in_empty s - 1\<rparr>)"
  have g: "source_get c s1 = (length ps, ps)"
    using Cons.prems(1) by (simp add: s1_def)
  have "drain (length (p # ps)) mem to_prioList c (s, pl)
      = drain (length ps) mem to_prioList c (s1, pl @ [p])"
    using Cons.prems by (simp add: to_prioList_def s1_def load_img_key ls_add_def)
  also have "\<dots> = Inr (source_put c 0 []
      (s1\<lparr>STS_in_empty := STS_in_empty s1 - length ps\<rparr>), (pl @ [p]) @ ps)"
    using Cons.prems g by (intro Cons.IH) auto
  also have "source_put c 0 [] (s1\<lparr>STS_in_empty := STS_in_empty s1 - length ps\<rparr>)
    = source_put c 0 [] (s\<lparr>STS_in_empty := STS_in_empty s - length (p # ps)\<rparr>)"
    by (simp add: s1_def source_put_def)
  finally show ?case by simp
qed

text \<open>A state of the scheduler at rest: every queued process is live and announced.\<close>

definition announced :: "memory \<Rightarrow> t_STSargs \<Rightarrow> bool" where
  "announced mem s \<longleftrightarrow> (\<forall>c \<in> {5, 6, 7, 8}. source_sem c s = length (source_queue c s)
     \<and> live mem (source_queue c s))"

definition cases_of :: "t_queuesArray list \<Rightarrow> int list" where
  "cases_of qas = map (\<lambda>qa. strSwitch (qname qa)) qas"

text \<open>The four names, in some order.\<close>

definition four_queues :: "t_queuesArray list \<Rightarrow> bool" where
  "four_queues qas \<longleftrightarrow> mset (map qname qas) = {#''PLPN'', ''PLPR'', ''PLFQ'', ''PLFIO''#}"

definition waiting :: "int list \<Rightarrow> t_STSargs \<Rightarrow> addr list" where
  "waiting cs s = concat (map (\<lambda>c. source_queue c s) cs)"

definition clear_sources :: "int list \<Rightarrow> t_STSargs \<Rightarrow> t_STSargs" where
  "clear_sources cs s = fold (\<lambda>c. source_put c 0 []) cs s"

lemma waiting_cong:
  "(\<And>c. c \<in> set cs \<Longrightarrow> source_queue c s = source_queue c s') \<Longrightarrow> waiting cs s = waiting cs s'"
  unfolding waiting_def by (metis (mono_tags, lifting) map_eq_conv)

lemma clear_sources_Cons: "clear_sources (c # cs) s = clear_sources cs (source_put c 0 [] s)"
  by (simp add: clear_sources_def)

lemma clear_sources_eq:
  "clear_sources cs s = s\<lparr>
     LPN := (if 5 \<in> set cs then [] else LPN s), LPN_empty := (if 5 \<in> set cs then 0 else LPN_empty s),
     LPR := (if 6 \<in> set cs then [] else LPR s), LPR_empty := (if 6 \<in> set cs then 0 else LPR_empty s),
     LFQ := (if 7 \<in> set cs then [] else LFQ s), LFQ_empty := (if 7 \<in> set cs then 0 else LFQ_empty s),
     LFIO := (if 8 \<in> set cs then [] else LFIO s), LFIO_empty := (if 8 \<in> set cs then 0 else LFIO_empty s)\<rparr>"
  by (induction cs arbitrary: s) (simp_all add: clear_sources_Cons source_put_def, simp add: clear_sources_def)

lemma drain_all_to_LPL:
  "distinct (cases_of qas) \<Longrightarrow> set (cases_of qas) \<subseteq> {5, 6, 7, 8} \<Longrightarrow>
   (\<forall>c \<in> set (cases_of qas). source_sem c s = length (source_queue c s) \<and> live mem (source_queue c s)) \<Longrightarrow>
   drain_all mem to_LPL qas (s, pl) =
     (let w = waiting (cases_of qas) s
      in Inr (clear_sources (cases_of qas) (s\<lparr>LPL := LPL s @ w, LPL_empty := LPL_empty s + length w,
           STS_in_empty := STS_in_empty s - length w\<rparr>), pl))"
proof (induction qas arbitrary: s)
  case Nil
  then show ?case by (simp add: waiting_def cases_of_def clear_sources_def)
next
  case (Cons qa qas)
  let ?c = "strSwitch (qname qa)" and ?cs = "cases_of qas"
  define q where "q = source_queue ?c s"
  have c: "?c \<in> {5, 6, 7, 8}" "?c \<notin> set ?cs" "distinct ?cs" "set ?cs \<subseteq> {5, 6, 7, 8}"
    and sem: "source_get ?c s = (length q, q)" and lv: "live mem q"
    using Cons.prems by (auto simp: cases_of_def q_def prod_eq_iff)
  define s1 where "s1 = source_put ?c 0 [] (s\<lparr>LPL := LPL s @ q, LPL_empty := LPL_empty s + length q,
    STS_in_empty := STS_in_empty s - length q\<rparr>)"
  have same: "source_get d s1 = source_get d s" if "d \<in> set ?cs" for d
    using that c(2) by (auto simp: s1_def)
  have w: "waiting ?cs s1 = waiting ?cs s"
    by (rule waiting_cong) (simp add: same)
  have "drain_all mem to_LPL (qa # qas) (s, pl) = drain_all mem to_LPL qas (s1, pl)"
    using drain_to_LPL[OF c(1) sem lv, of pl] sem by (simp add: s1_def)
  also have "\<dots> = (let w = waiting ?cs s1
      in Inr (clear_sources ?cs (s1\<lparr>LPL := LPL s1 @ w, LPL_empty := LPL_empty s1 + length w,
           STS_in_empty := STS_in_empty s1 - length w\<rparr>), pl))"
    using Cons.prems(3) c same by (intro Cons.IH) (auto simp: cases_of_def)
  finally have res: "drain_all mem to_LPL (qa # qas) (s, pl) = \<dots>" .
  have cs: "cases_of (qa # qas) = ?c # ?cs" "waiting (?c # ?cs) s = q @ waiting ?cs s"
    by (simp_all add: cases_of_def waiting_def q_def)
  have st: "s1\<lparr>LPL := LPL s1 @ v, LPL_empty := LPL_empty s1 + length v, STS_in_empty := STS_in_empty s1 - length v\<rparr>
    = source_put ?c 0 [] (s\<lparr>LPL := LPL s @ q @ v, LPL_empty := LPL_empty s + length (q @ v),
        STS_in_empty := STS_in_empty s - length (q @ v)\<rparr>)" for v
    by (simp add: s1_def source_put_def)
  show ?case by (simp only: res Let_def st cs w clear_sources_Cons)
qed

lemma drain_all_to_prioList:
  "distinct (cases_of qas) \<Longrightarrow> set (cases_of qas) \<subseteq> {5, 6, 7, 8} \<Longrightarrow>
   (\<forall>c \<in> set (cases_of qas). source_sem c s = length (source_queue c s) \<and> live mem (source_queue c s)) \<Longrightarrow>
   drain_all mem to_prioList qas (s, pl) =
     (let w = waiting (cases_of qas) s
      in Inr (clear_sources (cases_of qas) (s\<lparr>STS_in_empty := STS_in_empty s - length w\<rparr>), pl @ w))"
proof (induction qas arbitrary: s pl)
  case Nil
  then show ?case by (simp add: waiting_def cases_of_def clear_sources_def)
next
  case (Cons qa qas)
  let ?c = "strSwitch (qname qa)" and ?cs = "cases_of qas"
  define q where "q = source_queue ?c s"
  have c: "?c \<in> {5, 6, 7, 8}" "?c \<notin> set ?cs" "distinct ?cs" "set ?cs \<subseteq> {5, 6, 7, 8}"
    and sem: "source_get ?c s = (length q, q)" and lv: "live mem q"
    using Cons.prems by (auto simp: cases_of_def q_def prod_eq_iff)
  define s1 where "s1 = source_put ?c 0 [] (s\<lparr>STS_in_empty := STS_in_empty s - length q\<rparr>)"
  have same: "source_get d s1 = source_get d s" if "d \<in> set ?cs" for d
    using that c(2) by (auto simp: s1_def)
  have w: "waiting ?cs s1 = waiting ?cs s"
    by (rule waiting_cong) (simp add: same)
  have "drain_all mem to_prioList (qa # qas) (s, pl) = drain_all mem to_prioList qas (s1, pl @ q)"
    using drain_to_prioList[OF c(1) sem lv, of pl] sem by (simp add: s1_def)
  also have "\<dots> = (let w = waiting ?cs s1
      in Inr (clear_sources ?cs (s1\<lparr>STS_in_empty := STS_in_empty s1 - length w\<rparr>), (pl @ q) @ w))"
    using Cons.prems(3) c same by (intro Cons.IH) (auto simp: cases_of_def)
  finally have res: "drain_all mem to_prioList (qa # qas) (s, pl) = \<dots>" .
  have cs: "cases_of (qa # qas) = ?c # ?cs" "waiting (?c # ?cs) s = q @ waiting ?cs s"
    by (simp_all add: cases_of_def waiting_def q_def)
  have st: "s1\<lparr>STS_in_empty := STS_in_empty s1 - length v\<rparr>
    = source_put ?c 0 [] (s\<lparr>STS_in_empty := STS_in_empty s - length (q @ v)\<rparr>)" for v
    by (simp add: s1_def source_put_def)
  show ?case by (simp only: res Let_def st cs w clear_sources_Cons append_assoc)
qed

section \<open>Rounds of the scheduler\<close>

definition emptied :: "t_STSargs \<Rightarrow> t_STSargs" where
  "emptied s = s\<lparr>LPN := [], LPR := [], LFQ := [], LFIO := [],
     LPN_empty := 0, LPR_empty := 0, LFQ_empty := 0, LFIO_empty := 0\<rparr>"

abbreviation all_waiting :: "t_STSargs \<Rightarrow> addr list" where
  "all_waiting s \<equiv> waiting (cases_of (queuesArray s)) s"

lemma mset_cases_of: "four_queues qas \<Longrightarrow> mset (cases_of qas) = {#5, 6, 7, 8#}"
proof -
  assume "four_queues qas"
  then have "image_mset strSwitch (mset (map qname qas))
      = image_mset strSwitch {#''PLPN'', ''PLPR'', ''PLFQ'', ''PLFIO''#}"
    by (simp only: four_queues_def)
  moreover have "mset (cases_of qas) = image_mset strSwitch (mset (map qname qas))"
    by (simp add: cases_of_def image_mset.compositionality comp_def)
  ultimately show ?thesis by (simp add: strSwitch_def)
qed

lemma four_cases:
  assumes "four_queues qas"
  shows "distinct (cases_of qas)" and "set (cases_of qas) = {5, 6, 7, 8}"
proof -
  have m: "mset (cases_of qas) = mset [5, 6, 7, 8 :: int]"
    using mset_cases_of[OF assms] by simp
  show "set (cases_of qas) = {5, 6, 7, 8}" using mset_eq_setD[OF m] by simp
  show "distinct (cases_of qas)" using mset_eq_imp_distinct_iff[OF m] by simp
qed

lemma clear_sources_four: "four_queues qas \<Longrightarrow> clear_sources (cases_of qas) s = emptied s"
  by (simp add: clear_sources_eq four_cases(2) emptied_def)

lemma live_waiting: "announced mem s \<Longrightarrow> set cs \<subseteq> {5, 6, 7, 8} \<Longrightarrow> live mem (waiting cs s)"
  by (fastforce simp: waiting_def live_def announced_def)

lemma drain_ready:
  assumes "announced mem s" and "four_queues (queuesArray s)"
  defines "w \<equiv> all_waiting s"
  shows "drain_all mem to_LPL (queuesArray s) (s, pl) =
      Inr ((emptied s)\<lparr>LPL := LPL s @ w, LPL_empty := LPL_empty s + length w,
        STS_in_empty := STS_in_empty s - length w\<rparr>, pl)"
    and "drain_all mem to_prioList (queuesArray s) (s, pl) =
      Inr ((emptied s)\<lparr>STS_in_empty := STS_in_empty s - length w\<rparr>, pl @ w)"
  using assms(1) four_cases[OF assms(2)]
  by (simp_all add: drain_all_to_LPL drain_all_to_prioList announced_def w_def Let_def
      clear_sources_four[OF assms(2)] emptied_def)

lemma ordenarFIFO_spec:
  assumes "announced mem s" and "four_queues (queuesArray s)"
  shows "ordenarFIFO mem s = Inr ((emptied s)\<lparr>LPL := LPL s @ all_waiting s,
     LPL_empty := LPL_empty s + length (all_waiting s),
     STS_in_empty := STS_in_empty s - length (all_waiting s)\<rparr>)"
  using drain_ready(1)[OF assms] by (simp add: ordenarFIFO_def)

lemma ordenar_sorted_spec:
  assumes "announced mem s" and "four_queues (queuesArray s)" and "live mem (LPL s)"
    and "length (LPL s) \<le> LPL_empty s + 1" and "all_waiting s \<noteq> []"
    and "length (LPL s) + length (all_waiting s) \<le> n"
  shows "bindE (drain_all mem to_prioList (queuesArray s) (s, []))
       (\<lambda>(s', prioList). orderInsertList key n mem prioList s') =
     Inr ((emptied s)\<lparr>LPL := sort_key (key_at key mem) (rev (LPL s) @ all_waiting s),
       LPL_empty := (LPL_empty s - length (LPL s)) + (length (LPL s) + length (all_waiting s)),
       STS_in_empty := STS_in_empty s - length (all_waiting s)\<rparr>)"
proof -
  let ?w = "all_waiting s" and ?s = "(emptied s)\<lparr>STS_in_empty := STS_in_empty s - length (all_waiting s)\<rparr>"
  have n: "0 < n" using assms(5,6) by (cases "all_waiting s") auto
  have lw: "live mem ?w"
    using live_waiting[OF assms(1)] four_cases(2)[OF assms(2)] by simp
  have "orderInsertList key n mem ?w ?s = Inr (?s\<lparr>LPL := drop (length (LPL ?s)) (LPL ?s)
      @ sort_key (key_at key mem) (rev (take (length (LPL ?s)) (LPL ?s)) @ ?w),
      LPL_empty := (LPL_empty ?s - length (LPL ?s))
        + length (sort_key (key_at key mem) (rev (take (length (LPL ?s)) (LPL ?s)) @ ?w))\<rparr>)"
    using assms(3-6) lw n
    by (intro orderInsertList_spec) (auto simp: emptied_def taken_all)
  then show ?thesis using drain_ready(2)[OF assms(1,2), of "[]"]
    by (simp add: emptied_def)
qed

lemmas ordenarPRI_spec = ordenar_sorted_spec[where key = "\<lambda>i. sint (priority i)",
    folded orderInsertPrioList_def, folded ordenarPRI_def]

lemmas ordenarSPN_spec = ordenar_sorted_spec[where key = Tspn,
    folded orderInsertSPNList_def, folded ordenarSPN_def]

section \<open>Queue priorities\<close>

lemma reorder_pass_bub:
  assumes "length qs = 4"
  shows "reorder_pass 0 qs True =
    Inr (bub (\<lambda>q. sint (qpriority q)) qs, sorted (map (\<lambda>q. sint (qpriority q)) qs))"
proof -
  from assms obtain a b c d where qs: "qs = [a, b, c, d]"
    by (auto simp: numeral_eq_Suc length_Suc_conv)
  have p3: "reorder_pass (Suc (Suc (Suc 0))) xs f = Inr (xs, f)" for xs f by (subst reorder_pass.simps) simp
  have p2: "reorder_pass 2 [w, x, y, z] f = (if sint (qpriority y) > sint (qpriority z)
      then Inr ([w, x, z, y], False) else Inr ([w, x, y, z], f))" for w x y z f
    by (subst reorder_pass.simps) (simp add: p3 arr_get_def numeral_eq_Suc)
  have p1: "reorder_pass 1 [w, x, y, z] f = (if sint (qpriority x) > sint (qpriority y)
      then reorder_pass 2 [w, y, x, z] False else reorder_pass 2 [w, x, y, z] f)" for w x y z f
    by (subst reorder_pass.simps) (simp add: arr_get_def numeral_eq_Suc)
  have p0: "reorder_pass 0 [w, x, y, z] f = (if sint (qpriority w) > sint (qpriority x)
      then reorder_pass 1 [x, w, y, z] False else reorder_pass 1 [w, x, y, z] f)" for w x y z f
    by (subst reorder_pass.simps) (simp add: arr_get_def numeral_eq_Suc)
  show ?thesis unfolding qs p0 p1 p2 by auto
qed

interpretation prios: bubble_sort "\<lambda>q. sint (qpriority q)" "\<lambda>qs. length qs = 4"
    "\<lambda>l. reorder_pass 0 l True"
  by unfold_locales (simp_all add: reorder_pass_bub)

lemma reorderQueuesArrayPriority_sorts:
  "length qs = 4 \<Longrightarrow> 4 \<le> n \<Longrightarrow>
   reorderQueuesArrayPriority n qs = Inr (sort_key (\<lambda>q. sint (qpriority q)) qs)"
  unfolding reorderQueuesArrayPriority_def by (rule prios.sorts) auto

end
