(* ===== verification/PP_Configure.thy ===== *)
theory PP_Configure
  imports C_Config PP_STS_Spec
begin

text \<open>
  \<open>PP/src/configure.c\<close>: \<open>configurationReader\<close>, run once at the start and again whenever \<open>pp.config\<close>
  is modified. The pointers of \<open>t_configure\<close> are the fields of one record; the array of the queues is
  the one of the scheduler. What inotify reports is a list of events, each with the content the file has
  when it is handled.
\<close>

record t_configure =
  cMPS :: s32
  cMMP :: s32
  cquantum :: s32
  cPORT :: s32
  cIO_TIME :: s32
  cIO_THREADS :: s32
  cTANT :: s32
  cALFA :: rat
  cSENT_TIME :: s32
  cALG :: "string option"
  flagReady :: bool
  fakeSTSargs :: t_STSargs

text \<open>A new algorithm that sorts is applied at once, with an empty list of processes to insert.\<close>

definition apply_ALG :: "nat \<Rightarrow> memory \<Rightarrow> string \<Rightarrow> t_STSargs \<Rightarrow> t_STSargs res" where
  "apply_ALG n mem alg s =
     bindE (if alg = ''PRI'' then orderInsertPrioList n mem [] s else Inr s) (\<lambda>s1.
     if alg = ''SPN'' then orderInsertSPNList n mem [] s1 else Inr s1)"

fun read_priorities :: "t_config \<Rightarrow> t_queuesArray list \<Rightarrow> t_queuesArray list res" where
  "read_priorities config [] = Inr []"
| "read_priorities config (qa # qas) =
     bindE (config_get_int_value config (qname qa)) (\<lambda>v.
     bindE (read_priorities config qas) (\<lambda>qas'. Inr (qa\<lparr>qpriority := v\<rparr> # qas')))"

text \<open>The values that are read the first time only.\<close>

definition read_once :: "t_config \<Rightarrow> t_configure \<Rightarrow> t_configure res" where
  "read_once config cs =
     bindE (config_get_int_value config ''PORT'') (\<lambda>port.
     bindE (config_get_int_value config ''QUANTUM'') (\<lambda>q.
     bindE (config_get_int_value config ''IO_THREADS'') (\<lambda>io_threads.
     bindE (config_get_int_value config ''IO_TIME'') (\<lambda>io_time.
     bindE (config_get_int_value config ''MMP'') (\<lambda>mmp.
     bindE (config_get_int_value config ''MPS'') (\<lambda>mps.
     bindE (config_get_int_value config ''TANT'') (\<lambda>tant.
     case config_get_string_value config ''ALFA'' of
       None \<Rightarrow> Inl UB
     | Some alfa \<Rightarrow> Inr (cs\<lparr>cPORT := port, cquantum := q, cIO_THREADS := io_threads, cIO_TIME := io_time,
         cMMP := mmp, cMPS := mps, cTANT := tant, cALFA := atof alfa, flagReady := True\<rparr>))))))))"

definition configurationReader :: "nat \<Rightarrow> memory \<Rightarrow> t_config \<Rightarrow> t_configure \<Rightarrow> t_configure res" where
  "configurationReader n mem config cs =
     (case config_get_string_value config ''ALG'' of
        None \<Rightarrow> Inl UB
      | Some alg \<Rightarrow>
          bindE (apply_ALG n mem alg (fakeSTSargs cs)) (\<lambda>s1.
          bindE (read_priorities config (queuesArray s1)) (\<lambda>qs.
          bindE (reorderQueuesArrayPriority n qs) (\<lambda>qs'.
          bindE (config_get_int_value config ''SENT_TIME'') (\<lambda>t.
          let cs1 = cs\<lparr>cALG := Some alg, cSENT_TIME := t, fakeSTSargs := s1\<lparr>queuesArray := qs'\<rparr>\<rparr>
          in if \<not> flagReady cs then read_once config cs1 else Inr cs1)))))"

text \<open>
  The loop over the events. \<open>others\<close> is what the other threads have done to the queues since the
  event before, \<open>mem\<close> the images at that time.
\<close>

record inotify_event =
  IN_MODIFY :: bool
  ev_name :: "string option"

type_synonym happening = "(t_STSargs \<Rightarrow> t_STSargs) \<times> memory \<times> inotify_event \<times> string option"

definition on_event :: "nat \<Rightarrow> happening \<Rightarrow> t_configure \<Rightarrow> t_configure res" where
  "on_event n = (\<lambda>(others, mem, pevent, file) cs.
     let action = (case ev_name pevent of Some a \<Rightarrow> a | None \<Rightarrow> ''./'');
         cs1 = cs\<lparr>fakeSTSargs := others (fakeSTSargs cs)\<rparr>
     in if IN_MODIFY pevent \<and> action = ''pp.config'' then
          bindE (config_create ''./pp.config'' file) (\<lambda>config. configurationReader n mem config cs1)
        else Inr cs1)"

fun configure_events :: "nat \<Rightarrow> happening list \<Rightarrow> t_configure \<Rightarrow> t_configure res" where
  "configure_events n [] cs = Inr cs"
| "configure_events n (e # es) cs = bindE (on_event n e cs) (configure_events n es)"

definition configure :: "nat \<Rightarrow> memory \<Rightarrow> string option \<Rightarrow> happening list \<Rightarrow> t_configure \<Rightarrow> t_configure res" where
  "configure n mem file es cs =
     bindE (config_create ''./pp.config'' file) (\<lambda>config.
     bindE (configurationReader n mem config cs) (configure_events n es))"

section \<open>What reading a configuration does\<close>

definition configured :: "t_config \<Rightarrow> t_queuesArray \<Rightarrow> t_queuesArray" where
  "configured config qa = qa\<lparr>qpriority := atoi (the (config_get_string_value config (qname qa)))\<rparr>"

definition has_keys :: "t_config \<Rightarrow> string list \<Rightarrow> bool" where
  "has_keys config ks \<longleftrightarrow> (\<forall>k \<in> set ks. config_get_string_value config k \<noteq> None)"

abbreviation int_value :: "t_config \<Rightarrow> string \<Rightarrow> s32" where
  "int_value config k \<equiv> atoi (the (config_get_string_value config k))"

lemma has_keys_get: "has_keys config ks \<Longrightarrow> k \<in> set ks \<Longrightarrow> config_get_int_value config k = Inr (int_value config k)"
  by (auto simp: has_keys_def config_get_int_value_def)

lemma read_priorities_spec:
  "has_keys config (map qname qas) \<Longrightarrow> read_priorities config qas = Inr (map (configured config) qas)"
  by (induction qas) (auto simp: has_keys_def config_get_int_value_def configured_def)

text \<open>A sorting algorithm empties the ready queue.\<close>

definition after_ALG :: "string \<Rightarrow> t_STSargs \<Rightarrow> t_STSargs" where
  "after_ALG alg s = (if alg = ''PRI'' \<or> alg = ''SPN'' then s\<lparr>LPL := [], LPL_empty := 0\<rparr> else s)"

lemma orderInsertList_empty:
  assumes "live mem (LPL s)" and "LPL_empty s = length (LPL s)" and "length (LPL s) \<le> n" and "0 < n"
  shows "orderInsertList key n mem [] s = Inr (s\<lparr>LPL := [], LPL_empty := 0\<rparr>)"
  using orderInsertList_spec[OF assms(1) live_Nil _ assms(4) refl refl, where key = key] assms(2,3)
  by (simp add: taken_all)

lemma apply_ALG_spec:
  assumes "live mem (LPL s)" and "LPL_empty s = length (LPL s)" and "length (LPL s) \<le> n" and "0 < n"
  shows "apply_ALG n mem alg s = Inr (after_ALG alg s)"
  by (auto simp: apply_ALG_def after_ALG_def orderInsertPrioList_def orderInsertSPNList_def
      orderInsertList_empty[OF assms])

lemma configurationReader_spec:
  assumes s: "s = fakeSTSargs cs" and live: "live mem (LPL s)" and sem: "LPL_empty s = length (LPL s)"
    and fuel: "length (LPL s) \<le> n" "4 \<le> n" and four: "length (queuesArray s) = 4"
    and keys: "has_keys config (''ALG'' # ''SENT_TIME'' # map qname (queuesArray s))"
    and once: "flagReady cs \<or> has_keys config [''PORT'', ''QUANTUM'', ''IO_THREADS'', ''IO_TIME'', ''MMP'',
       ''MPS'', ''TANT'', ''ALFA'']"
    and alg: "config_get_string_value config ''ALG'' = Some alg"
    and s': "s' = (after_ALG alg s)\<lparr>queuesArray :=
       sort_key (\<lambda>q. sint (qpriority q)) (map (configured config) (queuesArray s))\<rparr>"
    and cs1: "cs1 = cs\<lparr>cALG := Some alg, cSENT_TIME := int_value config ''SENT_TIME'', fakeSTSargs := s'\<rparr>"
  shows "configurationReader n mem config cs = Inr (if flagReady cs then cs1 else
     cs1\<lparr>cPORT := int_value config ''PORT'', cquantum := int_value config ''QUANTUM'',
       cIO_THREADS := int_value config ''IO_THREADS'', cIO_TIME := int_value config ''IO_TIME'',
       cMMP := int_value config ''MMP'', cMPS := int_value config ''MPS'',
       cTANT := int_value config ''TANT'', cALFA := atof (the (config_get_string_value config ''ALFA'')),
       flagReady := True\<rparr>)"
proof -
  have "0 < n" using fuel by simp
  note ap = apply_ALG_spec[OF live sem fuel(1) this, of alg]
  have qa: "queuesArray (after_ALG alg s) = queuesArray s" by (simp add: after_ALG_def)
  have "has_keys config (map qname (queuesArray s))" using keys by (simp add: has_keys_def)
  note rp = read_priorities_spec[OF this]
  have ro: "reorderQueuesArrayPriority n (map (configured config) (queuesArray s))
      = Inr (sort_key (\<lambda>q. sint (qpriority q)) (map (configured config) (queuesArray s)))"
    using four fuel(2) by (intro reorderQueuesArrayPriority_sorts) simp_all
  have t: "config_get_int_value config ''SENT_TIME'' = Inr (int_value config ''SENT_TIME'')"
    using has_keys_get[OF keys] by simp
  have main: "configurationReader n mem config cs
      = (if \<not> flagReady cs then read_once config cs1 else Inr cs1)"
    unfolding configurationReader_def alg option.case s[symmetric] ap bindE_Inr qa rp ro t Let_def s' cs1 ..
  show ?thesis
  proof (cases "flagReady cs")
    case False
    then have d: "has_keys config [''PORT'', ''QUANTUM'', ''IO_THREADS'', ''IO_TIME'', ''MMP'', ''MPS'', ''TANT'', ''ALFA'']"
      using once by simp
    then obtain alfa where "config_get_string_value config ''ALFA'' = Some alfa"
      by (auto simp: has_keys_def)
    then show ?thesis unfolding main using False has_keys_get[OF d] by (simp add: read_once_def)
  qed (simp add: main)
qed

section \<open>Watching the file\<close>

text \<open>The values that are read at the start only.\<close>

definition fixed_values :: "t_configure \<Rightarrow> s32 list \<times> rat" where
  "fixed_values cs = ([cMPS cs, cMMP cs, cquantum cs, cPORT cs, cIO_TIME cs, cIO_THREADS cs, cTANT cs], cALFA cs)"

lemma configurationReader_fixed:
  "configurationReader n mem config cs = Inr cs' \<Longrightarrow> flagReady cs \<Longrightarrow> fixed_values cs' = fixed_values cs \<and> flagReady cs'"
  by (auto simp: configurationReader_def fixed_values_def Let_def split: option.splits elim!: bindE_InrE)

lemma on_event_fixed:
  "on_event n e cs = Inr cs' \<Longrightarrow> flagReady cs \<Longrightarrow> fixed_values cs' = fixed_values cs \<and> flagReady cs'"
  by (cases e) (auto simp: on_event_def Let_def fixed_values_def split: if_splits elim!: bindE_InrE
      dest!: configurationReader_fixed)

lemma configure_events_fixed:
  "configure_events n es cs = Inr cs' \<Longrightarrow> flagReady cs \<Longrightarrow> fixed_values cs' = fixed_values cs \<and> flagReady cs'"
proof (induction es arbitrary: cs)
  case (Cons e es)
  then obtain cs1 where "on_event n e cs = Inr cs1" "configure_events n es cs1 = Inr cs'" by (auto elim!: bindE_InrE)
  then show ?case using Cons.IH[of cs1] Cons.prems(2) on_event_fixed[of n e cs cs1] by simp
qed simp

lemma configure_events_append:
  "configure_events n (es @ es') cs = bindE (configure_events n es cs) (configure_events n es')"
proof (induction es arbitrary: cs)
  case (Cons e es)
  then show ?case by (cases "on_event n e cs") simp_all
qed simp

text \<open>A file that cannot be opened or has no algorithm.\<close>

definition no_algorithm :: "string option \<Rightarrow> bool" where
  "no_algorithm file \<longleftrightarrow> (case file of None \<Rightarrow> True | Some c \<Rightarrow> config_ok c \<and> lookup_line c ''ALG'' = None)"

lemma no_algorithm_UB:
  assumes "no_algorithm f"
  shows "bindE (config_create p f) (\<lambda>config. configurationReader n mem config cs) = Inl UB"
proof (cases f)
  case None
  have "config_get_string_value \<lparr>path = p, properties = dictionary_create\<rparr> ''ALG'' = None"
    using dict.get_put_all[of "[]" "''ALG''"] by (simp add: config_get_string_value_def)
  then show ?thesis by (simp add: None config_create_def configurationReader_def)
next
  case (Some c)
  then obtain cfg where "config_create p f = Inr cfg" "config_get_string_value cfg ''ALG'' = None"
    using config_create_spec[of c p] assms by (auto simp: no_algorithm_def)
  then show ?thesis by (simp add: configurationReader_def)
qed

lemma event_no_algorithm:
  assumes "IN_MODIFY ev" and "ev_name ev = Some ''pp.config''" and "no_algorithm file"
  shows "on_event n (others, mem, ev, file) cs = Inl UB"
  using no_algorithm_UB[OF assms(3)] assms(1,2) by (simp add: on_event_def Let_def)

end
