(* ===== verification/PP_Logs.thy ===== *)
theory PP_Logs
  imports C_Strings
begin

text \<open>
  \<open>logs_def.c\<close> of the server, and of the client where it differs. All logs of a process write to one
  file, each call under the same mutex; its content is passed on. The clock, the numbers of the process
  and of the thread, and whether the file opens are arguments; \<open>printf\<close> shows a null string as
  \<open>(null)\<close>.
\<close>

section \<open>Logs\<close>

record t_logs =
  programName :: string
  threadName :: "string option"
  threadPid :: u32
  programPid :: u32

record tm =
  tm_year :: int
  tm_mon :: int
  tm_mday :: int
  tm_hour :: int
  tm_min :: int
  tm_sec :: int

definition log_path :: "string option \<Rightarrow> string \<Rightarrow> u32 \<Rightarrow> string" where
  "log_path PWD name pid = (case PWD of None \<Rightarrow> ''(null)'' | Some d \<Rightarrow> d) @ ''/'' @ name @ ''.['' @
     show_nat (unat pid) @ ''].log''"

text \<open>The server gets a null pointer if the file cannot be opened, the client exits.\<close>

definition logCreate :: "string option \<Rightarrow> u32 \<Rightarrow> u32 \<Rightarrow> (string \<Rightarrow> bool) \<Rightarrow> string option \<Rightarrow> t_logs option" where
  "logCreate thread tid pd opens PWD =
     (if opens (log_path PWD ''PP'' pd) then
        Some \<lparr>programName = ''PP'', threadName = thread, threadPid = tid, programPid = pd\<rparr>
      else None)"

definition PI_logCreate :: "u32 \<Rightarrow> (string \<Rightarrow> bool) \<Rightarrow> string option \<Rightarrow> t_logs option" where
  "PI_logCreate pd opens PWD =
     (if opens (log_path PWD ''PI'' pd) then
        Some \<lparr>programName = ''PI'', threadName = None, threadPid = 0, programPid = pd\<rparr>
      else None)"

definition getDateString :: "tm \<Rightarrow> string" where
  "getDateString OurT = show_int (1900 + tm_year OurT) @ ''/'' @ show_int (1 + tm_mon OurT) @ ''/'' @
     show_int (tm_mday OurT) @ '' '' @ show_int (tm_hour OurT) @ '':'' @ show_int (tm_min OurT) @ '':'' @
     show_int (tm_sec OurT)"

definition log_head :: "t_logs \<Rightarrow> tm \<Rightarrow> string \<Rightarrow> string" where
  "log_head lg now kind = ''['' @ getDateString now @ ''] - ['' @ programName lg @ ''/'' @
     show_nat (unat (programPid lg)) @ '']'' @
     (case threadName lg of None \<Rightarrow> [] | Some n \<Rightarrow> '' ['' @ n @ ''/'' @ show_nat (unat (threadPid lg)) @ '']'') @
     '' ['' @ kind @ '']:''"

definition msgLog :: "t_logs \<Rightarrow> tm \<Rightarrow> string \<Rightarrow> string \<Rightarrow> string" where
  "msgLog lg now kind message = log_head lg now kind @ [NL] @ ''    '' @ message @ [NL, NL]"

text \<open>A log that was not created is a null pointer.\<close>

definition logWrite :: "string \<Rightarrow> t_logs option \<Rightarrow> tm \<Rightarrow> string \<Rightarrow> string \<Rightarrow> (nat \<times> string) res" where
  "logWrite kind lg now message logFile =
     (case lg of None \<Rightarrow> Inl UB
      | Some l \<Rightarrow> let m = msgLog l now kind message in Inr (length m, logFile @ m))"

definition logWriteINFO :: "t_logs option \<Rightarrow> tm \<Rightarrow> string \<Rightarrow> string \<Rightarrow> (nat \<times> string) res" where
  "logWriteINFO = logWrite ''INFO''"

definition logWriteERROR :: "t_logs option \<Rightarrow> tm \<Rightarrow> string \<Rightarrow> string \<Rightarrow> (nat \<times> string) res" where
  "logWriteERROR = logWrite ''ERROR''"

definition logWriteLSCH ::
  "t_logs option \<Rightarrow> tm \<Rightarrow> s32 \<Rightarrow> string \<Rightarrow> string \<Rightarrow> string \<Rightarrow> (nat \<times> string) res" where
  "logWriteLSCH lg now scriptPID origen destino =
     logWrite ''LSCH'' lg now (''PID:'' @ show_int (sint scriptPID) @ ''; Origen:'' @ origen @ ''; Destino:'' @ destino)"

section \<open>Reading a log back\<close>

text \<open>A call with what it prints; \<open>call_ok\<close> if that has no newline.\<close>

datatype log_call = Call (caller: t_logs) (at: tm) (kind_of: string) (said: string)

definition call_ok :: "log_call \<Rightarrow> bool" where
  "call_ok e \<longleftrightarrow> NL \<notin> set (programName (caller e)) \<and> (\<forall>n. threadName (caller e) = Some n \<longrightarrow> NL \<notin> set n)
     \<and> NL \<notin> set (kind_of e) \<and> NL \<notin> set (said e)"

fun write_calls :: "log_call list \<Rightarrow> string \<Rightarrow> string res" where
  "write_calls [] file = Inr file"
| "write_calls (e # es) file =
     bindE (logWrite (kind_of e) (Some (caller e)) (at e) (said e) file) (\<lambda>(n, file'). write_calls es file')"

lemma show_nat_no_NL [simp]: "NL \<notin> set (show_nat n)"
  using show_nat_digits[of NL n] by (auto simp: isdigit_def)

lemma show_int_no_NL [simp]: "NL \<notin> set (show_int i)"
  by (simp add: show_int_def)

lemma log_head_no_NL: "call_ok e \<Longrightarrow> NL \<notin> set (log_head (caller e) (at e) (kind_of e))"
  by (auto simp: call_ok_def log_head_def getDateString_def split: option.splits)

lemma string_split_token:
  assumes "tok \<noteq> []" and "set tok \<inter> set sep = {}" and "c \<in> set sep"
  shows "string_split (tok @ c # t) sep = tok # string_split t sep"
proof -
  have d: "dropWhile (\<lambda>c. c \<in> set sep) (tok @ c # t) = tok @ c # t"
    using assms(1,2) by (cases tok) auto
  have "takeWhile (\<lambda>c. c \<notin> set sep) (tok @ c # t) = tok" "dropWhile (\<lambda>c. c \<notin> set sep) (tok @ c # t) = c # t"
    using assms(2,3) by (auto intro!: takeWhile_append_stop dropWhile_append_stop)
  then have "strtok_r (tok @ c # t) sep = Some (tok, t)" unfolding strtok_r_def Let_def d by simp
  then show ?thesis by (subst string_split.simps) (simp add: string_duplicate_def)
qed

lemma string_split_skip: "c \<in> set sep \<Longrightarrow> string_split (c # t) sep = string_split t sep"
  by (subst (1 2) string_split.simps) (simp add: strtok_r_def)

lemma msgLog_lines:
  assumes "call_ok e"
  shows "string_split (msgLog (caller e) (at e) (kind_of e) (said e) @ t) [NL] =
    log_head (caller e) (at e) (kind_of e) # (''    '' @ said e) # string_split t [NL]"
proof -
  have "log_head (caller e) (at e) (kind_of e) \<noteq> []" by (simp add: log_head_def)
  then show ?thesis using log_head_no_NL[OF assms] assms
    by (simp add: msgLog_def string_split_token string_split_skip call_ok_def
        string_split_token[of "CHR '' '' # CHR '' '' # CHR '' '' # CHR '' '' # said e", simplified])
qed

text \<open>A log file can be read back. In whatever order the threads wrote to it, splitting it into lines
  gives for every call, in their order, one line that tells when, who and what kind, and one with the
  message, as long as no message has a newline.\<close>

theorem log_is_read_back:
  assumes "\<forall>e \<in> set es. call_ok e" and "write_calls es [] = Inr file"
  shows "string_split file [NL] =
    concat (map (\<lambda>e. [log_head (caller e) (at e) (kind_of e), ''    '' @ said e]) es)"
proof -
  have "write_calls es f = Inr (f @ concat (map (\<lambda>e. msgLog (caller e) (at e) (kind_of e) (said e)) es))" for f
    by (induction es arbitrary: f) (simp_all add: logWrite_def Let_def)
  then have "file = concat (map (\<lambda>e. msgLog (caller e) (at e) (kind_of e) (said e)) es)"
    using assms(2) by simp
  moreover have "string_split (concat (map (\<lambda>e. msgLog (caller e) (at e) (kind_of e) (said e)) es)) [NL] =
    concat (map (\<lambda>e. [log_head (caller e) (at e) (kind_of e), ''    '' @ said e]) es)"
    using assms(1) by (induction es) (simp_all add: msgLog_lines string_split.simps[of "[]"] strtok_r_def)
  ultimately show ?thesis by simp
qed

lemma log_is_read_back_witness:
  "\<exists>file l. write_calls [Call l \<lparr>tm_year = 112, tm_mon = 5, tm_mday = 1, tm_hour = 9, tm_min = 30, tm_sec = 0\<rparr>
       ''INFO'' ''Listo''] [] = Inr file
     \<and> l = \<lparr>programName = ''PP'', threadName = Some ''STS'', threadPid = 8, programPid = 7\<rparr>
     \<and> length (string_split file [NL]) = 2 \<and> string_split file [NL] ! 1 = ''    Listo''"
proof -
  let ?l = "\<lparr>programName = ''PP'', threadName = Some ''STS'', threadPid = 8, programPid = 7\<rparr>"
  let ?es = "[Call ?l \<lparr>tm_year = 112, tm_mon = 5, tm_mday = 1, tm_hour = 9, tm_min = 30, tm_sec = 0\<rparr>
       ''INFO'' ''Listo'']"
  have "\<forall>e \<in> set ?es. call_ok e" by (simp add: call_ok_def)
  moreover obtain f where "write_calls ?es [] = Inr f" by (simp add: logWrite_def Let_def)
  ultimately show ?thesis using log_is_read_back[of ?es f] by simp
qed

end
