(* ===== verification/PP_STS_Files.thy ===== *)
theory PP_STS_Files
  imports PP_STS PP_Logs
begin

text \<open>
  The log files of the scheduler's rounds. Each of the functions \<open>ordenarFIFO\<close>, \<open>ordenarPRI\<close> and
  \<open>ordenarSPN\<close> (\<open>STS.c\<close>) opens a log, writes to it for every process it takes, and all but the last
  close it. A process has at most \<open>limit\<close> open files; \<open>opened\<close> counts those it has.
\<close>

section \<open>Rounds with their log\<close>

text \<open>A process is taken, and that is written to the log.\<close>

definition takes_some :: "t_STSargs \<Rightarrow> bool" where
  "takes_some s \<longleftrightarrow> (\<exists>qa \<in> set (queuesArray s). 0 < fst (source_get (strSwitch (qname qa)) s))"

definition STS_log :: "nat \<Rightarrow> nat \<Rightarrow> t_logs option" where
  "STS_log limit opened = logCreate (Some ''STS'') 0 0 (\<lambda>_. opened < limit) None"

text \<open>\<open>None\<close> inside the outcome is \<open>exit\<close>; \<open>logDestroy\<close> follows a null log.\<close>

definition STS_round_logged ::
  "nat \<Rightarrow> memory \<Rightarrow> nat \<Rightarrow> string \<Rightarrow> nat \<times> t_STSargs \<Rightarrow> (nat \<times> t_STSargs) option res" where
  "STS_round_logged n mem limit alg = (\<lambda>(opened, s).
     let log = STS_log limit opened in
     if strSwitch alg \<in> {1, 2, 3, 4} \<and> log = None \<and> takes_some s then Inl UB
     else bindE (STS_round n mem alg s) (\<lambda>r.
       case r of None \<Rightarrow> Inr None
       | Some s' \<Rightarrow>
           if strSwitch alg = 4 then Inr (Some (if log = None then opened else opened + 1, s'))
           else if log = None then Inl UB
           else Inr (Some (opened, s'))))"

text \<open>Rounds with what the other threads do between them.\<close>

fun STS_rounds ::
  "nat \<Rightarrow> nat \<Rightarrow> string \<Rightarrow> (memory \<times> (t_STSargs \<Rightarrow> t_STSargs)) list \<Rightarrow> nat \<times> t_STSargs \<Rightarrow>
   (nat \<times> t_STSargs) option res" where
  "STS_rounds n limit alg [] st = Inr (Some st)"
| "STS_rounds n limit alg ((mem, others) # rs) (opened, s) =
     bindE (STS_round_logged n mem limit alg (opened, others s)) (\<lambda>r.
       case r of None \<Rightarrow> Inr None | Some st \<Rightarrow> STS_rounds n limit alg rs st)"

lemma STS_log_None [simp]: "STS_log limit opened = None \<longleftrightarrow> limit \<le> opened"
  by (auto simp: STS_log_def logCreate_def)

lemma round_SPN:
  "STS_round_logged n mem limit ''SPN'' (k, s) = Inr (Some (k', s')) \<Longrightarrow> takes_some s \<Longrightarrow> k' = k + 1 \<and> k < limit"
  by (auto simp: STS_round_logged_def STS_round_def strSwitch_def Let_def res_simps split: if_splits option.splits)

lemma round_other:
  "STS_round_logged n mem limit alg (k, s) = Inr (Some (k', s')) \<Longrightarrow> alg \<in> {''FIFO'', ''RR'', ''PRI''} \<Longrightarrow> k' = k"
  by (auto simp: STS_round_logged_def STS_round_def strSwitch_def Let_def res_simps split: if_splits option.splits)

lemma round_full:
  "limit \<le> k \<Longrightarrow> takes_some s \<Longrightarrow> STS_round_logged n mem limit ''SPN'' (k, s) = Inl UB"
  by (simp add: STS_round_logged_def strSwitch_def)

lemma STS_rounds_append:
  "STS_rounds n limit alg (rs @ rs') st = bindE (STS_rounds n limit alg rs st)
     (\<lambda>r. case r of None \<Rightarrow> Inr None | Some st' \<Rightarrow> STS_rounds n limit alg rs' st')"
proof (induction rs arbitrary: st)
  case (Cons r rs)
  obtain mem others where r: "r = (mem, others)" by (cases r)
  obtain k s where st: "st = (k, s)" by (cases st)
  show ?case
  proof (cases "STS_round_logged n mem limit alg (k, others s)")
    case (Inr a)
    then show ?thesis using Cons.IH by (cases a) (simp_all add: r st)
  qed (simp add: r st)
qed simp

lemma rounds_SPN:
  "STS_rounds n limit ''SPN'' rs (k, s) = Inr (Some (k', s')) \<Longrightarrow>
   \<forall>(mem, others) \<in> set rs. \<forall>s. takes_some (others s) \<Longrightarrow> k' = k + length rs \<and> (rs \<noteq> [] \<longrightarrow> k' \<le> limit)"
proof (induction rs arbitrary: k s)
  case (Cons r rs)
  obtain mem others where r: "r = (mem, others)" by (cases r)
  obtain k1 s1 where 1: "STS_round_logged n mem limit ''SPN'' (k, others s) = Inr (Some (k1, s1))"
    "STS_rounds n limit ''SPN'' rs (k1, s1) = Inr (Some (k', s'))"
    using Cons.prems(1) by (auto simp: r res_simps split: option.splits)
  have "k1 = k + 1 \<and> k < limit" using round_SPN[OF 1(1)] Cons.prems(2) r by auto
  moreover have "\<forall>(mem, others) \<in> set rs. \<forall>s. takes_some (others s)" using Cons.prems(2) by simp
  note Cons.IH[OF 1(2) this]
  ultimately show ?case by (cases rs) auto
qed simp

lemma rounds_other:
  "STS_rounds n limit alg rs (k, s) = Inr (Some (k', s')) \<Longrightarrow> alg \<in> {''FIFO'', ''RR'', ''PRI''} \<Longrightarrow> k' = k"
proof (induction rs arbitrary: k s)
  case (Cons r rs)
  obtain mem others where r: "r = (mem, others)" by (cases r)
  obtain k1 s1 where 1: "STS_round_logged n mem limit alg (k, others s) = Inr (Some (k1, s1))"
    "STS_rounds n limit alg rs (k1, s1) = Inr (Some (k', s'))"
    using Cons.prems(1) by (auto simp: r res_simps split: option.splits)
  then show ?case using round_other[OF 1(1) Cons.prems(2)] Cons.IH[OF 1(2) Cons.prems(2)] by simp
qed simp

section \<open>The scheduler runs out of files\<close>

text \<open>C40. Under SPN every round that takes a process leaves a log file open. So at most as many such
  rounds succeed as files may still be opened, and the next one follows the null pointer of a log
  that was not created; the other algorithms end a round with as many open files as before.\<close>

theorem spn_runs_out_of_files:
  assumes busy: "\<forall>(mem, others) \<in> set rs. \<forall>s. takes_some (others s)" "\<forall>s. takes_some (others s)" and "k \<le> limit"
  shows "(STS_rounds n limit ''SPN'' rs (k, s) = Inr (Some (k', s')) \<longrightarrow> k' = k + length rs \<and> k' \<le> limit
      \<and> (k' = limit \<longrightarrow> STS_rounds n limit ''SPN'' (rs @ [(mem, others)]) (k, s) = Inl UB))
    \<and> (alg \<in> {''FIFO'', ''RR'', ''PRI''} \<and> STS_rounds n limit alg rs (k, s) = Inr (Some (k', s')) \<longrightarrow> k' = k)"
proof (intro conjI impI)
  show "k' = k" if "alg \<in> {''FIFO'', ''RR'', ''PRI''} \<and> STS_rounds n limit alg rs (k, s) = Inr (Some (k', s'))"
    using rounds_other that by blast
next
  assume r: "STS_rounds n limit ''SPN'' rs (k, s) = Inr (Some (k', s'))"
  then show "k' = k + length rs" "k' \<le> limit" using rounds_SPN[OF r busy(1)] assms(3) by (cases rs; simp)+
  show "STS_rounds n limit ''SPN'' (rs @ [(mem, others)]) (k, s) = Inl UB" if "k' = limit"
    using r that busy(2) by (simp add: STS_rounds_append round_full)
qed

definition submitting :: "t_STSargs \<Rightarrow> t_STSargs" where
  "submitting s = s\<lparr>LPN := [4], LPN_empty := 1, STS_in_empty := 1,
     queuesArray := [\<lparr>qpriority = 1, qname = ''PLPN''\<rparr>]\<rparr>"

definition nothing_waits :: t_STSargs where
  "nothing_waits = \<lparr>LPN = [], LPR = [], LFIO = [], LFQ = [], LPL = [], LPN_empty = 0, LPR_empty = 0,
     LFIO_empty = 0, LFQ_empty = 0, LPL_empty = 0, STS_in_empty = 0, queuesArray = []\<rparr>"

definition one_image :: memory where
  "one_image = (\<lambda>_. Some \<lparr>clientfd = 7, pid = 11, priority = 0, piPC = 0, piCode = [], piData = None,
     piStack = [], Tspn = 0\<rparr>)"

lemma spn_runs_out_of_files_witness:
  "STS_rounds 9 1 ''SPN'' [(one_image, submitting), (one_image, submitting)] (0, nothing_waits) = Inl UB"
proof -
  have "\<forall>s. takes_some (submitting s)" by (simp add: takes_some_def submitting_def source_get_def strSwitch_def)
  moreover have "STS_rounds 9 1 ''SPN'' [(one_image, submitting)] (0, nothing_waits) = Inr (Some (1,
      (submitting nothing_waits)\<lparr>LPN := [], LPN_empty := 0, STS_in_empty := 0, LPL := [4], LPL_empty := 1\<rparr>))"
    by code_simp
  ultimately show ?thesis
    using spn_runs_out_of_files[of "[(one_image, submitting)]" submitting 0 1 9 nothing_waits 1 _ one_image] by simp
qed

end
