(* ===== verification/PP_Interp.thy ===== *)
theory PP_Interp
  imports PP_Data C_Queue
begin

text \<open>
  The AnSISOP interpreter of \<open>PP/src/procer_defs.c\<close>: \<open>processExecution\<close>, \<open>functionExecution\<close> and
  \<open>stackExecution\<close>. The state \<open>xstate\<close> holds the process image, the shared structures of
  \<open>t_PROCERargs\<close> the interpreter touches, and its three in-out parameters; \<open>slept\<close> records the
  arguments of \<open>sleep\<close>. Logging writes to a file only and is left out.

  The other threads run between the instructions: at every test of a loop condition the shared
  structures are first changed by an arbitrary function \<open>env\<close> of the number of the test. An
  instruction sees one state of the shared structures: the loop condition reads only \<open>SUSPEND\<close> and
  the quantum, the instruction only the I/O queue, its thread count, \<open>ALG\<close> and \<open>SENT_TIME\<close>, so an
  interference between the two is one before the test for the latter and one at the next test for
  \<open>SUSPEND\<close>.

  The loops of the script need not end, so the interpreter takes fuel, one unit per loop round and
  call; \<open>Inl NoReturn\<close> says that the fuel ran out.
\<close>

section \<open>State\<close>

record t_msg =
  msg_fd :: int
  msg_type :: char
  msg_text :: string

record t_ioProcessing =
  io_image :: addr
  ioTime :: u32
  flagNonBlocking :: bool

record shared =
  sendingList :: "t_msg list"
  LPB :: "t_ioProcessing list"
  LPB_empty :: nat
  ioThreads :: nat
  SUSPEND :: bool
  ALG :: string
  quantum :: int
  SENT_TIME :: s32

record xstate =
  img :: t_ProcessImage
  sh :: shared
  ioBlockInterrupt :: bool
  quantumCount :: int
  rafaga :: rat
  tick :: nat
  slept :: "s32 list"

type_synonym environment = "nat \<Rightarrow> shared \<Rightarrow> shared"

definition interfere :: "environment \<Rightarrow> xstate \<Rightarrow> xstate" where
  "interfere env st = st\<lparr>sh := env (tick st) (sh st), tick := Suc (tick st)\<rparr>"

abbreviation set_img :: "(t_ProcessImage \<Rightarrow> t_ProcessImage) \<Rightarrow> xstate \<Rightarrow> xstate" where
  "set_img f st \<equiv> st\<lparr>img := f (img st)\<rparr>"

abbreviation set_data :: "t_data list option \<Rightarrow> xstate \<Rightarrow> xstate" where
  "set_data d \<equiv> set_img (piData_update (\<lambda>_. d))"

abbreviation set_stack :: "t_stack list \<Rightarrow> xstate \<Rightarrow> xstate" where
  "set_stack s \<equiv> set_img (piStack_update (\<lambda>_. s))"

abbreviation set_PC :: "u16 \<Rightarrow> xstate \<Rightarrow> xstate" where
  "set_PC p \<equiv> set_img (piPC_update (\<lambda>_. p))"

section \<open>Pieces shared by the instructions\<close>

definition do_sleep :: "s32 \<Rightarrow> xstate \<Rightarrow> xstate" where
  "do_sleep t st = st\<lparr>slept := slept st @ [t]\<rparr>"

text \<open>One executed sentence: a unit of quantum under Round Robin, and one of the CPU burst.\<close>

definition charge :: "xstate \<Rightarrow> xstate" where
  "charge st = st\<lparr>quantumCount := (if ALG (sh st) = ''RR'' then quantumCount st + 1 else quantumCount st),
                  rafaga := rafaga st + 1\<rparr>"

definition send_N :: "string \<Rightarrow> xstate \<Rightarrow> xstate" where
  "send_N text st = st\<lparr>sh := (sh st)\<lparr>sendingList := ls_add (sendingList (sh st))
     \<lparr>msg_fd = clientfd (img st), msg_type = CHR ''N'', msg_text = text\<rparr>\<rparr>\<rparr>"

text \<open>The time of a sentence: the number after \<open>;\<close>, or \<open>SENT_TIME\<close>. \<open>rest\<close> starts at the \<open>;\<close>.\<close>

definition sentence_time :: "string \<Rightarrow> xstate \<Rightarrow> s32" where
  "sentence_time rest st = (if rest \<noteq> [] then atoi (tl rest) else SENT_TIME (sh st))"

definition push_LPB :: "addr \<Rightarrow> u32 \<Rightarrow> bool \<Rightarrow> xstate \<Rightarrow> xstate" where
  "push_LPB self t nonblocking st = st\<lparr>sh := (sh st)
     \<lparr>LPB := lq_push (LPB (sh st)) \<lparr>io_image = self, ioTime = t, flagNonBlocking = nonblocking\<rparr>,
      LPB_empty := LPB_empty (sh st) + 1\<rparr>\<rparr>"

definition io_available :: "xstate \<Rightarrow> bool" where
  "io_available st \<longleftrightarrow> length (LPB (sh st)) < ioThreads (sh st)"

definition io_error_text :: "u16 \<Rightarrow> string" where
  "io_error_text PC = ''ERROR I/O no-bloqueante, hilos no disponibles, l''
     @ [CHR 0xC3, CHR 0xAD] @ ''nea '' @ show_nat (unat PC + 1) @ [NL]"

section \<open>Instructions\<close>

definition ins_variables :: "string \<Rightarrow> xstate \<Rightarrow> xstate res" where
  "ins_variables line st =
     bindE (cptr line (length ''variables,'')) (\<lambda>v.
     bindE (addVariables (piData (img st)) v) (\<lambda>d. Inr (set_data d st)))"

definition ins_imprimir :: "string \<Rightarrow> xstate \<Rightarrow> xstate res" where
  "ins_imprimir line st =
     bindE (cchar line (length ''imprimir,'')) (\<lambda>v.
     bindE (readData (piData (img st)) v) (\<lambda>x.
     Inr (send_N (cstring (''IMPRIMIENDO VARIABLE '' @ [v] @ '': '' @ show_int (sint x) @ [NL])) st)))"

definition jump_if :: "bool \<Rightarrow> string list \<Rightarrow> string \<Rightarrow> xstate \<Rightarrow> xstate res" where
  "jump_if cond code line st =
     (if cond then bindE (cptr line (length ''ssc,x,'')) (\<lambda>tag.
        bindE (changePC code tag) (\<lambda>p. Inr (set_PC p st)))
      else Inr st)"

definition ins_ssc :: "string list \<Rightarrow> string \<Rightarrow> xstate \<Rightarrow> xstate res" where
  "ins_ssc code line st =
     bindE (cchar line (length ''ssc,'')) (\<lambda>v.
     bindE (readData (piData (img st)) v) (\<lambda>x.
     bindE (jump_if (x = 0) code line st) (\<lambda>st1.
     let st2 = do_sleep (SENT_TIME (sh st1)) st1;
         st3 = do_sleep (sentence_time (dropWhile (\<lambda>c. c \<noteq> CHR '';'') line) st2) st2
     in Inr (charge st3))))"

definition ins_snc :: "string list \<Rightarrow> string \<Rightarrow> xstate \<Rightarrow> xstate res" where
  "ins_snc code line st =
     bindE (cchar line (length ''snc,'')) (\<lambda>v.
     bindE (readData (piData (img st)) v) (\<lambda>x.
     bindE (jump_if (x \<noteq> 0) code line st) (\<lambda>st1.
     Inr (charge (do_sleep (sentence_time (dropWhile (\<lambda>c. c \<noteq> CHR '';'') line) st1) st1)))))"

text \<open>
  The loop over the right-hand side, from position 1 on: an operator (the first is the \<open>=\<close>), then
  the operand up to the next \<open>+\<close>, \<open>-\<close> or \<open>;\<close>. An operand of two or more characters is a number,
  a shorter one is read as a variable (an undeclared digit reads as its value). It returns the
  sum and the rest, which is empty or starts at the \<open>;\<close>.
\<close>

definition operand_char :: "char \<Rightarrow> bool" where
  "operand_char c \<longleftrightarrow> c \<noteq> CHR ''+'' \<and> c \<noteq> CHR ''-'' \<and> c \<noteq> CHR '';''"

definition operand_value :: "t_data list option \<Rightarrow> string \<Rightarrow> s32 res" where
  "operand_value d aux =
     (if length aux > 1 then Inr (atoi aux)
      else readData d (case aux of [] \<Rightarrow> NUL | c # _ \<Rightarrow> c))"

function eval_expr :: "t_data list option \<Rightarrow> s32 \<Rightarrow> string \<Rightarrow> (s32 \<times> string) res" where
  "eval_expr d acc [] = Inr (acc, [])"
| "eval_expr d acc (op # s) =
     (if op = CHR '';'' then Inr (acc, op # s)
      else bindE (operand_value d (takeWhile operand_char s)) (\<lambda>v.
             eval_expr d (if op \<noteq> CHR ''-'' then acc + v else acc - v) (dropWhile operand_char s)))"
  by pat_completeness auto
termination
  by (relation "measure (\<lambda>(_, _, s). length s)") (auto simp: length_dropWhile_le less_Suc_eq_le)

definition ins_assign :: "string \<Rightarrow> xstate \<Rightarrow> xstate res" where
  "ins_assign line st =
     bindE (eval_expr (piData (img st)) 0 (drop 1 line)) (\<lambda>(x, rest).
     bindE (cchar line 0) (\<lambda>v.
     bindE (writeData (piData (img st)) v x) (\<lambda>d.
     let st1 = set_data d st
     in Inr (charge (do_sleep (sentence_time rest st1) st1)))))"

text \<open>Arguments of an I/O sentence, from offset \<open>off\<close>: the time, and whether the flag is \<open>0\<close>.\<close>

definition io_args :: "nat \<Rightarrow> string \<Rightarrow> (u32 \<times> bool) res" where
  "io_args off line =
     bindE (cptr line off) (\<lambda>a.
     bindE (scan (\<lambda>c. c = CHR '','') a) (\<lambda>ind.
     bindE (cchar a (ind + 1)) (\<lambda>f. Inr (atoi (take ind a), f = CHR ''0''))))"

definition store_result :: "string \<Rightarrow> s32 \<Rightarrow> xstate \<Rightarrow> xstate res" where
  "store_result line x st =
     bindE (cchar line 0) (\<lambda>v.
     bindE (writeData (piData (img st)) v x) (\<lambda>d. Inr (set_data d st)))"

text \<open>
  \<open>x=io(t,f)\<close> in the main program. With a free I/O thread and \<open>f\<close> = 0 the code locks
  \<open>LPB_mutex\<close>, a default mutex, a second time: the thread blocks for ever.
\<close>

definition ins_io_assign_main :: "addr \<Rightarrow> string \<Rightarrow> xstate \<Rightarrow> xstate res" where
  "ins_io_assign_main self line st =
     bindE (io_args 5 line) (\<lambda>(t, nb).
     bindE (if nb then
              if io_available st then Inl Deadlock
              else bindE (store_result line 0 st) (\<lambda>st1.
                   Inr (send_N (''PID:'' @ show_int (pid (img st1)) @ ''; '' @ io_error_text (piPC (img st1))) st1))
            else bindE (store_result line 1 (push_LPB self t False st)) (\<lambda>st1.
                 Inr (st1\<lparr>ioBlockInterrupt := True\<rparr>)))
       (\<lambda>st2. Inr (charge (do_sleep (SENT_TIME (sh st2)) st2))))"

text \<open>In a function the time goes through a \<open>uint16_t\<close>, and the non-blocking case is queued.\<close>

definition ins_io_assign_func :: "addr \<Rightarrow> string \<Rightarrow> u16 \<Rightarrow> xstate \<Rightarrow> xstate res" where
  "ins_io_assign_func self line PC st =
     bindE (io_args 5 line) (\<lambda>(t, nb).
     let t16 = ucast (ucast t :: u16) in
     bindE (if nb then
              if io_available st then store_result line 1 (push_LPB self t16 True st)
              else bindE (store_result line 0 st) (\<lambda>st1. Inr (send_N (io_error_text PC) st1))
            else bindE (store_result line 1 (push_LPB self t16 False st)) (\<lambda>st1.
                 Inr (st1\<lparr>ioBlockInterrupt := True\<rparr>)))
       (\<lambda>st2. Inr (charge (do_sleep (SENT_TIME (sh st2)) st2))))"

text \<open>\<open>io(t,f)\<close>, the same code in both; \<open>width\<close> is the conversion of the time.\<close>

definition ins_io :: "(u32 \<Rightarrow> u32) \<Rightarrow> addr \<Rightarrow> string \<Rightarrow> u16 \<Rightarrow> xstate \<Rightarrow> xstate res" where
  "ins_io width self line PC st =
     bindE (io_args 3 line) (\<lambda>(t, nb).
       if nb then
         if io_available st then Inr (push_LPB self (width t) True st)
         else Inr (send_N (io_error_text PC) st)
       else Inr ((push_LPB self (width t) False st)\<lparr>ioBlockInterrupt := True\<rparr>))"

definition call_name :: "string \<Rightarrow> string" where
  "call_name line = takeWhile (\<lambda>c. c \<noteq> CHR ''('') line"

definition is_skip :: "string \<Rightarrow> bool" where
  "is_skip line \<longleftrightarrow> line = [] \<or> string_ends_with line '':''"

text \<open>
  One round of the loop of \<open>processExecution\<close> on the line at the new PC: the new state, and the
  function called if the line is a call.
\<close>

definition plain :: "xstate res \<Rightarrow> (xstate \<times> string option) res" where
  "plain m = bindE m (\<lambda>st. Inr (st, None))"

definition main_instr ::
  "string list \<Rightarrow> addr \<Rightarrow> string \<Rightarrow> xstate \<Rightarrow> (xstate \<times> string option) res" where
  "main_instr code self line st =
     (if is_skip line then Inr (st, None)
      else if string_starts_with line ''variables'' then plain (ins_variables line st)
      else if string_starts_with line ''imprimir'' then plain (ins_imprimir line st)
      else if string_starts_with line ''ssc'' then plain (ins_ssc code line st)
      else if string_starts_with line ''snc'' then plain (ins_snc code line st)
      else bindE (cchar line 1) (\<lambda>c1.
        if c1 = CHR ''='' \<and> \<not> string_starts_with (drop 2 line) ''io('' then plain (ins_assign line st)
        else if c1 = CHR ''='' \<and> string_starts_with (drop 2 line) ''io('' then plain (ins_io_assign_main self line st)
        else if string_starts_with line ''io('' then plain (ins_io id self line (piPC (img st)) st)
        else if string_ends_with line ''()'' then Inr (st, Some (call_name line))
        else Inr (st, None)))"

text \<open>The loop of \<open>functionExecution\<close> has no \<open>variables\<close>, \<open>ssc\<close> and \<open>snc\<close>: such lines do nothing.\<close>

definition func_instr ::
  "addr \<Rightarrow> string \<Rightarrow> u16 \<Rightarrow> xstate \<Rightarrow> (xstate \<times> string option) res" where
  "func_instr self line PC st =
     (if is_skip line then Inr (st, None)
      else if string_starts_with line ''imprimir'' then plain (ins_imprimir line st)
      else bindE (cchar line 1) (\<lambda>c1.
        if c1 = CHR ''='' \<and> \<not> string_starts_with (drop 2 line) ''io('' then plain (ins_assign line st)
        else if c1 = CHR ''='' \<and> string_starts_with (drop 2 line) ''io('' then plain (ins_io_assign_func self line PC st)
        else if string_starts_with line ''io('' then plain (ins_io (\<lambda>t. ucast (ucast t :: u16)) self line PC st)
        else if string_ends_with line ''()'' then Inr (st, Some (call_name line))
        else Inr (st, None)))"

section \<open>The loops\<close>

definition running :: "xstate \<Rightarrow> bool" where
  "running st \<longleftrightarrow> \<not> SUSPEND (sh st) \<and> \<not> ioBlockInterrupt st \<and> quantumCount st < quantum (sh st)"

definition stackExecution :: "(t_stack \<Rightarrow> xstate \<Rightarrow> xstate res) \<Rightarrow> xstate \<Rightarrow> xstate res" where
  "stackExecution fexec st =
     (if piStack (img st) \<noteq> [] then
        bindE (stack_get (piStack (img st))) (\<lambda>(element, rest).
          case element of None \<Rightarrow> Inl UB | Some el \<Rightarrow> fexec el (set_stack rest st))
      else Inr st)"

definition reorderStack :: "t_stack list \<Rightarrow> t_stack \<Rightarrow> (t_stack list \<times> t_stack) res" where
  "reorderStack stack element =
     bindE (stack_get stack) (\<lambda>(newElement, rest).
       case newElement of None \<Rightarrow> Inl UB | Some e \<Rightarrow> Inr ([element] @ rest, e))"

definition at_end :: "string \<Rightarrow> t_stack \<Rightarrow> bool" where
  "at_end line el \<longleftrightarrow> string_starts_with line ''fin_funcion'' \<and> string_ends_with line (functionName el)"

text \<open>A call: the new element is appended to the stack and \<open>stackExecution\<close> takes it off again.\<close>

definition call_function ::
  "string list \<Rightarrow> (t_stack \<Rightarrow> xstate \<Rightarrow> xstate res) \<Rightarrow> string \<Rightarrow> u16 \<Rightarrow> xstate \<Rightarrow> xstate res" where
  "call_function code fexec f PC st =
     bindE (findFunctionLine code f) (\<lambda>p.
     stackExecution fexec (set_stack (ls_add (piStack (img st))
       \<lparr>functionName = f, stPC = p, linecall = PC\<rparr>) st))"

primrec functionExecution ::
  "nat \<Rightarrow> string list \<Rightarrow> addr \<Rightarrow> environment \<Rightarrow> t_stack \<Rightarrow> xstate \<Rightarrow> xstate res" where
  "functionExecution 0 = (\<lambda>code self env el st. Inl NoReturn)"
| "functionExecution (Suc n) = (\<lambda>code self env el st0.
     let st = interfere env st0 in
     bindE (code_line code (stPC el)) (\<lambda>line.
       if \<not> at_end line el \<and> running st then
         let el1 = el\<lparr>stPC := stPC el + 1\<rparr> in
         bindE (code_line code (stPC el1)) (\<lambda>l.
         bindE (func_instr self l (stPC el1) st) (\<lambda>(st1, call).
           case call of
             None \<Rightarrow> functionExecution n code self env el1 st1
           | Some f \<Rightarrow>
               bindE (call_function code (functionExecution n code self env) f (stPC el1) st1) (\<lambda>st2.
                 if piStack (img st2) \<noteq> [] then
                   bindE (reorderStack (piStack (img st2)) el1) (\<lambda>(s, el2).
                     functionExecution n code self env el2 (set_stack s st2))
                 else functionExecution n code self env el1 st2)))
       else if at_end line el then Inr st
       else Inr (set_stack (ls_add (piStack (img st)) el) st)))"

primrec processLoop ::
  "nat \<Rightarrow> string list \<Rightarrow> addr \<Rightarrow> environment \<Rightarrow> xstate \<Rightarrow> xstate res" where
  "processLoop 0 = (\<lambda>code self env st. Inl NoReturn)"
| "processLoop (Suc n) = (\<lambda>code self env st0.
     let st = interfere env st0 in
     bindE (code_line code (piPC (img st))) (\<lambda>line.
       if line \<noteq> ''fin_programa'' \<and> running st then
         if piStack (img st) \<noteq> [] then
           bindE (stackExecution (functionExecution n code self env) st) (processLoop n code self env)
         else
           let st1 = set_PC (piPC (img st) + 1) st in
           bindE (code_line code (piPC (img st1))) (\<lambda>l.
           bindE (main_instr code self l st1) (\<lambda>(st2, call).
             case call of
               None \<Rightarrow> processLoop n code self env st2
             | Some f \<Rightarrow>
                 bindE (call_function code (functionExecution n code self env) f (piPC (img st2)) st2)
                   (processLoop n code self env)))
       else Inr st))"

definition processExecution ::
  "nat \<Rightarrow> string list \<Rightarrow> addr \<Rightarrow> environment \<Rightarrow> xstate \<Rightarrow> xstate res" where
  "processExecution n code self env st =
     bindE (stackExecution (functionExecution n code self env) st) (processLoop n code self env)"

end
