(* ===== verification/PP_Data_Spec.thy ===== *)
theory PP_Data_Spec
  imports PP_Data
begin

text \<open>
  What the data and code segment promise: the data segment is a store of variables (the locale
  \<open>variable_store\<close>, interpreted on \<open>readData\<close> and \<open>writeData\<close>), declaring variables appends them
  with value 0, and cutting a script into lines is total exactly on the scripts whose last line
  has no comment.
\<close>

section \<open>Well-formed data segments and the variables they hold\<close>

definition wf_data :: "t_data list \<Rightarrow> bool" where
  "wf_data d \<longleftrightarrow> d \<noteq> [] \<and> varName (last d) = NUL \<and> (\<forall>e \<in> set (butlast d). varName e \<noteq> NUL)"

definition seg_ok :: "t_data list option \<Rightarrow> bool" where
  "seg_ok data = (case data of None \<Rightarrow> True | Some d \<Rightarrow> wf_data d)"

definition declared :: "t_data list option \<Rightarrow> char list" where
  "declared data = (case data of None \<Rightarrow> [] | Some d \<Rightarrow> map varName (butlast d))"

definition var_env :: "t_data list option \<Rightarrow> char \<rightharpoonup> s32" where
  "var_env data = (case data of None \<Rightarrow> Map.empty
     | Some d \<Rightarrow> map_of (map (\<lambda>e. (varName e, varValue e)) (butlast d)))"

lemma declared_snoc: "declared (Some (vs @ [t])) = map varName vs"
  by (simp add: declared_def)

lemma var_env_snoc: "var_env (Some (vs @ [t])) = map_of (map (\<lambda>e. (varName e, varValue e)) vs)"
  by (simp add: var_env_def)

lemma wf_dataE:
  assumes "wf_data d"
  obtains vs t where "d = vs @ [t]" and "varName t = NUL" and "\<forall>e \<in> set vs. varName e \<noteq> NUL"
  using assms unfolding wf_data_def by (metis append_butlast_last_id)

lemma wf_data_snoc [simp]:
  "wf_data (vs @ [t]) \<longleftrightarrow> varName t = NUL \<and> (\<forall>e \<in> set vs. varName e \<noteq> NUL)"
  by (simp add: wf_data_def)

lemma scan_append_stop:
  "P t \<Longrightarrow> scan P (vs @ [t]) = Inr (length (takeWhile (\<lambda>e. \<not> P e) vs))"
  by (induction vs) auto

lemma dataCount_wf: "wf_data d \<Longrightarrow> dataCount (Some d) = Inr (length d - 1)"
  by (erule wf_dataE) (simp add: dataCount_def scan_append_stop takeWhile_all)

lemma map_of_first:
  "map_of (map (\<lambda>e. (varName e, varValue e)) vs) v =
     (let i = length (takeWhile (\<lambda>e. varName e \<noteq> v) vs)
      in if i < length vs then Some (varValue (vs ! i)) else None)"
  by (induction vs) (auto simp: Let_def)

lemma length_takeWhile_var:
  "length (takeWhile (\<lambda>n. n \<noteq> u) (map varName vs)) = length (takeWhile (\<lambda>e. varName e \<noteq> u) vs)"
  by (simp add: takeWhile_map comp_def)

lemma takeWhile_var:
  "\<forall>e \<in> set vs. varName e \<noteq> NUL \<Longrightarrow>
   takeWhile (\<lambda>e. \<not> (varName e = NUL \<or> varName e = v)) vs = takeWhile (\<lambda>e. varName e \<noteq> v) vs"
  by (induction vs) auto

lemma data_index_wf:
  assumes "wf_data (vs @ [t])"
  shows "data_index (Some (vs @ [t])) v =
    Inr (vs @ [t], length (takeWhile (\<lambda>e. varName e \<noteq> v) vs))"
  using assms by (simp add: data_index_def scan_append_stop takeWhile_var[simplified])

lemma readData_wf:
  assumes "wf_data d"
  shows "readData (Some d) v =
    Inr (case var_env (Some d) v of Some x \<Rightarrow> x | None \<Rightarrow> atoi [v])"
  using assms
proof (rule wf_dataE)
  fix vs t
  assume d: "d = vs @ [t]" "varName t = NUL" and v: "\<forall>e \<in> set vs. varName e \<noteq> NUL"
  let ?i = "length (takeWhile (\<lambda>e. varName e \<noteq> v) vs)"
  have "?i < length vs \<Longrightarrow> varName (vs ! ?i) \<noteq> NUL" using v by simp
  moreover have "?i \<le> length vs" by (rule length_takeWhile_le)
  ultimately show ?thesis
    using assms d data_index_wf[of vs t v]
    by (auto simp: readData_def var_env_def map_of_first Let_def nth_append)
qed

lemma writeData_wf:
  assumes "wf_data d"
  shows "\<exists>d'. writeData (Some d) v x = Inr (Some d') \<and> wf_data d' \<and> length d' = length d
    \<and> declared (Some d') = declared (Some d)
    \<and> var_env (Some d') = (if v \<in> dom (var_env (Some d)) then (var_env (Some d))(v \<mapsto> x)
                            else var_env (Some d))"
  using assms
proof (rule wf_dataE)
  fix vs t
  assume d: "d = vs @ [t]" "varName t = NUL" and v: "\<forall>e \<in> set vs. varName e \<noteq> NUL"
  define i where "i = length (takeWhile (\<lambda>e. varName e \<noteq> v) vs)"
  have le: "i \<le> length vs" unfolding i_def by (rule length_takeWhile_le)
  have ix: "data_index (Some d) v = Inr (d, i)"
    using assms d data_index_wf[of vs t v] by (simp add: i_def)
  show ?thesis
  proof (cases "i < length vs")
    case True
    let ?vs = "vs[i := (vs ! i)\<lparr>varValue := x\<rparr>]"
    have "varName (vs ! i) = v" using True nth_length_takeWhile[of "\<lambda>e. varName e \<noteq> v" vs]
      by (simp add: i_def)
    then have names: "map varName ?vs = map varName vs"
      using True by (simp add: map_update list_update_same_conv)
    have nn: "\<forall>e \<in> set ?vs. varName e \<noteq> NUL"
      using v True by (auto dest!: set_update_subset_insert[THEN subsetD])
    have tw: "length (takeWhile (\<lambda>e. varName e \<noteq> u) ?vs) = length (takeWhile (\<lambda>e. varName e \<noteq> u) vs)"
      for u unfolding length_takeWhile_var[symmetric] names ..
    have "map_of (map (\<lambda>e. (varName e, varValue e)) ?vs)
        = (map_of (map (\<lambda>e. (varName e, varValue e)) vs))(v \<mapsto> x)"
    proof
      fix u
      show "map_of (map (\<lambda>e. (varName e, varValue e)) ?vs) u
          = ((map_of (map (\<lambda>e. (varName e, varValue e)) vs))(v \<mapsto> x)) u"
      proof (cases "u = v")
        case True
        with \<open>i < length vs\<close> show ?thesis
          by (simp add: map_of_first Let_def tw i_def[symmetric])
      next
        case False
        let ?j = "length (takeWhile (\<lambda>e. varName e \<noteq> u) vs)"
        have "?j < length vs \<Longrightarrow> varName (vs ! ?j) = u"
          using nth_length_takeWhile[of "\<lambda>e. varName e \<noteq> u" vs] by simp
        with False \<open>varName (vs ! i) = v\<close> have "?j < length vs \<Longrightarrow> ?j \<noteq> i" by auto
        with False show ?thesis
          by (cases "?j < length vs") (simp_all add: map_of_first Let_def tw)
      qed
    qed
    moreover have "v \<in> dom (var_env (Some d))"
      using True d by (simp add: var_env_def map_of_first Let_def i_def dom_def)
    moreover have "writeData (Some d) v x = Inr (Some (?vs @ [t]))"
      using True v d ix by (simp add: writeData_def nth_append list_update_append)
    ultimately show ?thesis
      using nn names d by (intro exI[of _ "?vs @ [t]"]) (simp add: var_env_def declared_def)
  next
    case False
    with le have "i = length vs" by simp
    with d ix have "writeData (Some d) v x = Inr (Some d)" by (simp add: writeData_def)
    moreover have "v \<notin> dom (var_env (Some d))"
      using False d by (simp add: var_env_def map_of_first Let_def i_def dom_def)
    ultimately show ?thesis using assms by simp
  qed
qed

text \<open>The interface the interpreter relies on: reading what was written, in declared variables only.\<close>

locale variable_store =
  fixes ok :: "'d \<Rightarrow> bool"
    and env :: "'d \<Rightarrow> char \<rightharpoonup> s32"
    and rd :: "'d \<Rightarrow> char \<Rightarrow> s32 res"
    and wr :: "'d \<Rightarrow> char \<Rightarrow> s32 \<Rightarrow> 'd res"
  assumes read_env: "ok d \<Longrightarrow> rd d v = Inr (case env d v of Some x \<Rightarrow> x | None \<Rightarrow> atoi [v])"
    and write_env: "ok d \<Longrightarrow> \<exists>d'. wr d v x = Inr d' \<and> ok d'
      \<and> env d' = (if v \<in> dom (env d) then (env d)(v \<mapsto> x) else env d)"
begin

lemma read_total: "ok d \<Longrightarrow> \<exists>x. rd d v = Inr x"
  by (simp add: read_env)

lemma write_total: "ok d \<Longrightarrow> \<exists>d'. wr d v x = Inr d' \<and> ok d' \<and> dom (env d') = dom (env d)"
  using write_env[of d v x] by (auto split: if_splits)

lemma read_after_write:
  assumes "ok d" and "wr d v x = Inr d'"
  shows "rd d' u = (if u = v \<and> v \<in> dom (env d) then Inr x else rd d u)"
proof -
  have "ok d'" "env d' = (if v \<in> dom (env d) then (env d)(v \<mapsto> x) else env d)"
    using write_env[OF assms(1), of v x] assms(2) by auto
  then show ?thesis using assms(1) by (simp add: read_env)
qed

lemma write_undeclared: "ok d \<Longrightarrow> v \<notin> dom (env d) \<Longrightarrow> wr d v x = Inr d' \<Longrightarrow> env d' = env d"
  using write_env[of d v x] by auto

end

definition seg_ready :: "t_data list option \<Rightarrow> bool" where
  "seg_ready data = (case data of None \<Rightarrow> False | Some d \<Rightarrow> wf_data d)"

interpretation ds: variable_store seg_ready var_env readData writeData
proof unfold_locales
  fix d v x
  assume "seg_ready d"
  then obtain e where e: "d = Some e" "wf_data e" by (auto simp: seg_ready_def split: option.splits)
  show "readData d v = Inr (case var_env d v of Some x \<Rightarrow> x | None \<Rightarrow> atoi [v])"
    using e readData_wf by simp
  show "\<exists>d'. writeData d v x = Inr d' \<and> seg_ready d'
      \<and> var_env d' = (if v \<in> dom (var_env d) then (var_env d)(v \<mapsto> x) else var_env d)"
    using e writeData_wf[of e v x] by (auto simp: seg_ready_def)
qed

lemma writeData_declared:
  "seg_ready d \<Longrightarrow> writeData d v x = Inr d' \<Longrightarrow> seg_ready d' \<and> declared d' = declared d"
proof -
  assume "seg_ready d" and w: "writeData d v x = Inr d'"
  then obtain e where "d = Some e" "wf_data e" by (auto simp: seg_ready_def split: option.splits)
  with w writeData_wf[of e v x] show ?thesis by (auto simp: seg_ready_def)
qed

lemma dom_var_env: "dom (var_env data) = set (declared data)"
  by (cases data) (simp_all add: var_env_def declared_def dom_map_of_conv_image_fst image_image)

section \<open>Declaring variables\<close>

text \<open>The names a variable list declares: every other character, from the first.\<close>

fun var_names :: "string \<Rightarrow> char list" where
  "var_names [] = []"
| "var_names [c] = [c]"
| "var_names (c # sep # v) = c # var_names v"

definition var_list_ok :: "string \<Rightarrow> bool" where
  "var_list_ok v \<longleftrightarrow> odd (length v) \<and> NUL \<notin> set (var_names v)"

lemma length_var_names: "length (var_names v) = (length v + 1) div 2"
  by (induction v rule: var_names.induct) auto

lemma store_last_word:
  "n < 65535 \<Longrightarrow> store_last d (word_of_nat n + 1) e = Inr (take n d @ [e])"
proof -
  assume n: "n < 65535"
  then have "unat (word_of_nat n + 1 :: u16) = Suc n"
    by (simp add: unat_word_ariths unat_of_nat take_bit_eq_mod)
  then show ?thesis
    by (metis One_nat_def diff_Suc_1 nat.simps(3) store_last_def unat_0)
qed

lemma addVariables_loop_ok:
  "odd (length v) \<Longrightarrow> length pre + length (var_names v) < 65536 \<Longrightarrow> take (length pre) d = pre
    \<Longrightarrow> addVariables_loop v (of_nat (length pre)) d
      = Inr (of_nat (length pre + length (var_names v)),
             pre @ map (\<lambda>c. \<lparr>varName = c, varValue = 0\<rparr>) (var_names v))"
proof (induction v "of_nat (length pre) :: u16" d arbitrary: pre rule: addVariables_loop.induct)
  case (1 d)
  then show ?case by simp
next
  case (2 c d)
  then show ?case by (simp add: store_last_word)
next
  case (3 c sep v d)
  let ?e = "\<lparr>varName = c, varValue = 0\<rparr> :: t_data"
  have "length v \<noteq> 0" using 3(2) by (cases v) auto
  then have "length (var_names v) > 0" using length_var_names[of v] by (cases v) auto
  then have lt: "length pre < 65535" using 3(3) by simp
  then have s: "store_last d (word_of_nat (length pre) + 1) ?e = Inr (pre @ [?e])"
    using 3(4) by (simp add: store_last_word)
  have "addVariables_loop v (of_nat (length (pre @ [?e]))) (pre @ [?e])
      = Inr (of_nat (length (pre @ [?e]) + length (var_names v)),
             (pre @ [?e]) @ map (\<lambda>c. \<lparr>varName = c, varValue = 0\<rparr>) (var_names v))"
    by (rule 3(1)[where x = "pre @ [?e]"]) (use 3 s in \<open>auto simp: add.commute\<close>)
  then show ?case using s by (simp add: add.commute add.left_commute)
qed

lemma map_of_zero:
  "map_of (map (\<lambda>c. (c, 0 :: s32)) cs) u = (if u \<in> set cs then Some 0 else None)"
  by (induction cs) auto

lemma addVariables_spec:
  assumes ok: "seg_ok data" and v: "var_list_ok v"
    and fits: "length (declared data) + length (var_names v) < 65535"
  shows "\<exists>d'. addVariables data v = Inr (Some d') \<and> wf_data d'
    \<and> declared (Some d') = declared data @ var_names v
    \<and> (\<forall>u. var_env (Some d') u = (case var_env data u of Some x \<Rightarrow> Some x
           | None \<Rightarrow> if u \<in> set (var_names v) then Some 0 else None))"
proof -
  define pre where "pre = (case data of None \<Rightarrow> [] | Some d \<Rightarrow> butlast d)"
  define new where "new = map (\<lambda>c. \<lparr>varName = c, varValue = 0 :: s32\<rparr>) (var_names v)"
  let ?t = "\<lparr>varName = NUL, varValue = 0\<rparr> :: t_data"
  have len: "length pre = length (declared data)" by (auto simp: pre_def declared_def split: option.splits)
  have cnt: "dataCount data = Inr (length pre)"
    using ok dataCount_wf by (cases data) (auto simp: pre_def seg_ok_def dataCount_def)
  let ?d = "case data of None \<Rightarrow> [] | Some d \<Rightarrow> d"
  have tk: "take (length pre) ?d = pre"
    by (auto simp: pre_def butlast_conv_take split: option.splits)
  have lp: "addVariables_loop v (of_nat (length pre)) ?d
      = Inr (of_nat (length pre + length new), pre @ new)"
    using addVariables_loop_ok[of v pre ?d] v fits tk len by (simp add: var_list_ok_def new_def)
  have "store_last (pre @ new) (of_nat (length (pre @ new)) + 1) ?t = Inr (pre @ new @ [?t])"
    using fits len by (subst store_last_word) (simp_all add: new_def)
  then have res: "addVariables data v = Inr (Some ((pre @ new) @ [?t]))"
    using cnt lp by (simp add: addVariables_def)
  have nn: "\<forall>e \<in> set (pre @ new). varName e \<noteq> NUL"
    using ok v by (auto simp: pre_def new_def seg_ok_def wf_data_def var_list_ok_def split: option.splits)
  have env_pre: "map_of (map (\<lambda>e. (varName e, varValue e)) pre) = var_env data"
    by (auto simp: pre_def var_env_def split: option.splits)
  have env_new: "map_of (map (\<lambda>e. (varName e, varValue e)) new) u
      = (if u \<in> set (var_names v) then Some 0 else None)" for u
    by (simp add: new_def comp_def map_of_zero)
  have names: "map varName new = var_names v" by (simp add: new_def comp_def)
  have "map varName pre = declared data" by (simp add: pre_def declared_def split: option.splits)
  then have "declared (Some ((pre @ new) @ [?t])) = declared data @ var_names v"
    by (simp only: declared_snoc map_append names)
  moreover have "var_env (Some ((pre @ new) @ [?t])) u = (case var_env data u of Some x \<Rightarrow> Some x
       | None \<Rightarrow> if u \<in> set (var_names v) then Some 0 else None)" for u
    unfolding var_env_snoc map_append map_add_def[symmetric] map_of_append
    by (simp add: map_add_def env_new env_pre split: option.splits)
  moreover have "wf_data ((pre @ new) @ [?t])" using nn by (simp only: wf_data_snoc) simp
  ultimately show ?thesis using res by blast
qed

section \<open>Cutting a script into lines\<close>

text \<open>The specification: the lines between newlines, each without its comment and trimmed.\<close>

fun split_nl :: "string \<Rightarrow> string list" where
  "split_nl [] = [[]]"
| "split_nl (c # cs) = (if c = NL then [] # split_nl cs
     else (case split_nl cs of [] \<Rightarrow> [[c]] | l # ls \<Rightarrow> (c # l) # ls))"

definition strip_comment :: "string \<Rightarrow> string" where
  "strip_comment l = takeWhile (\<lambda>c. c \<noteq> CHR ''#'') l"

lemma split_nl_not_Nil [simp]: "split_nl s \<noteq> []"
  by (induction s) (auto split: list.splits)

lemma split_nl_unfold:
  "split_nl s = takeWhile (\<lambda>c. c \<noteq> NL) s #
     (if NL \<in> set s then split_nl (drop (Suc (strlenCS s)) s) else [])"
  by (induction s) (auto simp: strlenCS_def)

lemma length_split_nl: "length (split_nl s) \<le> Suc (length s)"
  by (induction s) (auto split: list.splits)

lemma take_line_length: "take (line_length c) c = strip_comment (takeWhile (\<lambda>x. x \<noteq> NL) c)"
  by (induction c) (auto simp: line_length_def strip_comment_def)

lemma strlenCS_less: "strlenCS c < length c \<longleftrightarrow> NL \<in> set c"
  by (induction c) (auto simp: strlenCS_def)

lemma line_length_eq: "line_length c = length c \<longleftrightarrow> NL \<notin> set c \<and> CHR ''#'' \<notin> set c"
  by (induction c) (auto simp: line_length_def)

lemma line_length_le: "line_length c \<le> length c"
  unfolding line_length_def by (rule length_takeWhile_le)

lemma codeSegment_loop_spec:
  "length c < 65536 \<Longrightarrow> unat n + length (split_nl c) < 65535 \<Longrightarrow>
   codeSegment_loop n c segs =
     (if CHR ''#'' \<in> set (last (split_nl c)) then Inl UB
      else Inr (segs @ map (\<lambda>l. string_trim (strip_comment l)) (split_nl c)))"
proof (induction n c segs rule: codeSegment_loop.induct)
  case (1 n c segs)
  have len: "\<not> line_length c > 65535" using 1(2) line_length_le[of c] by simp
  have n1: "unat (n + 1) = Suc (unat n)"
    using 1(3) by (simp add: unat_word_ariths)
  then have nz: "n + 1 \<noteq> 0" by (metis nat.simps(3) unat_0)
  have pos: "length (split_nl c) \<ge> 1" by (cases "split_nl c") auto
  have "unat (n + 1 + 1) = Suc (Suc (unat n))"
    using 1(3) n1 pos by (subst unat_word_ariths) simp
  then have nz2: "n + 1 + 1 \<noteq> 0" by (metis nat.simps(3) unat_0)
  let ?seg = "segs @ [string_trim (take (line_length c) c)]"
  let ?rest = "drop (Suc (strlenCS c)) c"
  consider (whole) "NL \<notin> set c" "CHR ''#'' \<notin> set c" | (more) "NL \<in> set c"
    | (comment) "NL \<notin> set c" "CHR ''#'' \<in> set c" by blast
  then show ?case
  proof cases
    case whole
    have "strip_comment c = c" using whole(2) by (auto simp: strip_comment_def takeWhile_eq_all_conv)
    moreover have "split_nl c = [c]"
      using whole(1) by (subst split_nl_unfold) (auto simp: takeWhile_eq_all_conv)
    moreover have "line_length c = length c" using whole by (simp add: line_length_eq)
    ultimately show ?thesis
      using whole len nz nz2 by (subst codeSegment_loop.simps) (simp add: Let_def)
  next
    case more
    then have sp: "split_nl c = takeWhile (\<lambda>c. c \<noteq> NL) c # split_nl ?rest"
      by (subst split_nl_unfold) simp
    have "codeSegment_loop (n + 1) ?rest ?seg
        = (if CHR ''#'' \<in> set (last (split_nl ?rest)) then Inl UB
           else Inr (?seg @ map (\<lambda>l. string_trim (strip_comment l)) (split_nl ?rest)))"
      using 1(1)[OF refl refl len nz refl] 1(2,3) more n1 sp
      by (simp add: line_length_eq strlenCS_less)
    moreover have "codeSegment_loop n c segs = codeSegment_loop (n + 1) ?rest ?seg"
      using more len nz by (subst codeSegment_loop.simps) (simp add: Let_def line_length_eq strlenCS_less)
    ultimately show ?thesis by (simp add: sp take_line_length)
  next
    case comment
    then have "split_nl c = [c]" by (subst split_nl_unfold) (auto simp: takeWhile_eq_all_conv)
    with comment len nz show ?thesis
      by (subst codeSegment_loop.simps) (simp add: Let_def line_length_eq strlenCS_less)
  qed
qed

lemma codeSegmentCreator_spec:
  assumes "length script \<le> 65533"
  shows "codeSegmentCreator script =
     (if CHR ''#'' \<in> set (last (split_nl script)) then Inl UB
      else Inr (map (\<lambda>l. string_trim (strip_comment l)) (split_nl script)))"
  unfolding codeSegmentCreator_def
  using assms length_split_nl[of script] by (subst codeSegment_loop_spec) simp_all

end
