(* ===== verification/PP_Interp_Rules.thy ===== *)
theory PP_Interp_Rules
  imports PP_Interp PP_Data_Spec
begin

text \<open>
  How the interpreter is reasoned about. \<open>post u Q m\<close> says that \<open>m\<close> is a fault that \<open>u\<close> tolerates
  (undefined behaviour only if \<open>u\<close>) or a value with \<open>Q\<close>. The locale \<open>exec_invariant\<close> is the contract
  between the loops and an invariant: what has to hold of one round, of a call and of a return,
  with the list \<open>fr\<close> of the function activations that wait for the running one. Its lemmas carry
  the invariant through \<open>functionExecution\<close>, \<open>processLoop\<close> and \<open>processExecution\<close>.
\<close>

section \<open>Postconditions\<close>

definition post :: "bool \<Rightarrow> ('a \<Rightarrow> bool) \<Rightarrow> 'a res \<Rightarrow> bool" where
  "post u Q m = (case m of Inl e \<Rightarrow> u \<or> e \<noteq> UB | Inr x \<Rightarrow> Q x)"

lemma post_Inl [simp]: "post u Q (Inl e) \<longleftrightarrow> u \<or> e \<noteq> UB"
  by (simp add: post_def)

lemma post_Inr [simp]: "post u Q (Inr x) \<longleftrightarrow> Q x"
  by (simp add: post_def)

lemma post_trivial [simp]: "post True (\<lambda>_. True) m"
  by (cases m) auto

lemma post_bindE [simp]: "post u Q (bindE m f) \<longleftrightarrow> post u (\<lambda>x. post u Q (f x)) m"
  by (cases m) auto

lemma post_mono: "post u Q m \<Longrightarrow> (\<And>x. m = Inr x \<Longrightarrow> Q x \<Longrightarrow> Q' x) \<Longrightarrow> post u Q' m"
  by (cases m) auto

lemma post_True_iff: "post True Q m \<longleftrightarrow> (\<forall>x. m = Inr x \<longrightarrow> Q x)"
  by (cases m) auto

lemma post_False_safe: "post False Q m \<Longrightarrow> safe m"
  by (cases m) auto

lemma post_conjI: "post u Q m \<Longrightarrow> post u' Q' m \<Longrightarrow> post (u \<and> u') (\<lambda>x. Q x \<and> Q' x) m"
  by (cases m) auto

lemma post_if: "(b \<Longrightarrow> post u Q m) \<Longrightarrow> (\<not> b \<Longrightarrow> post u Q m') \<Longrightarrow> post u Q (if b then m else m')"
  by simp

lemma post_plain [simp]: "post u Q (plain m) \<longleftrightarrow> post u (\<lambda>st. Q (st, None)) m"
  by (simp add: plain_def)

text \<open>What holds after every instruction holds after a round of either loop.\<close>

lemma main_instr_post:
  assumes "Q st None" and "\<And>f. Q st (Some f)"
    and "post True (\<lambda>x. Q x None) (ins_variables line st)" and "post True (\<lambda>x. Q x None) (ins_imprimir line st)"
    and "post True (\<lambda>x. Q x None) (ins_ssc code line st)" and "post True (\<lambda>x. Q x None) (ins_snc code line st)"
    and "post True (\<lambda>x. Q x None) (ins_assign line st)" and "post True (\<lambda>x. Q x None) (ins_io_assign_main self line st)"
    and "\<And>width PC. post True (\<lambda>x. Q x None) (ins_io width self line PC st)"
  shows "post True (\<lambda>(st', call). Q st' call) (main_instr code self line st)"
  unfolding main_instr_def using assms by (simp add: post_True_iff[of _ "cchar line 1"])

lemma func_instr_post:
  assumes "Q st None" and "\<And>f. Q st (Some f)"
    and "post True (\<lambda>x. Q x None) (ins_imprimir line st)" and "post True (\<lambda>x. Q x None) (ins_assign line st)"
    and "post True (\<lambda>x. Q x None) (ins_io_assign_func self line PC st)"
    and "\<And>width PC. post True (\<lambda>x. Q x None) (ins_io width self line PC st)"
  shows "post True (\<lambda>(st', call). Q st' call) (func_instr self line PC st)"
  unfolding func_instr_def using assms by (simp add: post_True_iff[of _ "cchar line 1"])

section \<open>Stack operations\<close>

lemma set_stack_same [simp]: "set_stack (piStack (img st)) st = st"
  by simp

lemma stack_get_snoc [simp]: "stack_get (s @ [el]) = Inr (Some el, s)"
  by (simp add: stack_get_def ls_remove_def)

lemma reorderStack_snoc [simp]: "reorderStack (s @ [e]) el = Inr (el # s, e)"
  by (simp add: reorderStack_def)

lemma stackExecution_snoc:
  "piStack (img st) = s @ [el] \<Longrightarrow> stackExecution fexec st = fexec el (set_stack s st)"
  by (simp add: stackExecution_def)

lemma stackExecution_Nil: "piStack (img st) = [] \<Longrightarrow> stackExecution fexec st = Inr st"
  by (simp add: stackExecution_def)

text \<open>A call pushes the new element and runs it on the stack it found.\<close>

lemma call_function_eq:
  "call_function code fexec f PC st =
     bindE (findFunctionLine code f) (\<lambda>p. fexec \<lparr>functionName = f, stPC = p, linecall = PC\<rparr> st)"
  by (simp add: call_function_def stackExecution_def ls_add_def)

text \<open>Why the loop of \<open>processExecution\<close> ended: the last line, or an interruption.\<close>

definition exited :: "string list \<Rightarrow> xstate \<Rightarrow> bool" where
  "exited code st \<longleftrightarrow> (case code_line code (piPC (img st)) of
     Inl _ \<Rightarrow> False | Inr line \<Rightarrow> line = ''fin_programa'' \<or> \<not> running st)"

section \<open>The contract of an invariant\<close>

locale exec_invariant =
  fixes u :: bool
    and code :: "string list"
    and self :: addr
    and env :: environment
    and M :: "xstate \<Rightarrow> bool"
    and F :: "t_stack \<Rightarrow> t_stack list \<Rightarrow> xstate \<Rightarrow> bool"
    and R :: "t_stack list \<Rightarrow> xstate \<Rightarrow> bool"
  assumes F_env: "F el fr st \<Longrightarrow> F el fr (interfere env st)"
    and F_line: "F el fr st \<Longrightarrow> post u (\<lambda>_. True) (code_line code (stPC el))"
    and F_step: "F el fr st \<Longrightarrow> code_line code (stPC el) = Inr line \<Longrightarrow> \<not> at_end line el \<Longrightarrow> running st
      \<Longrightarrow> el1 = el\<lparr>stPC := stPC el + 1\<rparr>
      \<Longrightarrow> post u (\<lambda>l. post u (\<lambda>(st1, call). case call of None \<Rightarrow> F el1 fr st1
            | Some f \<Rightarrow> post u (\<lambda>p. F \<lparr>functionName = f, stPC = p, linecall = stPC el1\<rparr> (el1 # fr) st1)
                (findFunctionLine code f))
            (func_instr self l (stPC el1) st)) (code_line code (stPC el1))"
    and F_return: "R (el # fr) st \<Longrightarrow> piStack (img st) = [] \<Longrightarrow> F el fr st"
    and F_reorder: "R (el # fr) st \<Longrightarrow> piStack (img st) = s @ [el2] \<Longrightarrow> F el2 fr (set_stack (el # s) st)"
    and F_end: "F el fr st \<Longrightarrow> code_line code (stPC el) = Inr line \<Longrightarrow> at_end line el \<Longrightarrow> R fr st"
    and F_stop: "F el fr st \<Longrightarrow> code_line code (stPC el) = Inr line \<Longrightarrow> \<not> at_end line el
      \<Longrightarrow> \<not> running st \<Longrightarrow> R fr (set_stack (piStack (img st) @ [el]) st)"
    and M_env: "M st \<Longrightarrow> M (interfere env st)"
    and M_line: "M st \<Longrightarrow> post u (\<lambda>_. True) (code_line code (piPC (img st)))"
    and M_resume: "M st \<Longrightarrow> piStack (img st) = s @ [el] \<Longrightarrow> F el [] (set_stack s st)"
    and M_step: "M st \<Longrightarrow> piStack (img st) = [] \<Longrightarrow> code_line code (piPC (img st)) = Inr line
      \<Longrightarrow> line \<noteq> ''fin_programa'' \<Longrightarrow> running st \<Longrightarrow> st1 = set_PC (piPC (img st) + 1) st
      \<Longrightarrow> post u (\<lambda>l. post u (\<lambda>(st2, call). case call of None \<Rightarrow> M st2
            | Some f \<Rightarrow> post u (\<lambda>p. F \<lparr>functionName = f, stPC = p, linecall = piPC (img st2)\<rparr> [] st2)
                (findFunctionLine code f))
            (main_instr code self l st1)) (code_line code (piPC (img st1)))"
    and R_M: "R [] st \<Longrightarrow> M st"
begin

lemma functionExecution_post: "F el fr st \<Longrightarrow> post u (R fr) (functionExecution n code self env el st)"
proof (induction n arbitrary: el fr st)
  case 0
  then show ?case by simp
next
  case (Suc n)
  define st' where "st' = interfere env st"
  have F: "F el fr st'" unfolding st'_def by (rule F_env[OF Suc.prems])
  have "post u (R fr) (functionExecution (Suc n) code self env el st)" if "code_line code (stPC el) = Inr line" for line
  proof -
    consider (fin) "at_end line el" | (stop) "\<not> at_end line el" "\<not> running st'"
      | (go) "\<not> at_end line el" "running st'" by blast
    then show ?thesis
    proof cases
      case fin
      then show ?thesis using that F_end[OF F that fin] by (simp add: st'_def[symmetric])
    next
      case stop
      then show ?thesis using that F_stop[OF F that stop] by (simp add: st'_def[symmetric] ls_add_def)
    next
      case go
      define el1 where "el1 = el\<lparr>stPC := stPC el + 1\<rparr>"
      define after where "after = (\<lambda>st2. if piStack (img st2) \<noteq> [] then
            bindE (reorderStack (piStack (img st2)) el1) (\<lambda>(s, el2).
              functionExecution n code self env el2 (set_stack s st2))
          else functionExecution n code self env el1 st2)"
      have ret: "post u (R fr) (after st2)" if "R (el1 # fr) st2" for st2
      proof (cases "piStack (img st2)" rule: rev_cases)
        case Nil
        then show ?thesis using Suc.IH[OF F_return[OF that Nil]] by (simp add: after_def)
      next
        case (snoc s el2)
        then show ?thesis using Suc.IH[OF F_reorder[OF that snoc]] by (simp add: after_def)
      qed
      have run: "post u (R fr) (case x of (st1, call) \<Rightarrow> (case call of
               None \<Rightarrow> functionExecution n code self env el1 st1
             | Some f \<Rightarrow> bindE (call_function code (functionExecution n code self env) f (stPC el1) st1) after))"
        if "case x of (st1, call) \<Rightarrow> (case call of None \<Rightarrow> F el1 fr st1
            | Some f \<Rightarrow> post u (\<lambda>p. F \<lparr>functionName = f, stPC = p, linecall = stPC el1\<rparr> (el1 # fr) st1)
                (findFunctionLine code f))" for x
        using that
        by (auto simp: call_function_eq Suc.IH split: option.splits
            intro: post_mono elim!: post_mono intro!: post_mono[OF Suc.IH ret])
      have "post u (\<lambda>l. post u (\<lambda>x. post u (R fr) (case x of (st1, call) \<Rightarrow> (case call of
               None \<Rightarrow> functionExecution n code self env el1 st1
             | Some f \<Rightarrow> bindE (call_function code (functionExecution n code self env) f (stPC el1) st1) after)))
          (func_instr self l (stPC el1) st')) (code_line code (stPC el1))"
        by (rule post_mono[OF F_step[OF F that go el1_def]], erule post_mono, erule run)
      then show ?thesis using that go by (simp add: Let_def st'_def[symmetric] el1_def[symmetric] after_def[symmetric])
    qed
  qed
  then show ?case using F_line[OF F] by (cases "code_line code (stPC el)") simp_all
qed

lemma processLoop_post:
  "M st \<Longrightarrow> post u (\<lambda>st'. M st' \<and> exited code st') (processLoop n code self env st)"
proof (induction n arbitrary: st)
  case 0
  then show ?case by simp
next
  case (Suc n)
  define st' where "st' = interfere env st"
  have M: "M st'" unfolding st'_def by (rule M_env[OF Suc.prems])
  have again: "post u (\<lambda>st'. M st' \<and> exited code st')
      (bindE (functionExecution n code self env el st2) (processLoop n code self env))"
    if "F el [] st2" for el st2
    by (simp, rule post_mono[OF functionExecution_post[OF that]], rule Suc.IH, rule R_M)
  have "post u (\<lambda>st'. M st' \<and> exited code st') (processLoop (Suc n) code self env st)"
    if line: "code_line code (piPC (img st')) = Inr line" for line
  proof -
    consider (out) "line = ''fin_programa'' \<or> \<not> running st'"
      | (stack) s el where "line \<noteq> ''fin_programa''" "running st'" "piStack (img st') = s @ [el]"
      | (go) "line \<noteq> ''fin_programa''" "running st'" "piStack (img st') = []"
      by (cases "piStack (img st')" rule: rev_cases) auto
    then show ?thesis
    proof cases
      case out
      then show ?thesis using line M by (auto simp: st'_def[symmetric] exited_def)
    next
      case stack
      then show ?thesis using line again[OF M_resume[OF M stack(3)]]
        by (simp add: st'_def[symmetric] stackExecution_snoc)
    next
      case go
      define st1 where "st1 = set_PC (piPC (img st') + 1) st'"
      have run: "post u (\<lambda>st'. M st' \<and> exited code st') (case x of (st2, call) \<Rightarrow> (case call of
               None \<Rightarrow> processLoop n code self env st2
             | Some f \<Rightarrow> bindE (call_function code (functionExecution n code self env) f (piPC (img st2)) st2)
                (processLoop n code self env)))"
        if "case x of (st2, call) \<Rightarrow> (case call of None \<Rightarrow> M st2
            | Some f \<Rightarrow> post u (\<lambda>p. F \<lparr>functionName = f, stPC = p, linecall = piPC (img st2)\<rparr> [] st2)
                (findFunctionLine code f))" for x
        using that again
        by (auto simp: call_function_eq split: option.splits elim!: post_mono intro!: Suc.IH)
      have "post u (\<lambda>l. post u (\<lambda>x. post u (\<lambda>st'. M st' \<and> exited code st') (case x of (st2, call) \<Rightarrow> (case call of
               None \<Rightarrow> processLoop n code self env st2
             | Some f \<Rightarrow> bindE (call_function code (functionExecution n code self env) f (piPC (img st2)) st2)
                (processLoop n code self env))))
          (main_instr code self l st1)) (code_line code (piPC (img st1)))"
        by (rule post_mono[OF M_step[OF M go(3) line go(1,2) st1_def]], erule post_mono, erule run)
      then show ?thesis using go line by (simp add: Let_def st'_def[symmetric] st1_def[symmetric])
    qed
  qed
  then show ?case using M_line[OF M] by (cases "code_line code (piPC (img st'))") (simp_all add: st'_def)
qed

lemma processExecution_post:
  "M st \<Longrightarrow> post u (\<lambda>st'. M st' \<and> exited code st') (processExecution n code self env st)"
proof (cases "piStack (img st)" rule: rev_cases)
  assume M: "M st"
  case Nil
  then show ?thesis using processLoop_post[OF M] by (simp add: processExecution_def stackExecution_Nil)
next
  case (snoc s el)
  assume M: "M st"
  have "post u (\<lambda>x. post u (\<lambda>st'. M st' \<and> exited code st') (processLoop n code self env x))
      (functionExecution n code self env el (set_stack s st))"
    by (rule post_mono[OF functionExecution_post[OF M_resume[OF M snoc]]])
      (rule processLoop_post, rule R_M)
  then show ?thesis by (simp add: processExecution_def stackExecution_snoc[OF snoc])
qed

end

text \<open>An invariant that holds under a condition, as one that tolerates everything without it.\<close>

lemma conditional_invariant:
  assumes "A \<Longrightarrow> exec_invariant u code self env M F R"
  shows "exec_invariant (u \<or> \<not> A) code self env (\<lambda>st. A \<longrightarrow> M st) (\<lambda>el fr st. A \<longrightarrow> F el fr st)
    (\<lambda>fr st. A \<longrightarrow> R fr st)"
proof (cases A)
  case True
  with assms show ?thesis by simp
next
  case False
  then have "exec_invariant True code self env (\<lambda>st. True) (\<lambda>el fr st. True) (\<lambda>fr st. True)"
    by unfold_locales (simp_all add: post_True_iff split: option.splits)
  with False show ?thesis by simp
qed

section \<open>What an execution does to a state\<close>

text \<open>
  A reflexive and transitive relation that every instruction respects, and the interference, holds
  between the state an execution starts from and the one it ends in.
\<close>

locale exec_relation =
  fixes env :: environment
    and self :: addr
    and Rel :: "xstate \<Rightarrow> xstate \<Rightarrow> bool"
  assumes refl: "Rel st st"
    and trans: "Rel st st1 \<Longrightarrow> Rel st1 st2 \<Longrightarrow> Rel st st2"
    and of_stack: "Rel st (set_stack k st)"
    and of_PC: "Rel st (set_PC p st)"
    and of_env: "Rel st (interfere env st)"
    and main: "post True (\<lambda>(st', call). Rel st st') (main_instr code self line st)"
    and func: "post True (\<lambda>(st', call). Rel st st') (func_instr self line PC st)"
begin

lemma invariant: "exec_invariant True code self env (Rel st0) (\<lambda>_ _. Rel st0) (\<lambda>_. Rel st0)"
proof unfold_locales
  fix el fr line and st :: xstate and el1 :: t_stack
  assume st: "Rel st0 st"
  show "post True (\<lambda>l. post True (\<lambda>(st1, call). case call of None \<Rightarrow> Rel st0 st1
            | Some f \<Rightarrow> post True (\<lambda>p. Rel st0 st1) (findFunctionLine code f))
            (func_instr self l (stPC el1) st)) (code_line code (stPC el1))"
    using func[of st _ "stPC el1"] trans[OF st] by (fastforce simp: post_True_iff split: option.splits)
next
  fix line and st st1 :: xstate
  assume st: "Rel st0 st" and st1: "st1 = set_PC (piPC (img st) + 1) st"
  have "Rel st0 st1" unfolding st1 by (rule trans[OF st of_PC])
  then show "post True (\<lambda>l. post True (\<lambda>(st2, call). case call of None \<Rightarrow> Rel st0 st2
            | Some f \<Rightarrow> post True (\<lambda>p. Rel st0 st2) (findFunctionLine code f))
            (main_instr code self l st1)) (code_line code (piPC (img st1)))"
    using main[of st1 code] trans[of st0 st1] by (fastforce simp: post_True_iff split: option.splits)
qed (auto simp: post_True_iff intro: trans of_stack of_env)

lemma execution: "processExecution n code self env st = Inr st' \<Longrightarrow> Rel st st'"
  using exec_invariant.processExecution_post[OF invariant[of code st], of st n] refl by simp

end

end
