(* ===== verification/PP_Interp_Spec.thy ===== *)
theory PP_Interp_Spec
  imports PP_Interp_Rules
begin

text \<open>
  What the interpreter guarantees: the effect of every instruction on the control state, the
  quantum, the shape of the saved stack, the reading of an expression, and the conditions on a
  script under which its execution has no undefined behaviour.
\<close>

section \<open>Effect of an instruction on the control state\<close>

definition effect :: "xstate \<Rightarrow> xstate \<Rightarrow> bool" where
  "effect st st' \<longleftrightarrow> piStack (img st') = piStack (img st) \<and> pid (img st') = pid (img st)
     \<and> clientfd (img st') = clientfd (img st) \<and> priority (img st') = priority (img st)
     \<and> piCode (img st') = piCode (img st) \<and> Tspn (img st') = Tspn (img st)
     \<and> quantum (sh st') = quantum (sh st) \<and> SUSPEND (sh st') = SUSPEND (sh st)
     \<and> ALG (sh st') = ALG (sh st) \<and> SENT_TIME (sh st') = SENT_TIME (sh st) \<and> tick st' = tick st
     \<and> (quantumCount st' = quantumCount st
        \<or> ALG (sh st) = ''RR'' \<and> quantumCount st' = quantumCount st + 1)
     \<and> (piPC (img st') = piPC (img st)
        \<or> quantumCount st' = quantumCount st + (if ALG (sh st) = ''RR'' then 1 else 0))"

lemma effect_refl [simp]: "effect st st"
  by (simp add: effect_def)

lemmas piece_defs = do_sleep_def charge_def send_N_def push_LPB_def

lemma effect_pieces:
  "effect st (set_data d st)" "effect st (send_N t st)" "effect st (do_sleep x st)"
  "effect st (push_LPB self y nb st)" "effect st (st\<lparr>ioBlockInterrupt := True\<rparr>)"
  "effect st (charge st)"
  by (simp_all add: effect_def piece_defs)

text \<open>Instructions are compositions of pieces, one \<open>charge\<close> at most, at the end.\<close>

definition quiet :: "xstate \<Rightarrow> xstate \<Rightarrow> bool" where
  "quiet st st' \<longleftrightarrow> effect st st' \<and> quantumCount st' = quantumCount st \<and> piPC (img st') = piPC (img st)"

lemma quiet_pieces [simp]:
  "quiet st st" "quiet st (set_data d st)" "quiet st (send_N t st)" "quiet st (do_sleep x st)"
  "quiet st (push_LPB self y nb st)" "quiet st (st\<lparr>ioBlockInterrupt := True\<rparr>)"
  by (simp_all add: quiet_def effect_pieces) (simp_all add: piece_defs)

lemma quiet_trans: "quiet st st1 \<Longrightarrow> quiet st1 st2 \<Longrightarrow> quiet st st2"
  by (auto simp: quiet_def effect_def)

lemma quiet_steps:
  "quiet st st1 \<Longrightarrow> quiet st (set_data d st1)" "quiet st st1 \<Longrightarrow> quiet st (send_N t st1)"
  "quiet st st1 \<Longrightarrow> quiet st (do_sleep x st1)" "quiet st st1 \<Longrightarrow> quiet st (push_LPB self y nb st1)"
  "quiet st st1 \<Longrightarrow> quiet st (st1\<lparr>ioBlockInterrupt := True\<rparr>)"
  by (erule quiet_trans, simp)+

lemma quiet_charge: "quiet st st1 \<Longrightarrow> effect st (charge st1)"
  by (auto simp: quiet_def effect_def charge_def)

lemma quiet_effect: "quiet st st1 \<Longrightarrow> effect st st1"
  by (simp add: quiet_def)

lemma jump_charge: "jump_if b code line st = Inr st1 \<Longrightarrow> quiet st1 st2 \<Longrightarrow> effect st (charge st2)"
  by (auto simp: jump_if_def quiet_def effect_def charge_def res_simps split: if_splits)

lemma store_result_quiet: "quiet st st1 \<Longrightarrow> store_result line x st1 = Inr st2 \<Longrightarrow> quiet st st2"
  by (auto simp: store_result_def res_simps intro: quiet_steps)

lemma ins_effect:
  "post True (effect st) (ins_variables line st)"
  "post True (effect st) (ins_imprimir line st)"
  "post True (effect st) (ins_ssc code line st)"
  "post True (effect st) (ins_snc code line st)"
  "post True (effect st) (ins_assign line st)"
  "post True (effect st) (ins_io_assign_main self line st)"
  "post True (effect st) (ins_io_assign_func self line PC st)"
  "post True (effect st) (ins_io width self line PC st)"
proof -
  show "post True (effect st) (ins_variables line st)" "post True (effect st) (ins_imprimir line st)"
    by (auto simp: ins_variables_def ins_imprimir_def post_True_iff res_simps effect_pieces)
  show "post True (effect st) (ins_ssc code line st)" "post True (effect st) (ins_snc code line st)"
    by (auto simp: ins_ssc_def ins_snc_def post_True_iff res_simps Let_def
        intro: jump_charge quiet_steps quiet_pieces)
  show "post True (effect st) (ins_assign line st)"
    by (auto simp: ins_assign_def post_True_iff res_simps Let_def intro!: quiet_charge quiet_steps)
  show "post True (effect st) (ins_io width self line PC st)"
    by (auto simp: ins_io_def post_True_iff res_simps intro!: quiet_effect quiet_steps split: if_splits)
  show "post True (effect st) (ins_io_assign_main self line st)"
    "post True (effect st) (ins_io_assign_func self line PC st)"
    by (auto simp: ins_io_assign_main_def ins_io_assign_func_def post_True_iff res_simps Let_def
        intro!: quiet_charge quiet_steps intro: store_result_quiet[OF quiet_pieces(1)]
          store_result_quiet[OF quiet_pieces(5)] split: if_splits)
qed

lemma main_instr_effect: "post True (\<lambda>(st', call). effect st st') (main_instr code self line st)"
  by (intro main_instr_post ins_effect) (simp_all add: effect_def)

lemma func_instr_effect: "post True (\<lambda>(st', call). effect st st') (func_instr self line PC st)"
  by (intro func_instr_post ins_effect) (simp_all add: effect_def)

lemma interfere_simps [simp]:
  "img (interfere env st) = img st" "ioBlockInterrupt (interfere env st) = ioBlockInterrupt st"
  "quantumCount (interfere env st) = quantumCount st"
  "sh (interfere env st) = env (tick st) (sh st)" "slept (interfere env st) = slept st"
  by (simp_all add: interfere_def)

lemma running_set_stack [simp]: "running (set_stack s st) = running st"
  by (simp add: running_def)

section \<open>The quantum\<close>

definition keeps_quantum :: "environment \<Rightarrow> bool" where
  "keeps_quantum env \<longleftrightarrow> (\<forall>k s. quantum (env k s) = quantum s)"

definition within_quantum :: "xstate \<Rightarrow> bool" where
  "within_quantum st \<longleftrightarrow> quantumCount st \<le> quantum (sh st)"

lemma effect_within: "effect st st' \<Longrightarrow> running st \<Longrightarrow> within_quantum st'"
  by (auto simp: effect_def running_def within_quantum_def)

lemma effect_set_PC: "effect (set_PC p st) st' \<Longrightarrow> running st \<Longrightarrow> within_quantum st'"
  by (auto simp: effect_def running_def within_quantum_def)

lemma quantum_invariant:
  assumes "keeps_quantum env"
  shows "exec_invariant True code self env within_quantum (\<lambda>_ _. within_quantum) (\<lambda>_. within_quantum)"
proof unfold_locales
  fix el fr st line and el1 :: t_stack
  assume st: "running st"
  show "post True (\<lambda>l. post True (\<lambda>(st1, call). case call of None \<Rightarrow> within_quantum st1
            | Some f \<Rightarrow> post True (\<lambda>p. within_quantum st1) (findFunctionLine code f))
            (func_instr self l (stPC el1) st)) (code_line code (stPC el1))"
    using func_instr_effect[of st self _ "stPC el1"] effect_within[OF _ st]
    by (fastforce simp: post_True_iff split: option.splits)
next
  fix st line st1
  assume st: "running st" and st1: "st1 = set_PC (piPC (img st) + 1) st"
  show "post True (\<lambda>l. post True (\<lambda>(st2, call). case call of None \<Rightarrow> within_quantum st2
            | Some f \<Rightarrow> post True (\<lambda>p. within_quantum st2) (findFunctionLine code f))
            (main_instr code self l st1)) (code_line code (piPC (img st1)))"
    using main_instr_effect[of st1 code self] effect_set_PC[OF _ st] st1
    by (fastforce simp: post_True_iff split: option.splits)
qed (use assms in \<open>auto simp: within_quantum_def keeps_quantum_def post_True_iff\<close>)

section \<open>Executions without undefined behaviour\<close>

text \<open>
  What a script has to satisfy: every sentence has the arguments its instruction reads, every call
  names a function that begins and ends, the declaration of the variables stands on one line \<open>V\<close>
  before all labels, and jumps lead to labels between \<open>V\<close> and the first \<open>fin_programa\<close>, on line \<open>L\<close>.
\<close>

definition second_char :: "string \<Rightarrow> char" where
  "second_char line = (if 1 < length line then line ! 1 else NUL)"

definition call_ok :: "string list \<Rightarrow> string \<Rightarrow> bool" where
  "call_ok code f \<longleftrightarrow> (case findFunctionLine code f of Inl _ \<Rightarrow> False | Inr p \<Rightarrow>
     (\<exists>e < length code. unat p \<le> e \<and> string_starts_with (code ! e) ''fin_funcion''
        \<and> string_ends_with (code ! e) f))"

definition func_line_ok :: "string list \<Rightarrow> string \<Rightarrow> bool" where
  "func_line_ok code line \<longleftrightarrow> is_skip line \<or>
     (if string_starts_with line ''imprimir'' then 9 \<le> length line
      else if second_char line = CHR ''='' then
        (string_starts_with (drop 2 line) ''io('' \<longrightarrow> CHR '','' \<in> set (drop 5 line))
      else if string_starts_with line ''io('' then CHR '','' \<in> set (drop 3 line)
      else string_ends_with line ''()'' \<longrightarrow> call_ok code (call_name line))"

definition jump_ok :: "string list \<Rightarrow> nat \<Rightarrow> nat \<Rightarrow> string \<Rightarrow> bool" where
  "jump_ok code V L tag \<longleftrightarrow> (case changePC code tag of Inl _ \<Rightarrow> False | Inr p \<Rightarrow> V \<le> unat p \<and> unat p \<le> L)"

definition main_line_ok :: "string list \<Rightarrow> nat \<Rightarrow> nat \<Rightarrow> string \<Rightarrow> bool" where
  "main_line_ok code V L line \<longleftrightarrow> is_skip line \<or>
     \<not> string_starts_with line ''variables''
     \<and> (string_starts_with line ''ssc'' \<or> string_starts_with line ''snc''
          \<longrightarrow> 6 \<le> length line \<and> jump_ok code V L (drop 6 line))"

definition inert :: "string \<Rightarrow> bool" where
  "inert line \<longleftrightarrow> is_skip line \<or>
     \<not> string_starts_with line ''variables'' \<and> \<not> string_starts_with line ''imprimir''
     \<and> \<not> string_starts_with line ''ssc'' \<and> \<not> string_starts_with line ''snc''
     \<and> second_char line \<noteq> CHR ''='' \<and> \<not> string_starts_with line ''io(''
     \<and> \<not> string_ends_with line ''()''"

definition declaration_ok :: "string \<Rightarrow> bool" where
  "declaration_ok line \<longleftrightarrow> string_starts_with line ''variables'' \<and> \<not> is_skip line \<and> 10 \<le> length line
     \<and> var_list_ok (drop 10 line) \<and> int (length (var_names (drop 10 line))) < 65535"

definition wf_code :: "string list \<Rightarrow> nat \<Rightarrow> nat \<Rightarrow> bool" where
  "wf_code code V L \<longleftrightarrow> int (length code) \<le> 65535 \<and> 0 < V \<and> V < L \<and> L < length code
     \<and> code ! L = ''fin_programa'' \<and> (\<forall>i < L. code ! i \<noteq> ''fin_programa'')
     \<and> (\<forall>line \<in> set code. func_line_ok code line) \<and> declaration_ok (code ! V)
     \<and> (\<forall>i < V. 0 < i \<longrightarrow> inert (code ! i))
     \<and> (\<forall>i < Suc L. V < i \<longrightarrow> main_line_ok code V L (code ! i))"

definition frame_ok :: "string list \<Rightarrow> t_stack \<Rightarrow> bool" where
  "frame_ok code el \<longleftrightarrow> (\<exists>e < length code. unat (stPC el) \<le> e \<and> at_end (code ! e) el)"

text \<open>
  The image: before line \<open>V\<close> it has no data segment and no activation, from then on a data segment
  in order; saved activations end somewhere.
\<close>

definition image_ok :: "string list \<Rightarrow> nat \<Rightarrow> nat \<Rightarrow> t_ProcessImage \<Rightarrow> bool" where
  "image_ok code V L i \<longleftrightarrow> unat (piPC i) \<le> L \<and> (\<forall>el \<in> set (piStack i). frame_ok code el)
     \<and> (if unat (piPC i) < V then piData i = None \<and> piStack i = [] else seg_ready (piData i))"

definition ready :: "xstate \<Rightarrow> bool" where
  "ready st \<longleftrightarrow> seg_ready (piData (img st))"

definition keeps :: "xstate \<Rightarrow> xstate \<Rightarrow> bool" where
  "keeps st st' \<longleftrightarrow> ready st' \<and> piPC (img st') = piPC (img st) \<and> piStack (img st') = piStack (img st)"

lemma read_ready: "ready st \<Longrightarrow> \<exists>x. readData (piData (img st)) v = Inr x"
  unfolding ready_def by (rule ds.read_total)

lemma store_ready: "ready st \<Longrightarrow> \<exists>d. writeData (piData (img st)) v x = Inr d \<and> seg_ready d"
  unfolding ready_def using ds.write_total by blast

lemma keeps_pieces [simp]:
  "keeps st (send_N t st') = keeps st st'" "keeps st (do_sleep x st') = keeps st st'"
  "keeps st (push_LPB self y nb st') = keeps st st'"
  "keeps st (st'\<lparr>ioBlockInterrupt := b\<rparr>) = keeps st st'" "keeps st (charge st') = keeps st st'"
  by (simp_all add: keeps_def ready_def piece_defs)

lemma ready_pieces [simp]:
  "ready (send_N t st) = ready st" "ready (push_LPB self y nb st) = ready st"
  "ready (interfere env st) = ready st" "ready (set_PC p st) = ready st"
  "ready (set_stack s st) = ready st"
  by (simp_all add: ready_def piece_defs)

lemma keeps_refl [simp]: "keeps st st = ready st"
  by (simp add: keeps_def)

lemma keeps_set_data: "seg_ready d \<Longrightarrow> keeps st (set_data d st)"
  by (simp add: keeps_def ready_def)

lemma operand_total: "seg_ready d \<Longrightarrow> \<exists>x. operand_value d aux = Inr x"
  using ds.read_total[of d] by (auto simp: operand_value_def)

lemma eval_expr_total: "seg_ready d \<Longrightarrow> \<exists>x rest. eval_expr d acc s = Inr (x, rest)"
proof (induction d acc s rule: eval_expr.induct)
  case (2 d acc op s)
  then obtain v where "operand_value d (takeWhile operand_char s) = Inr v"
    using operand_total by blast
  with 2 show ?case by auto
qed simp

lemma store_result_keeps: "ready st \<Longrightarrow> post False (keeps st) (store_result line x st)"
  using store_ready[of st "if line = [] then NUL else hd line" x]
  by (cases line) (auto simp: store_result_def cchar_def keeps_set_data)

lemma write_keeps:
  "ready st \<Longrightarrow> post False (\<lambda>d. keeps st (set_data d st)) (writeData (piData (img st)) v x)"
  using store_ready[of st v x] by (auto simp: keeps_set_data)

lemma second_char_eq: "line \<noteq> [] \<Longrightarrow> cchar line 1 = Inr (second_char line)"
  by (cases line) (auto simp: cchar_def second_char_def)

lemma io_args_ok:
  "CHR '','' \<in> set (drop k line) \<Longrightarrow> \<exists>t f. io_args k line = Inr (t, f)"
proof -
  assume m: "CHR '','' \<in> set (drop k line)"
  then have "k \<le> length line" by (cases "k \<le> length line") auto
  moreover obtain i where i: "scan (\<lambda>c. c = CHR '','') (drop k line) = Inr i"
    using scan_ex[OF m, of "\<lambda>c. c = CHR '',''"] by auto
  moreover have "i + 1 \<le> length (drop k line)" using scan_InrD[OF i] by simp
  then obtain c where "cchar (drop k line) (i + 1) = Inr c"
    using cchar_ex by blast
  ultimately show ?thesis by (simp add: io_args_def)
qed

lemma ins_keeps:
  assumes "ready st"
  shows "9 \<le> length line \<Longrightarrow> post False (keeps st) (ins_imprimir line st)"
    and "line \<noteq> [] \<Longrightarrow> post False (keeps st) (ins_assign line st)"
    and "CHR '','' \<in> set (drop 5 line) \<Longrightarrow> post False (keeps st) (ins_io_assign_main self line st)"
    and "CHR '','' \<in> set (drop 5 line) \<Longrightarrow> post False (keeps st) (ins_io_assign_func self line PC st)"
    and "CHR '','' \<in> set (drop 3 line) \<Longrightarrow> post False (keeps st) (ins_io width self line PC st)"
proof -
  show "post False (keeps st) (ins_imprimir line st)" if len: "9 \<le> length line"
  proof -
    have n: "length ''imprimir,'' = 9" by simp
    obtain c where "cchar line 9 = Inr c" using cchar_ex[OF len] by blast
    moreover obtain x where "readData (piData (img st)) c = Inr x" using read_ready[OF assms] by blast
    ultimately show ?thesis unfolding ins_imprimir_def n using assms by simp
  qed
  show "post False (keeps st) (ins_assign line st)" if "line \<noteq> []"
    using that eval_expr_total[of "piData (img st)" 0 "drop 1 line"] write_keeps[OF assms] assms
    by (cases line) (auto simp: ins_assign_def cchar_def ready_def Let_def)
  have push: "post False (keeps st) (store_result line x (push_LPB self t b st))" for t b x
    by (rule post_mono[OF store_result_keeps]) (use assms in \<open>auto simp: keeps_def ready_def piece_defs\<close>)
  show "post False (keeps st) (ins_io_assign_main self line st)" if "CHR '','' \<in> set (drop 5 line)"
    using io_args_ok[OF that] store_result_keeps[OF assms] push
    by (auto simp: ins_io_assign_main_def intro: post_mono)
  show "post False (keeps st) (ins_io_assign_func self line PC st)" if "CHR '','' \<in> set (drop 5 line)"
    using io_args_ok[OF that] store_result_keeps[OF assms] push
    by (auto simp: ins_io_assign_func_def Let_def intro: post_mono)
  show "post False (keeps st) (ins_io width self line PC st)" if "CHR '','' \<in> set (drop 3 line)"
    using io_args_ok[OF that] assms by (auto simp: ins_io_def)
qed

lemma ins_io_assign_func_queues:
  assumes "io_args 5 line = Inr (t, True)" and "io_available st" and "ready st" and "line \<noteq> []"
  shows "\<exists>st'. ins_io_assign_func self line PC st = Inr st' \<and> LPB (sh st') =
    LPB (sh st) @ [\<lparr>io_image = self, ioTime = ucast (ucast t :: u16), flagNonBlocking = True\<rparr>]"
proof -
  define st1 where "st1 = push_LPB self (ucast (ucast t :: u16)) True st"
  have "ready st1" using assms(3) by (simp add: st1_def)
  then obtain d where "writeData (piData (img st1)) (hd line) 1 = Inr d" using store_ready by blast
  then have "store_result line 1 st1 = Inr (set_data d st1)"
    using assms(4) by (cases line) (simp_all add: store_result_def cchar_def)
  then show ?thesis
    using assms(1,2) by (simp add: ins_io_assign_func_def st1_def Let_def piece_defs)
qed

lemma call_frame:
  "call_ok code f \<Longrightarrow> post False (\<lambda>p. frame_ok code \<lparr>functionName = f, stPC = p, linecall = q\<rparr>)
    (findFunctionLine code f)"
  by (cases "findFunctionLine code f") (auto simp: call_ok_def frame_ok_def at_end_def)

lemma func_instr_safe:
  assumes "ready st" and "func_line_ok code line"
  shows "post False (\<lambda>(st', call). keeps st st' \<and> (\<forall>f. call = Some f \<longrightarrow> call_ok code f))
    (func_instr self line PC st)"
proof (cases "is_skip line")
  case True
  then show ?thesis using assms by (simp add: func_instr_def)
next
  case False
  then have ne: "line \<noteq> []" by (auto simp: is_skip_def)
  show ?thesis
    using assms False second_char_eq[OF ne] ins_keeps[OF assms(1)] ne
    by (auto simp: func_instr_def func_line_ok_def)
qed

definition main_ok :: "nat \<Rightarrow> nat \<Rightarrow> xstate \<Rightarrow> bool" where
  "main_ok V L st \<longleftrightarrow> ready st \<and> V \<le> unat (piPC (img st)) \<and> unat (piPC (img st)) \<le> L"

lemma keeps_main_ok: "keeps st st' \<Longrightarrow> main_ok V L st \<Longrightarrow> main_ok V L st'"
  by (simp add: keeps_def main_ok_def)

lemma main_ok_pieces [simp]:
  "main_ok V L (do_sleep t st) = main_ok V L st" "main_ok V L (charge st) = main_ok V L st"
  "main_ok V L (interfere env st) = main_ok V L st" "main_ok V L (set_stack s st) = main_ok V L st"
  by (simp_all add: main_ok_def ready_def piece_defs)

lemma jump_main_ok:
  assumes "main_ok V L st" and "6 \<le> length line" and "jump_ok code V L (drop 6 line)"
  shows "post False (\<lambda>st'. main_ok V L st' \<and> piStack (img st') = piStack (img st)) (jump_if b code line st)"
proof -
  have n: "length ''ssc,x,'' = 6" by simp
  show ?thesis unfolding jump_if_def n using assms
    by (cases "changePC code (drop 6 line)") (auto simp: jump_ok_def main_ok_def)
qed

lemma jumps_safe:
  assumes "main_ok V L st" and "6 \<le> length line" and "jump_ok code V L (drop 6 line)"
  shows "post False (\<lambda>st'. main_ok V L st' \<and> piStack (img st') = piStack (img st)) (ins_ssc code line st)"
    and "post False (\<lambda>st'. main_ok V L st' \<and> piStack (img st') = piStack (img st)) (ins_snc code line st)"
proof -
  have n: "length ''ssc,'' = 4" "length ''snc,'' = 4" by simp_all
  have "4 \<le> length line" using assms(2) by simp
  then obtain c where c: "cchar line 4 = Inr c" using cchar_ex by blast
  have "ready st" using assms(1) by (simp add: main_ok_def)
  then obtain x where x: "readData (piData (img st)) c = Inr x" using read_ready by blast
  show "post False (\<lambda>st'. main_ok V L st' \<and> piStack (img st') = piStack (img st)) (ins_ssc code line st)"
    "post False (\<lambda>st'. main_ok V L st' \<and> piStack (img st') = piStack (img st)) (ins_snc code line st)"
    unfolding ins_ssc_def ins_snc_def n
    by (simp_all add: c x Let_def) (rule post_mono[OF jump_main_ok[OF assms]], simp add: piece_defs)+
qed

lemma main_instr_safe:
  assumes m: "main_ok V L st" and "func_line_ok code line" and "main_line_ok code V L line"
  shows "post False (\<lambda>(st', call). main_ok V L st' \<and> piStack (img st') = piStack (img st)
      \<and> (\<forall>f. call = Some f \<longrightarrow> call_ok code f)) (main_instr code self line st)"
proof (cases "is_skip line")
  case True
  then show ?thesis using m by (simp add: main_instr_def)
next
  case False
  then have ne: "line \<noteq> []" by (auto simp: is_skip_def)
  have r: "ready st" using m by (simp add: main_ok_def)
  have k: "keeps st st' \<Longrightarrow> main_ok V L st' \<and> piStack (img st') = piStack (img st)" for st'
    using keeps_main_ok[OF _ m] by (auto simp: keeps_def)
  have f: "post False (keeps st) p \<Longrightarrow>
      post False (\<lambda>st'. main_ok V L st' \<and> piStack (img st') = piStack (img st)) p" for p
    by (erule post_mono) (rule k)
  note ins = ins_keeps[OF r, THEN f] jumps_safe[OF m]
  show ?thesis
    using assms False second_char_eq[OF ne] ins ne
    by (auto simp: main_instr_def func_line_ok_def main_line_ok_def string_starts_with_prefix)
qed

lemma main_instr_inert: "inert line \<Longrightarrow> main_instr code self line st = Inr (st, None)"
proof (cases "is_skip line")
  case False
  assume "inert line"
  moreover have "line \<noteq> []" using False by (auto simp: is_skip_def)
  ultimately show ?thesis using False second_char_eq by (simp add: main_instr_def inert_def)
qed (simp add: main_instr_def)

lemma main_instr_declaration:
  assumes "declaration_ok line" and "piData (img st) = None"
  shows "\<exists>d. main_instr code self line st = Inr (set_data d st, None) \<and> seg_ready d"
proof -
  have n: "length ''variables,'' = 10" by simp
  obtain d where "addVariables None (drop 10 line) = Inr (Some d)" "wf_data d"
    using addVariables_spec[of None "drop 10 line"] assms(1)
    by (auto simp: declaration_ok_def seg_ok_def declared_def)
  then have "ins_variables line st = Inr (set_data (Some d) st)" "seg_ready (Some d)"
    unfolding ins_variables_def n using assms by (simp_all add: declaration_ok_def seg_ready_def)
  then show ?thesis using assms(1)
    by (auto simp: main_instr_def declaration_ok_def plain_def)
qed

lemma unat_next: "unat (p :: u16) < 65535 \<Longrightarrow> unat (p + 1) = Suc (unat p)"
  by (simp add: unat_word_ariths)

lemma code_line_in: "unat p < length code \<Longrightarrow> code_line code p = Inr (code ! unat p)"
  by (simp add: code_line_def)

definition func_ok :: "string list \<Rightarrow> nat \<Rightarrow> nat \<Rightarrow> t_stack \<Rightarrow> t_stack list \<Rightarrow> xstate \<Rightarrow> bool" where
  "func_ok code V L el fr st \<longleftrightarrow> main_ok V L st
     \<and> (\<forall>e \<in> set (el # fr @ piStack (img st)). frame_ok code e)"

definition ret_ok :: "string list \<Rightarrow> nat \<Rightarrow> nat \<Rightarrow> t_stack list \<Rightarrow> xstate \<Rightarrow> bool" where
  "ret_ok code V L fr st \<longleftrightarrow> main_ok V L st \<and> (\<forall>e \<in> set (fr @ piStack (img st)). frame_ok code e)"

lemma frame_next:
  assumes "frame_ok code el" and "\<not> at_end (code ! unat (stPC el)) el" and "length code \<le> 65535"
  shows "unat (stPC el + 1) < length code" and "frame_ok code (el\<lparr>stPC := stPC el + 1\<rparr>)"
proof -
  obtain e where e: "e < length code" "unat (stPC el) \<le> e" "at_end (code ! e) el"
    using assms(1) by (auto simp: frame_ok_def)
  with assms(2) have lt: "unat (stPC el) < e" by (cases "unat (stPC el) = e") auto
  then have n: "unat (stPC el + 1) = Suc (unat (stPC el))" using e assms(3) by (intro unat_next) simp
  show "unat (stPC el + 1) < length code" using n lt e by simp
  show "frame_ok code (el\<lparr>stPC := stPC el + 1\<rparr>)"
    unfolding frame_ok_def using n lt e by (intro exI[of _ e]) (simp add: at_end_def)
qed

lemma frame_line: "frame_ok code el \<Longrightarrow> code_line code (stPC el) = Inr (code ! unat (stPC el))"
  by (auto simp: frame_ok_def code_line_def)

lemma image_main: "image_ok code V L (img st) \<longleftrightarrow>
    unat (piPC (img st)) < V \<and> V \<le> L \<and> piData (img st) = None \<and> piStack (img st) = []
    \<or> unat (piPC (img st)) < V \<and> L < V \<and> unat (piPC (img st)) \<le> L
       \<and> piData (img st) = None \<and> piStack (img st) = []
    \<or> main_ok V L st \<and> (\<forall>el \<in> set (piStack (img st)). frame_ok code el)"
  by (auto simp: image_ok_def main_ok_def ready_def)

lemma safety_invariant:
  assumes wf: "wf_code code V L"
  shows "exec_invariant False code self env (\<lambda>st. image_ok code V L (img st)) (func_ok code V L)
    (ret_ok code V L)"
proof -
  have len: "length code \<le> 65535" and V: "0 < V" "V < L" and L: "L < length code"
    and fin: "code ! L = ''fin_programa''" and fl: "\<And>i. i < length code \<Longrightarrow> func_line_ok code (code ! i)"
    and decl: "declaration_ok (code ! V)" and pre: "\<And>i. i < V \<Longrightarrow> 0 < i \<Longrightarrow> inert (code ! i)"
    and main: "\<And>i. i \<le> L \<Longrightarrow> V < i \<Longrightarrow> main_line_ok code V L (code ! i)"
    using wf by (auto simp: wf_code_def less_Suc_eq_le)
  show ?thesis
  proof unfold_locales
    fix el fr st line and el1 :: t_stack
    assume F: "func_ok code V L el fr st" and line: "code_line code (stPC el) = Inr line"
      and go: "\<not> at_end line el" and el1: "el1 = el\<lparr>stPC := stPC el + 1\<rparr>"
    have el: "frame_ok code el" using F by (simp add: func_ok_def)
    have "\<not> at_end (code ! unat (stPC el)) el" using go line frame_line[OF el] by simp
    note nx = frame_next[OF el this len]
    have cl: "code_line code (stPC el1) = Inr (code ! unat (stPC el1))"
      using nx(1) el1 by (simp add: code_line_in)
    have r: "ready st" using F by (simp add: func_ok_def main_ok_def)
    have "func_ok code V L el1 fr st'" "ret_ok code V L (el1 # fr) st'" if "keeps st st'" for st'
      using that F nx(2) keeps_main_ok[OF that] el1 by (auto simp: func_ok_def ret_ok_def keeps_def)
    then have "post False (\<lambda>(st1, call). case call of None \<Rightarrow> func_ok code V L el1 fr st1
        | Some f \<Rightarrow> post False (\<lambda>p. func_ok code V L \<lparr>functionName = f, stPC = p, linecall = stPC el1\<rparr>
            (el1 # fr) st1) (findFunctionLine code f))
        (func_instr self (code ! unat (stPC el1)) (stPC el1) st)"
      using nx(1) el1
      by (intro post_mono[OF func_instr_safe[OF r fl]])
        (auto simp: func_ok_def ret_ok_def split: option.splits intro!: post_mono[OF call_frame])
    then show "post False (\<lambda>l. post False (\<lambda>(st1, call). case call of None \<Rightarrow> func_ok code V L el1 fr st1
        | Some f \<Rightarrow> post False (\<lambda>p. func_ok code V L \<lparr>functionName = f, stPC = p, linecall = stPC el1\<rparr>
            (el1 # fr) st1) (findFunctionLine code f))
        (func_instr self l (stPC el1) st)) (code_line code (stPC el1))"
      using cl by simp
  next
    fix st line st1
    assume M: "image_ok code V L (img st)" and stk: "piStack (img st) = []"
      and line: "code_line code (piPC (img st)) = Inr line" "line \<noteq> ''fin_programa''"
      and st1: "st1 = set_PC (piPC (img st) + 1) st"
    define i where "i = unat (piPC (img st))"
    have "i \<le> L" using M by (simp add: image_ok_def i_def)
    moreover have "i \<noteq> L" using line fin L by (auto simp: i_def code_line_in)
    ultimately have i: "i < L" by simp
    then have n: "unat (piPC (img st1)) = Suc i" using L len st1
      by (simp add: i_def unat_next)
    then have cl: "code_line code (piPC (img st1)) = Inr (code ! Suc i)"
      using i L by (simp add: code_line_in)
    have "post False (\<lambda>(st2, call). case call of None \<Rightarrow> image_ok code V L (img st2)
        | Some f \<Rightarrow> post False (\<lambda>p. func_ok code V L \<lparr>functionName = f, stPC = p, linecall = piPC (img st2)\<rparr>
            [] st2) (findFunctionLine code f)) (main_instr code self (code ! Suc i) st1)"
    proof -
      consider (before) "Suc i < V" | (decl) "Suc i = V" | (after) "V \<le> i" by linarith
      then show ?thesis
      proof cases
        case before
        then show ?thesis using pre[of "Suc i"] M n V stk st1
          by (simp add: main_instr_inert image_ok_def i_def[symmetric])
      next
        case decl
        have "piData (img st1) = None" using M decl st1 by (simp add: image_ok_def i_def[symmetric])
        from main_instr_declaration[OF \<open>declaration_ok (code ! V)\<close> this, of code self]
        show ?thesis using decl n i stk st1 by (auto simp: image_ok_def)
      next
        case after
        have m: "main_ok V L st1"
          using M after n i by (simp add: image_ok_def main_ok_def ready_def i_def[symmetric] st1)
        show ?thesis
          by (rule post_mono[OF main_instr_safe[OF m fl main]])
            (use i after L stk st1 in \<open>auto simp: image_main func_ok_def split: option.splits
              intro!: post_mono[OF call_frame]\<close>)
      qed
    qed
    then show "post False (\<lambda>l. post False (\<lambda>(st2, call). case call of None \<Rightarrow> image_ok code V L (img st2)
        | Some f \<Rightarrow> post False (\<lambda>p. func_ok code V L \<lparr>functionName = f, stPC = p, linecall = piPC (img st2)\<rparr>
            [] st2) (findFunctionLine code f)) (main_instr code self l st1)) (code_line code (piPC (img st1)))"
      using cl by simp
  next
    fix el fr st
    assume "func_ok code V L el fr st"
    then show "post False (\<lambda>_. True) (code_line code (stPC el))"
      by (simp add: func_ok_def frame_line)
  next
    fix st
    assume "image_ok code V L (img st)"
    then show "post False (\<lambda>_. True) (code_line code (piPC (img st)))"
      using L by (simp add: image_ok_def code_line_in)
  qed (use V in \<open>auto simp: func_ok_def ret_ok_def image_main\<close>)
qed

interpretation safe_exec: exec_invariant "\<not> wf_code code V L" code self env
    "\<lambda>st. wf_code code V L \<longrightarrow> image_ok code V L (img st)"
    "\<lambda>el fr st. wf_code code V L \<longrightarrow> func_ok code V L el fr st"
    "\<lambda>fr st. wf_code code V L \<longrightarrow> ret_ok code V L fr st" for code V L self env
  using conditional_invariant[OF safety_invariant] by simp

interpretation quantum_exec: exec_invariant True code self env
    "\<lambda>st. keeps_quantum env \<longrightarrow> within_quantum st" "\<lambda>_ _ st. keeps_quantum env \<longrightarrow> within_quantum st"
    "\<lambda>_ st. keeps_quantum env \<longrightarrow> within_quantum st" for code self env
  using conditional_invariant[OF quantum_invariant] by simp

section \<open>The saved stack\<close>

text \<open>
  A call chain, outermost activation first: each was called from the line where its caller stands,
  the first one from the main program at \<open>pc\<close>.
\<close>

fun linked :: "u16 \<Rightarrow> t_stack list \<Rightarrow> bool" where
  "linked pc [] = True"
| "linked pc (e # es) = (linecall e = pc \<and> linked (stPC e) es)"

definition last_pc :: "u16 \<Rightarrow> t_stack list \<Rightarrow> u16" where
  "last_pc pc es = (if es = [] then pc else stPC (last es))"

lemma linked_snoc [simp]: "linked pc (es @ [e]) \<longleftrightarrow> linked pc es \<and> linecall e = last_pc pc es"
  by (induction es arbitrary: pc) (auto simp: last_pc_def)

lemma last_pc_snoc [simp]: "last_pc pc (es @ [e]) = stPC e"
  by (simp add: last_pc_def)

lemma linked_snoc2 [simp]:
  "linked pc (es @ [e, e']) \<longleftrightarrow> linked pc (es @ [e]) \<and> linecall e' = stPC e"
  using linked_snoc[of pc "es @ [e]" e'] by simp

lemma linked_append: "linked pc (es @ fs) \<Longrightarrow> linked pc es"
  by (induction es arbitrary: pc) auto

lemma linked_stPC: "linked pc (es @ [e]) \<Longrightarrow> linked pc (es @ [e\<lparr>stPC := q\<rparr>])"
  by simp

text \<open>Once the loops have been told to stop, no other thread takes that back.\<close>

definition stop_is_final :: "environment \<Rightarrow> bool" where
  "stop_is_final env \<longleftrightarrow> keeps_quantum env \<and> (\<forall>k s. SUSPEND s \<longrightarrow> SUSPEND (env k s))"

lemma not_running_interfere:
  "stop_is_final env \<Longrightarrow> \<not> running st \<Longrightarrow> \<not> running (interfere env st)"
  by (auto simp: stop_is_final_def keeps_quantum_def running_def)

definition main_linked :: "xstate \<Rightarrow> bool" where
  "main_linked st \<longleftrightarrow> linked (piPC (img st)) (piStack (img st))
     \<and> (1 < length (piStack (img st)) \<longrightarrow> \<not> running st)"

definition func_linked :: "t_stack \<Rightarrow> t_stack list \<Rightarrow> xstate \<Rightarrow> bool" where
  "func_linked el fr st \<longleftrightarrow> linked (piPC (img st)) (rev fr @ piStack (img st) @ [el])
     \<and> (piStack (img st) \<noteq> [] \<longrightarrow> \<not> running st)"

definition ret_linked :: "t_stack list \<Rightarrow> xstate \<Rightarrow> bool" where
  "ret_linked fr st \<longleftrightarrow> linked (piPC (img st)) (rev fr @ piStack (img st))
     \<and> (piStack (img st) \<noteq> [] \<longrightarrow> \<not> running st)"

lemma pieces_PC:
  "piPC (img (send_N t st)) = piPC (img st)" "piPC (img (do_sleep x st)) = piPC (img st)"
  "piPC (img (push_LPB self y nb st)) = piPC (img st)" "piPC (img (charge st)) = piPC (img st)"
  by (simp_all add: piece_defs)

lemma func_instr_PC: "post True (\<lambda>(st', call). piPC (img st') = piPC (img st)) (func_instr self line PC st)"
proof -
  have ins: "post True (\<lambda>st'. piPC (img st') = piPC (img st)) (ins_imprimir line st)"
    "post True (\<lambda>st'. piPC (img st') = piPC (img st)) (ins_assign line st)"
    "post True (\<lambda>st'. piPC (img st') = piPC (img st)) (ins_io_assign_func self line PC st)"
    "post True (\<lambda>st'. piPC (img st') = piPC (img st)) (ins_io width self line PC st)" for width
    by (auto simp: ins_imprimir_def ins_assign_def ins_io_assign_func_def ins_io_def store_result_def
        pieces_PC Let_def post_True_iff res_simps split: if_splits)
  show ?thesis unfolding func_instr_def using ins
    by (auto simp: post_True_iff res_simps plain_def split: if_splits)
qed

lemma linked_invariant:
  assumes env: "stop_is_final env"
  shows "exec_invariant True code self env main_linked func_linked ret_linked"
proof unfold_locales
  fix el fr st line and el1 :: t_stack
  assume F: "func_linked el fr st" and run: "running st" and el1: "el1 = el\<lparr>stPC := stPC el + 1\<rparr>"
  have "func_linked el1 fr st1" "func_linked \<lparr>functionName = f, stPC = p, linecall = stPC el1\<rparr> (el1 # fr) st1"
    if "effect st st1" "piPC (img st1) = piPC (img st)" for st1 f p
    using F run that el1 by (auto simp: func_linked_def effect_def)
  then show "post True (\<lambda>l. post True (\<lambda>(st1, call). case call of None \<Rightarrow> func_linked el1 fr st1
      | Some f \<Rightarrow> post True (\<lambda>p. func_linked \<lparr>functionName = f, stPC = p, linecall = stPC el1\<rparr>
          (el1 # fr) st1) (findFunctionLine code f))
      (func_instr self l (stPC el1) st)) (code_line code (stPC el1))"
    using func_instr_effect[of st self _ "stPC el1"] func_instr_PC[of st self _ "stPC el1"]
    by (fastforce simp: post_True_iff split: option.splits)
next
  fix st line st1
  assume stk: "piStack (img st) = []" and run: "running st" and st1: "st1 = set_PC (piPC (img st) + 1) st"
  have "main_linked st2" "func_linked \<lparr>functionName = f, stPC = p, linecall = piPC (img st2)\<rparr> [] st2"
    if "effect st1 st2" for st2 f p
    using that stk st1 by (auto simp: func_linked_def main_linked_def effect_def last_pc_def)
  then show "post True (\<lambda>l. post True (\<lambda>(st2, call). case call of None \<Rightarrow> main_linked st2
      | Some f \<Rightarrow> post True (\<lambda>p. func_linked \<lparr>functionName = f, stPC = p, linecall = piPC (img st2)\<rparr>
          [] st2) (findFunctionLine code f)) (main_instr code self l st1)) (code_line code (piPC (img st1)))"
    using main_instr_effect[of st1 code self]
    by (fastforce simp: post_True_iff split: option.splits)
next
  fix el fr st line
  assume F: "func_linked el fr st"
  then show "ret_linked fr st" 
    using linked_append[of "piPC (img st)" "rev fr @ piStack (img st)" "[el]"]
    by (simp add: func_linked_def ret_linked_def)
qed (use not_running_interfere[OF env] in
    \<open>auto simp: func_linked_def main_linked_def ret_linked_def\<close>)

interpretation linked_exec: exec_invariant True code self env
    "\<lambda>st. stop_is_final env \<longrightarrow> main_linked st" "\<lambda>el fr st. stop_is_final env \<longrightarrow> func_linked el fr st"
    "\<lambda>fr st. stop_is_final env \<longrightarrow> ret_linked fr st" for code self env
  using conditional_invariant[OF linked_invariant] by simp

end
