(* ===== verification/PP_Interp_Live.thy ===== *)
theory PP_Interp_Live
  imports PP_Interp_Spec
begin

text \<open>
  The value of an expression as a sum of signed terms; the outcome of an execution does not depend
  on the fuel once there is enough; and a script without calls leaves the processor under Round
  Robin after a bounded number of rounds, whatever its jumps.
\<close>

section \<open>Expressions\<close>

text \<open>A term is its operator and its operand; the first operator of an assignment is the \<open>=\<close>.\<close>

definition render_terms :: "(char \<times> string) list \<Rightarrow> string" where
  "render_terms ts = concat (map (\<lambda>(c, a). c # a) ts)"

definition terms_ok :: "(char \<times> string) list \<Rightarrow> bool" where
  "terms_ok ts \<longleftrightarrow> (\<forall>(c, a) \<in> set ts. c \<noteq> CHR '';'' \<and> (\<forall>x \<in> set a. operand_char x))
     \<and> (\<forall>(c, a) \<in> set (tl ts). \<not> operand_char c)"

definition operand_of :: "t_data list option \<Rightarrow> string \<Rightarrow> s32" where
  "operand_of d a = (case operand_value d a of Inl _ \<Rightarrow> 0 | Inr x \<Rightarrow> x)"

definition sum_terms :: "t_data list option \<Rightarrow> (char \<times> string) list \<Rightarrow> s32" where
  "sum_terms d ts = sum_list (map (\<lambda>(c, a). if c = CHR ''-'' then - operand_of d a else operand_of d a) ts)"

lemma eval_expr_terms:
  "seg_ready d \<Longrightarrow> terms_ok ts \<Longrightarrow> rest = [] \<or> hd rest = CHR '';'' \<Longrightarrow>
   eval_expr d acc (render_terms ts @ rest) = Inr (acc + sum_terms d ts, rest)"
proof (induction ts arbitrary: acc)
  case Nil
  then show ?case by (cases rest) (auto simp: render_terms_def sum_terms_def)
next
  case (Cons t ts)
  obtain c a where t: "t = (c, a)" by (cases t)
  define s where "s = render_terms ts @ rest"
  have c: "c \<noteq> CHR '';''" and a: "\<forall>x \<in> set a. operand_char x" and ts: "terms_ok ts"
    using Cons.prems(2) t by (cases ts; auto simp: terms_ok_def)+
  have hd: "s = [] \<or> \<not> operand_char (hd s)"
  proof (cases ts)
    case Nil
    then show ?thesis using Cons.prems(3) by (auto simp: s_def render_terms_def operand_char_def)
  next
    case (Cons t' ts')
    then show ?thesis using Cons.prems(2) t by (cases t') (auto simp: s_def render_terms_def terms_ok_def)
  qed
  have tw: "takeWhile operand_char (a @ s) = a" "dropWhile operand_char (a @ s) = s"
    using a hd by (cases s; simp add: takeWhile_append dropWhile_append)+
  obtain v where v: "operand_value d a = Inr v" using operand_total[OF Cons.prems(1)] by blast
  have "eval_expr d acc (render_terms (t # ts) @ rest)
      = eval_expr d (if c \<noteq> CHR ''-'' then acc + v else acc - v) s"
    using c by (simp add: render_terms_def t s_def[unfolded render_terms_def, symmetric] tw v)
  also have "\<dots> = Inr ((if c \<noteq> CHR ''-'' then acc + v else acc - v) + sum_terms d ts, rest)"
    unfolding s_def by (rule Cons.IH[OF Cons.prems(1) ts Cons.prems(3)])
  finally show ?case by (simp add: sum_terms_def t operand_of_def v)
qed

lemma ins_assign_value:
  assumes "ready st" and "terms_ok ((CHR ''='', a) # ts)" and "rest = [] \<or> hd rest = CHR '';''"
    and "v \<in> set (declared (piData (img st)))"
  shows "\<exists>st'. ins_assign (v # render_terms ((CHR ''='', a) # ts) @ rest) st = Inr st'
     \<and> readData (piData (img st')) v = Inr (sum_terms (piData (img st)) ((CHR ''='', a) # ts))
     \<and> (\<forall>u. u \<noteq> v \<longrightarrow> readData (piData (img st')) u = readData (piData (img st)) u)
     \<and> slept st' = slept st @ [sentence_time rest st]"
proof -
  let ?d = "piData (img st)" and ?x = "sum_terms (piData (img st)) ((CHR ''='', a) # ts)"
  have sr: "seg_ready ?d" using assms(1) by (simp add: ready_def)
  obtain d' where w: "writeData ?d v ?x = Inr d'" using ds.write_total[OF sr] by blast
  have rd: "readData d' u = (if u = v then Inr ?x else readData ?d u)" for u
    using ds.read_after_write[OF sr w, of u] assms(4) by (simp add: dom_var_env)
  have "eval_expr ?d 0 (render_terms ((CHR ''='', a) # ts) @ rest) = Inr (?x, rest)"
    using eval_expr_terms[OF sr assms(2,3), of 0] by simp
  then have "ins_assign (v # render_terms ((CHR ''='', a) # ts) @ rest) st
      = Inr (charge (do_sleep (sentence_time rest (set_data d' st)) (set_data d' st)))"
    by (simp add: ins_assign_def w Let_def cchar_def)
  then show ?thesis using rd
    by (intro exI[of _ "charge (do_sleep (sentence_time rest (set_data d' st)) (set_data d' st))"])
      (simp add: piece_defs sentence_time_def)
qed

section \<open>Fuel\<close>

text \<open>More fuel only turns a missing return into an outcome.\<close>

definition fuel_le :: "'a res \<Rightarrow> 'a res \<Rightarrow> bool" where
  "fuel_le m m' \<longleftrightarrow> m = Inl NoReturn \<or> m' = m"

lemma fuel_le_refl [simp]: "fuel_le m m"
  by (simp add: fuel_le_def)

lemma fuel_le_bindE:
  "fuel_le m m' \<Longrightarrow> (\<And>x. fuel_le (f x) (f' x)) \<Longrightarrow> fuel_le (bindE m f) (bindE m' f')"
  by (cases m) (auto simp: fuel_le_def)

lemma fuel_le_call:
  "(\<And>el st. fuel_le (g el st) (g' el st)) \<Longrightarrow>
   fuel_le (call_function code g f PC st) (call_function code g' f PC st)"
  by (simp add: call_function_eq fuel_le_bindE)

lemma fuel_le_stack:
  "(\<And>el st. fuel_le (g el st) (g' el st)) \<Longrightarrow> fuel_le (stackExecution g st) (stackExecution g' st)"
  by (auto simp: stackExecution_def intro!: fuel_le_bindE split: option.splits)

lemma functionExecution_fuel:
  "n \<le> m \<Longrightarrow> fuel_le (functionExecution n code self env el st) (functionExecution m code self env el st)"
proof (induction n arbitrary: m el st)
  case 0
  then show ?case by (simp add: fuel_le_def)
next
  case (Suc n)
  then obtain k where m: "m = Suc k" "n \<le> k" by (cases m) auto
  show ?case unfolding m(1) functionExecution.simps Let_def
    by (auto split: option.splits prod.splits intro!: fuel_le_bindE fuel_le_call Suc.IH m(2))
qed

lemma processLoop_fuel:
  "n \<le> m \<Longrightarrow> fuel_le (processLoop n code self env st) (processLoop m code self env st)"
proof (induction n arbitrary: m st)
  case 0
  then show ?case by (simp add: fuel_le_def)
next
  case (Suc n)
  then obtain k where m: "m = Suc k" "n \<le> k" by (cases m) auto
  show ?case unfolding m(1) processLoop.simps Let_def
    by (auto split: option.splits prod.splits
        intro!: fuel_le_bindE fuel_le_call fuel_le_stack functionExecution_fuel Suc.IH m(2))
qed

lemma processExecution_fuel:
  "n \<le> m \<Longrightarrow> fuel_le (processExecution n code self env st) (processExecution m code self env st)"
  unfolding processExecution_def
  by (intro fuel_le_bindE fuel_le_stack functionExecution_fuel processLoop_fuel)

section \<open>Round Robin preempts\<close>

text \<open>Instructions always return: their loops run over a line or an array.\<close>

definition faults :: "fault set \<Rightarrow> 'a res \<Rightarrow> bool" where
  "faults E m \<longleftrightarrow> (case m of Inl e \<Rightarrow> e \<in> E | Inr _ \<Rightarrow> True)"

lemma faults_simps [simp]: "faults E (Inr x)" "faults E (Inl e) \<longleftrightarrow> e \<in> E"
  by (simp_all add: faults_def)

lemma faults_bindE [intro]: "faults E m \<Longrightarrow> (\<And>x. m = Inr x \<Longrightarrow> faults E (f x)) \<Longrightarrow> faults E (bindE m f)"
  by (cases m) auto

lemma faults_mono: "faults E m \<Longrightarrow> E \<subseteq> E' \<Longrightarrow> faults E' m"
  by (cases m) auto

lemma faults_array [simp]: "UB \<in> E \<Longrightarrow> faults E (arr_get xs i)" "UB \<in> E \<Longrightarrow> faults E (scan P xs)"
  by (simp add: arr_get_def) (induction xs; auto)

lemma faults_reading [simp]:
  assumes "UB \<in> E"
  shows "faults E (code_line code l)" "faults E (cchar cs j)" "faults E (cptr cs j)"
    "faults E (data_index d v)" "faults E (readData d v)" "faults E (writeData d v x)"
proof -
  show "faults E (code_line code l)" using assms by (simp add: code_line_def)
  show "faults E (cchar cs j)" "faults E (cptr cs j)" using assms by (simp_all add: cchar_def cptr_def)
  show i: "faults E (data_index d v)" for d v
    using assms by (auto simp: data_index_def split: option.splits)
  show "faults E (readData d v)" "faults E (writeData d v x)"
    using assms by (auto simp: readData_def writeData_def i intro!: faults_bindE split: prod.splits)
qed

lemma faults_addVariables [simp]:
  assumes "UB \<in> E"
  shows "faults E (addVariables d v)"
proof -
  have s: "faults E (store_last d n e)" for d n e using assms by (simp add: store_last_def)
  have l: "faults E (addVariables_loop v n d)" for v n d
    by (induction v n d rule: addVariables_loop.induct) (auto simp: s assms)
  have "faults E (dataCount d)" using assms by (auto simp: dataCount_def split: option.splits)
  then show ?thesis by (auto simp: addVariables_def s l intro!: faults_bindE split: prod.splits)
qed

lemma faults_eval_expr [simp]: "UB \<in> E \<Longrightarrow> faults E (eval_expr d acc s)"
proof (induction d acc s rule: eval_expr.induct)
  case (2 d acc op s)
  then show ?case by (auto simp: operand_value_def intro!: faults_bindE)
qed simp

text \<open>A sentence can only be undefined; the one that locks a mutex twice can also block.\<close>

lemma faults_sentences:
  assumes "UB \<in> E"
  shows "faults E (changePC code tag)" "faults E (findFunctionLine code f)" "faults E (io_args k l)" "faults E (store_result l x st)"
    "faults E (ins_variables line st)" "faults E (ins_imprimir line st)" "faults E (ins_assign line st)"
    "faults E (ins_ssc code line st)" "faults E (ins_snc code line st)"
    "faults E (ins_io width self line PC st)" "faults E (ins_io_assign_func self line PC st)"
    "io_available st \<longrightarrow> Deadlock \<in> E \<Longrightarrow> faults E (ins_io_assign_main self line st)"
proof -
  note [simp] = assms
  show find: "faults E (changePC code tag)" "faults E (findFunctionLine code f)" for tag
    by (auto simp: changePC_def findFunctionLine_def find_line_def Let_def intro!: faults_bindE)
  show args: "faults E (io_args k l)" for k l
    by (auto simp: io_args_def intro!: faults_bindE)
  show store: "faults E (store_result l x s)" for l x s
    by (auto simp: store_result_def intro!: faults_bindE)
  show "faults E (ins_variables line st)" "faults E (ins_imprimir line st)" "faults E (ins_assign line st)"
    by (auto simp: ins_variables_def ins_imprimir_def ins_assign_def Let_def intro!: faults_bindE)
  have jmp: "faults E (jump_if b code line st)" for b
    by (auto simp: jump_if_def find intro!: faults_bindE)
  show "faults E (ins_ssc code line st)" "faults E (ins_snc code line st)"
    by (auto simp: ins_ssc_def ins_snc_def Let_def jmp intro!: faults_bindE)
  show "faults E (ins_io width self line PC st)"
    by (auto simp: ins_io_def args intro!: faults_bindE)
  show "faults E (ins_io_assign_func self line PC st)"
    by (auto simp: ins_io_assign_func_def args store Let_def intro!: faults_bindE)
  show "faults E (ins_io_assign_main self line st)" if "io_available st \<longrightarrow> Deadlock \<in> E"
    using that by (auto simp: ins_io_assign_main_def args store intro!: faults_bindE)
qed

lemma faults_plain: "faults E m \<Longrightarrow> faults E (plain m)"
  by (auto simp: plain_def intro!: faults_bindE)

lemma faults_main_instr:
  "UB \<in> E \<Longrightarrow> io_available st \<longrightarrow> Deadlock \<in> E \<Longrightarrow> faults E (main_instr code self line st)"
  unfolding main_instr_def
  by (simp add: faults_sentences faults_plain) (rule impI | rule conjI | rule faults_bindE | simp add: faults_sentences faults_plain)+

lemma faults_func_instr: "UB \<in> E \<Longrightarrow> faults E (func_instr self line PC st)"
  unfolding func_instr_def
  by (simp add: faults_sentences faults_plain) (rule impI | rule conjI | rule faults_bindE | simp add: faults_sentences faults_plain)+

text \<open>The loops also fail when their fuel runs out; \<open>returns\<close> says that it does not.\<close>

abbreviation returns :: "'a res \<Rightarrow> bool" where
  "returns \<equiv> faults {UB, Deadlock}"

lemma main_instr_call:
  "main_instr code self line st = Inr (st', Some f) \<Longrightarrow> string_ends_with line ''()''"
  by (auto simp: main_instr_def plain_def res_simps split: if_splits)

definition rounds_left :: "nat \<Rightarrow> xstate \<Rightarrow> nat" where
  "rounds_left L st = nat (quantum (sh st) - quantumCount st) * (L + 1) + (L - unat (piPC (img st)))"

text \<open>A round advances to the next line, or uses up a unit of the quantum.\<close>

lemma rounds_left_decreases:
  assumes "effect (set_PC p st) st2" and "running st" and "ALG (sh st) = ''RR''"
    and "unat p = Suc (unat (piPC (img st)))" and "unat (piPC (img st)) < L"
  shows "rounds_left L st2 < rounds_left L st"
proof -
  define a where "a = nat (quantum (sh st) - quantumCount st)"
  have pos: "quantumCount st < quantum (sh st)" using assms(2) by (simp add: running_def)
  have q: "quantum (sh st2) = quantum (sh st)" using assms(1) by (simp add: effect_def)
  consider "quantumCount st2 = quantumCount st + 1"
    | "quantumCount st2 = quantumCount st" "piPC (img st2) = p"
    using assms(1,3) by (auto simp: effect_def)
  then show ?thesis
  proof cases
    case 1
    then obtain b where "a = Suc b" "nat (quantum (sh st2) - quantumCount st2) = b"
      using pos q a_def by (metis Suc_diff_1 add.commute diff_diff_eq nat_diff_distrib' nat_1
          zero_less_diff zless_nat_conj Suc_nat_eq_nat_zadd1 diff_add_cancel diff_ge_0_iff_ge
          less_iff_diff_less_0 not_less zle_add1_eq_le)
    then show ?thesis by (simp add: rounds_left_def a_def[symmetric])
  next
    case 2
    then show ?thesis using assms(4,5) q by (simp add: rounds_left_def)
  qed
qed

lemma processLoop_returns:
  assumes wf: "wf_code code V L" and env: "keeps_quantum env" "\<And>k s. ALG (env k s) = ALG s"
    and nocall: "\<forall>line \<in> set code. \<not> string_ends_with line ''()''"
  shows "image_ok code V L (img st) \<Longrightarrow> piStack (img st) = [] \<Longrightarrow> ALG (sh st) = ''RR''
    \<Longrightarrow> rounds_left L st < n \<Longrightarrow> returns (processLoop n code self env st)"
proof (induction n arbitrary: st)
  case 0
  then show ?case by simp
next
  case (Suc n)
  define st' where "st' = interfere env st"
  have M: "image_ok code V L (img st')" and stk: "piStack (img st') = []" and rr: "ALG (sh st') = ''RR''"
    and left: "rounds_left L st' < Suc n"
    using Suc.prems env by (simp_all add: st'_def rounds_left_def keeps_quantum_def)
  have L: "L < length code" "length code \<le> 65535" and fin: "code ! L = ''fin_programa''"
    using wf by (simp_all add: wf_code_def)
  define i where "i = unat (piPC (img st'))"
  have "i \<le> L" using M by (simp add: image_ok_def i_def)
  then have line: "code_line code (piPC (img st')) = Inr (code ! i)"
    using L by (simp add: code_line_in i_def)
  note unf = processLoop.simps(2)[of n, THEN fun_cong, of code, THEN fun_cong, of self, THEN fun_cong,
      of env, THEN fun_cong, of st, unfolded Let_def, folded st'_def]
  show ?case
  proof (cases "code ! i \<noteq> ''fin_programa'' \<and> running st'")
    case False
    then show ?thesis unfolding unf using line by auto
  next
    case True
    then have i: "i < L" using fin \<open>i \<le> L\<close> by (cases "i = L") auto
    define st1 where "st1 = set_PC (piPC (img st') + 1) st'"
    have n: "unat (piPC (img st') + 1) = Suc i" using i L by (simp add: i_def unat_next)
    then have cl: "code_line code (piPC (img st1)) = Inr (code ! Suc i)"
      using i L by (simp add: code_line_in st1_def)
    have post: "image_ok code V L (img st2)" if "main_instr code self (code ! Suc i) st1 = Inr (st2, None)" for st2
      using exec_invariant.M_step[OF safety_invariant[OF wf, of self env] M stk line _ _ st1_def] True cl that
      by simp
    have "returns (processLoop n code self env st2)"
      if ins: "main_instr code self (code ! Suc i) st1 = Inr (st2, None)" for st2
    proof (rule Suc.IH)
      have e: "effect st1 st2" using main_instr_effect[of st1 code self "code ! Suc i"] ins by simp
      show "image_ok code V L (img st2)" using post ins by blast
      show "piStack (img st2) = []" "ALG (sh st2) = ''RR''" using e stk rr by (simp_all add: effect_def st1_def)
      show "rounds_left L st2 < n"
        using rounds_left_decreases[OF e[unfolded st1_def] _ rr, of L] n i True left by (simp add: i_def)
    qed
    moreover have "main_instr code self (code ! Suc i) st1 \<noteq> Inr (st2, Some f)" for st2 f
      using main_instr_call nocall i L by fastforce
    moreover have "returns (main_instr code self (code ! Suc i) st1)" by (rule faults_main_instr) simp_all
    ultimately show ?thesis unfolding unf using True line stk cl
      by (auto simp: st1_def[symmetric] split: option.splits intro!: faults_bindE)
  qed
qed

lemma processExecution_returns:
  assumes "wf_code code V L" and "keeps_quantum env" and "\<And>k s. ALG (env k s) = ALG s"
    and "\<forall>line \<in> set code. \<not> string_ends_with line ''()''"
    and "image_ok code V L (img st)" and "piStack (img st) = []" and "ALG (sh st) = ''RR''"
    and "rounds_left L st < n"
  shows "returns (processExecution n code self env st)"
  using processLoop_returns[OF assms(1-7,8)] assms(6)
  by (simp add: processExecution_def stackExecution_Nil)

end
