(* ===== verification/PP_Rounds.thy ===== *)
theory PP_Rounds
  imports PP_Interp_Live
begin

text \<open>
  The interpreter round by round. A loop of \<open>processExecution\<close> or \<open>functionExecution\<close> tests its condition,
  executes one line, and goes on; where it stands is a \<open>control\<close>: in the main program, or in a function with the
  activations that wait for it, or out of the loops. Between two rounds other threads may act. An
  execution is a sequence of rounds (\<open>processExecution_rounds\<close>).
\<close>

section \<open>Rounds\<close>

datatype control = InMain | InFunction t_stack "t_stack list" | Finished

text \<open>\<open>stackExecution\<close> takes the last activation off the saved stack.\<close>

definition resume_stack :: "xstate \<Rightarrow> (control \<times> xstate) res" where
  "resume_stack st =
     bindE (stack_get (piStack (img st))) (\<lambda>(element, rest).
       case element of None \<Rightarrow> Inl UB | Some el \<Rightarrow> Inr (InFunction el [], set_stack rest st))"

definition exec_start :: "xstate \<Rightarrow> (control \<times> xstate) res" where
  "exec_start st = (if piStack (img st) \<noteq> [] then resume_stack st else Inr (InMain, st))"

text \<open>A function returns to the one that waits for it, or to the main program.\<close>

definition back_to :: "t_stack list \<Rightarrow> xstate \<Rightarrow> (control \<times> xstate) res" where
  "back_to fr st =
     (case fr of
        [] \<Rightarrow> Inr (InMain, st)
      | el # fr' \<Rightarrow>
          if piStack (img st) \<noteq> [] then
            bindE (reorderStack (piStack (img st)) el) (\<lambda>(s, el2). Inr (InFunction el2 fr', set_stack s st))
          else Inr (InFunction el fr', st))"

text \<open>
  A call. The code appends the new activation to the saved stack and \<open>stackExecution\<close> takes it off again,
  which leaves the stack as it was (\<open>call_function_eq\<close>).
\<close>

definition enter :: "string list \<Rightarrow> string \<Rightarrow> u16 \<Rightarrow> t_stack list \<Rightarrow> xstate \<Rightarrow> (control \<times> xstate) res" where
  "enter code f PC fr st =
     bindE (findFunctionLine code f) (\<lambda>p. Inr (InFunction \<lparr>functionName = f, stPC = p, linecall = PC\<rparr> fr, st))"

text \<open>
  One round of the loop of \<open>processExecution\<close> or \<open>functionExecution\<close>, from its test to the next; the last one
  of a function includes its return, with \<open>reorderStack\<close> in the caller.
\<close>

definition exec_round :: "string list \<Rightarrow> addr \<Rightarrow> control \<Rightarrow> xstate \<Rightarrow> (control \<times> xstate) res" where
  "exec_round code self c st =
     (case c of
        InMain \<Rightarrow>
          bindE (code_line code (piPC (img st))) (\<lambda>line.
          if line \<noteq> ''fin_programa'' \<and> running st then
            if piStack (img st) \<noteq> [] then resume_stack st
            else let st1 = set_PC (piPC (img st) + 1) st in
              bindE (code_line code (piPC (img st1))) (\<lambda>l.
              bindE (main_instr code self l st1) (\<lambda>(st2, call).
                case call of None \<Rightarrow> Inr (InMain, st2) | Some f \<Rightarrow> enter code f (piPC (img st2)) [] st2))
          else Inr (Finished, st))
      | InFunction el fr \<Rightarrow>
          bindE (code_line code (stPC el)) (\<lambda>line.
          if \<not> at_end line el \<and> running st then
            let el1 = el\<lparr>stPC := stPC el + 1\<rparr> in
            bindE (code_line code (stPC el1)) (\<lambda>l.
            bindE (func_instr self l (stPC el1) st) (\<lambda>(st1, call).
              case call of None \<Rightarrow> Inr (InFunction el1 fr, st1) | Some f \<Rightarrow> enter code f (stPC el1) (el1 # fr) st1))
          else if at_end line el then back_to fr st
          else back_to fr (set_stack (ls_add (piStack (img st)) el) st))
      | Finished \<Rightarrow> Inr (Finished, st))"

section \<open>Executions as rounds\<close>

inductive round_step :: "string list \<Rightarrow> addr \<Rightarrow> environment \<Rightarrow> control \<times> xstate \<Rightarrow> control \<times> xstate \<Rightarrow> bool"
  for code self env where
  round: "c \<noteq> Finished \<Longrightarrow> exec_round code self c (interfere env st) = Inr x \<Longrightarrow> round_step code self env (c, st) x"

abbreviation rounds :: "string list \<Rightarrow> addr \<Rightarrow> environment \<Rightarrow> control \<times> xstate \<Rightarrow> control \<times> xstate \<Rightarrow> bool" where
  "rounds code self env \<equiv> (round_step code self env)\<^sup>*\<^sup>*"

lemma back_to_caller:
  "piStack (img st) = s @ [e] \<Longrightarrow> back_to (el # fr) st = Inr (InFunction e fr, set_stack (el # s) st)"
  "piStack (img st) = [] \<Longrightarrow> back_to (el # fr) st = Inr (InFunction el fr, st)"
  "back_to [] st = Inr (InMain, st)"
  by (simp_all add: back_to_def)

lemma resume_snoc: "piStack (img st) = s @ [e] \<Longrightarrow> resume_stack st = Inr (InFunction e [], set_stack s st)"
  by (simp add: resume_stack_def)

lemma rounds_first: "c \<noteq> Finished \<Longrightarrow> exec_round code self c (interfere env st) = Inr y \<Longrightarrow> rounds code self env y z
    \<Longrightarrow> rounds code self env (c, st) z"
  by (meson converse_rtranclp_into_rtranclp round)

lemma functionExecution_rounds:
  "functionExecution n code self env el st = Inr st' \<Longrightarrow> back_to fr st' = Inr x
    \<Longrightarrow> rounds code self env (InFunction el fr, st) x"
proof (induction n arbitrary: el fr st st' x)
  case (Suc n)
  define st1 where "st1 = interfere env st"
  from Suc.prems(1) obtain line where line: "code_line code (stPC el) = Inr line"
    by (auto simp: Let_def elim!: bindE_InrE)
  note big = Suc.prems(1)[unfolded functionExecution.simps Let_def line bindE_Inr, folded st1_def]
  consider (fin) "at_end line el" | (stop) "\<not> at_end line el" "\<not> running st1" | (go) "\<not> at_end line el" "running st1" by blast
  then show ?case
  proof cases
    case fin
    then have "exec_round code self (InFunction el fr) st1 = Inr x" using big Suc.prems(2) line by (simp add: exec_round_def)
    then show ?thesis using rounds_first[of "InFunction el fr" code self env st x x] by (simp add: st1_def)
  next
    case stop
    then have "exec_round code self (InFunction el fr) st1 = Inr x" using big Suc.prems(2) line
      by (auto simp: exec_round_def)
    then show ?thesis using rounds_first[of "InFunction el fr" code self env st x x] by (simp add: st1_def)
  next
    case go
    define el1 where "el1 = el\<lparr>stPC := stPC el + 1\<rparr>"
    note big = big[folded el1_def]
    from big go obtain l st2 call where l: "code_line code (stPC el1) = Inr l" "func_instr self l (stPC el1) st1 = Inr (st2, call)"
      and rest: "(case call of None \<Rightarrow> functionExecution n code self env el1 st2
         | Some f \<Rightarrow> bindE (call_function code (functionExecution n code self env) f (stPC el1) st2) (\<lambda>st3.
             if piStack (img st3) \<noteq> [] then bindE (reorderStack (piStack (img st3)) el1) (\<lambda>(s, el2).
               functionExecution n code self env el2 (set_stack s st3))
             else functionExecution n code self env el1 st3)) = Inr st'"
      by (auto elim!: bindE_InrE)
    have round: "exec_round code self (InFunction el fr) st1 =
        (case call of None \<Rightarrow> Inr (InFunction el1 fr, st2) | Some f \<Rightarrow> enter code f (stPC el1) (el1 # fr) st2)"
      using go line l unfolding el1_def by (simp add: exec_round_def Let_def split: option.split)
    show ?thesis
    proof (cases call)
      case None
      then have "rounds code self env (InFunction el1 fr, st2) x" using Suc.IH rest Suc.prems(2) by simp
      then show ?thesis using rounds_first[of "InFunction el fr"] round None by (simp add: st1_def)
    next
      case (Some f)
      then obtain p st3 where p: "findFunctionLine code f = Inr p"
          "functionExecution n code self env \<lparr>functionName = f, stPC = p, linecall = stPC el1\<rparr> st2 = Inr st3"
        and ret: "(if piStack (img st3) \<noteq> [] then bindE (reorderStack (piStack (img st3)) el1) (\<lambda>(s, el2).
               functionExecution n code self env el2 (set_stack s st3))
             else functionExecution n code self env el1 st3) = Inr st'"
        using rest by (auto simp: call_function_eq elim!: bindE_InrE)
      let ?new = "\<lparr>functionName = f, stPC = p, linecall = stPC el1\<rparr>"
      obtain y where y: "back_to (el1 # fr) st3 = Inr y" "rounds code self env y x"
      proof (cases "piStack (img st3)" rule: rev_cases)
        case Nil
        then show ?thesis using that back_to_caller(2)[OF Nil] Suc.IH ret Suc.prems(2) by simp
      next
        case (snoc s e)
        then show ?thesis using that back_to_caller(1)[OF snoc] Suc.IH ret Suc.prems(2) by simp
      qed
      have "rounds code self env (InFunction ?new (el1 # fr), st2) x"
        using Suc.IH[OF p(2) y(1)] y(2) by (rule rtranclp_trans)
      then show ?thesis using rounds_first[of "InFunction el fr"] round Some p(1) by (simp add: st1_def enter_def)
    qed
  qed
qed simp

lemma processLoop_rounds:
  "processLoop n code self env st = Inr st' \<Longrightarrow> rounds code self env (InMain, st) (Finished, st')"
proof (induction n arbitrary: st)
  case (Suc n)
  define st1 where "st1 = interfere env st"
  from Suc.prems obtain line where line: "code_line code (piPC (img st1)) = Inr line"
    by (auto simp: Let_def st1_def elim!: bindE_InrE)
  note big = Suc.prems[unfolded processLoop.simps Let_def, folded st1_def, unfolded line bindE_Inr]
  have call: "rounds code self env (InFunction el [], st2) (Finished, st')"
    if "bindE (functionExecution n code self env el st2) (processLoop n code self env) = Inr st'" for el st2
  proof -
    from that obtain st3 where "functionExecution n code self env el st2 = Inr st3" "processLoop n code self env st3 = Inr st'"
      by (rule bindE_InrE)
    then show ?thesis using functionExecution_rounds[where fr = "[]", OF _ back_to_caller(3)] Suc.IH by (meson rtranclp_trans)
  qed
  consider (out) "line = ''fin_programa'' \<or> \<not> running st1"
    | (stack) s el where "line \<noteq> ''fin_programa''" "running st1" "piStack (img st1) = s @ [el]"
    | (go) "line \<noteq> ''fin_programa''" "running st1" "piStack (img st1) = []"
    by (cases "piStack (img st1)" rule: rev_cases) auto
  then show ?case
  proof cases
    case out
    then have "exec_round code self InMain st1 = Inr (Finished, st')" using big line by (auto simp: exec_round_def)
    then show ?thesis using rounds_first[of InMain code self env st] by (simp add: st1_def)
  next
    case stack
    then have "exec_round code self InMain st1 = Inr (InFunction el [], set_stack s st1)"
      using line by (simp add: exec_round_def resume_snoc)
    moreover have "rounds code self env (InFunction el [], set_stack s st1) (Finished, st')"
      using big stack by (intro call) (simp add: stackExecution_snoc)
    ultimately show ?thesis using rounds_first[of InMain code self env st] by (simp add: st1_def)
  next
    case go
    define st2 where "st2 = set_PC (piPC (img st1) + 1) st1"
    note big = big[folded st2_def]
    from big go obtain l st3 c where l: "code_line code (piPC (img st2)) = Inr l" "main_instr code self l st2 = Inr (st3, c)"
      and rest: "(case c of None \<Rightarrow> processLoop n code self env st3
         | Some f \<Rightarrow> bindE (call_function code (functionExecution n code self env) f (piPC (img st3)) st3)
             (processLoop n code self env)) = Inr st'"
      by (auto elim!: bindE_InrE)
    have round: "exec_round code self InMain st1 =
        (case c of None \<Rightarrow> Inr (InMain, st3) | Some f \<Rightarrow> enter code f (piPC (img st3)) [] st3)"
      using go line l by (simp add: exec_round_def st2_def)
    show ?thesis
    proof (cases c)
      case None
      then have "rounds code self env (InMain, st3) (Finished, st')" using Suc.IH rest by simp
      then show ?thesis using rounds_first[of InMain code self env st] round None by (simp add: st1_def)
    next
      case (Some f)
      then obtain p where p: "findFunctionLine code f = Inr p"
        "bindE (functionExecution n code self env \<lparr>functionName = f, stPC = p, linecall = piPC (img st3)\<rparr> st3)
          (processLoop n code self env) = Inr st'"
        using rest by (auto simp: call_function_eq elim!: bindE_InrE)
      show ?thesis using rounds_first[of InMain code self env st] round Some p(1) call[OF p(2)] by (simp add: st1_def enter_def)
    qed
  qed
qed simp

lemma processExecution_rounds:
  assumes "processExecution n code self env st = Inr st'"
  shows "\<exists>x. exec_start st = Inr x \<and> rounds code self env x (Finished, st')"
proof (cases "piStack (img st)" rule: rev_cases)
  case Nil
  then have "processLoop n code self env st = Inr st'" using assms by (simp add: processExecution_def stackExecution_Nil)
  then show ?thesis using processLoop_rounds Nil by (simp add: exec_start_def)
next
  case (snoc s el)
  then obtain st1 where "functionExecution n code self env el (set_stack s st) = Inr st1" "processLoop n code self env st1 = Inr st'"
    using assms by (auto simp: processExecution_def stackExecution_snoc[OF snoc] elim!: bindE_InrE)
  then have "rounds code self env (InFunction el [], set_stack s st) (Finished, st')"
    using functionExecution_rounds[where fr = "[]", OF _ back_to_caller(3)] processLoop_rounds
    by (blast intro: rtranclp_trans)
  then show ?thesis using snoc by (simp add: exec_start_def resume_snoc)
qed

section \<open>Rounds as executions\<close>

text \<open>What is left of an execution from a control on: the waiting activations are unwound one by one.\<close>

primrec unwind :: "nat \<Rightarrow> string list \<Rightarrow> addr \<Rightarrow> environment \<Rightarrow> t_stack list \<Rightarrow> xstate \<Rightarrow> xstate res" where
  "unwind n code self env [] st = processLoop n code self env st"
| "unwind n code self env (el # fr) st =
     bindE (if piStack (img st) \<noteq> []
            then bindE (reorderStack (piStack (img st)) el) (\<lambda>(s, el2). functionExecution n code self env el2 (set_stack s st))
            else functionExecution n code self env el st)
       (unwind n code self env fr)"

definition rest_of :: "nat \<Rightarrow> string list \<Rightarrow> addr \<Rightarrow> environment \<Rightarrow> control \<times> xstate \<Rightarrow> xstate res" where
  "rest_of n code self env = (\<lambda>(c, st).
     case c of
       InMain \<Rightarrow> processLoop n code self env st
     | InFunction el fr \<Rightarrow> bindE (functionExecution n code self env el st) (unwind n code self env fr)
     | Finished \<Rightarrow> Inr st)"

lemma unwind_fuel: "n \<le> m \<Longrightarrow> fuel_le (unwind n code self env fr st) (unwind m code self env fr st)"
proof (induction fr arbitrary: st)
  case Nil
  then show ?case by (simp add: processLoop_fuel)
next
  case (Cons el fr)
  show ?case unfolding unwind.simps
    by (intro fuel_le_bindE Cons.IH[OF Cons.prems])
      (auto intro!: fuel_le_bindE functionExecution_fuel[OF Cons.prems])
qed

lemma back_to_rest: "back_to fr st = Inr x \<Longrightarrow> unwind n code self env fr st = rest_of n code self env x"
  by (cases fr) (auto simp: back_to_def rest_of_def elim!: bindE_InrE)

lemma bindE_assoc: "bindE (bindE m f) g = bindE m (\<lambda>x. bindE (f x) g)"
  by (cases m) simp_all

lemma more_fuel:
  assumes "bindE m (unwind n code self env fr) = Inr y"
  shows "bindE m (unwind (Suc n) code self env fr) = Inr y"
proof -
  from assms obtain b where "m = Inr b" "unwind n code self env fr b = Inr y" by (rule bindE_InrE)
  then show ?thesis using unwind_fuel[of n "Suc n" code self env fr b] by (simp add: fuel_le_def)
qed

text \<open>One round before what is left.\<close>

lemma round_rest:
  assumes "round_step code self env x y" and "rest_of n code self env y = Inr st'"
  shows "rest_of (Suc n) code self env x = Inr st'"
  using assms(1)
proof cases
  case (round c st)
  define st1 where "st1 = interfere env st"
  note ex = round(3)[folded st1_def]
  show ?thesis
  proof (cases c)
    case Finished
    then show ?thesis using round(2) by simp
  next
    case InMain
    with ex obtain line where line: "code_line code (piPC (img st1)) = Inr line"
      by (auto simp: exec_round_def elim!: bindE_InrE)
    note ex = ex[unfolded InMain exec_round_def control.case line bindE_Inr]
    have "processLoop (Suc n) code self env st = Inr st'"
      unfolding processLoop.simps Let_def st1_def[symmetric] line bindE_Inr
      using ex assms(2)
      by (auto simp: Let_def resume_stack_def stackExecution_def enter_def call_function_eq rest_of_def
          split: if_splits option.splits elim!: bindE_InrE)
    then show ?thesis using InMain round(1) by (simp add: rest_of_def)
  next
    case (InFunction el fr)
    with ex obtain line where line: "code_line code (stPC el) = Inr line"
      by (auto simp: exec_round_def elim!: bindE_InrE)
    note ex = ex[unfolded InFunction exec_round_def control.case line bindE_Inr]
    have "bindE (functionExecution (Suc n) code self env el st) (unwind n code self env fr) = Inr st'"
    proof (cases "\<not> at_end line el \<and> running st1")
      case True
      then show ?thesis
        unfolding functionExecution.simps Let_def st1_def[symmetric] line bindE_Inr
        using ex assms(2)
        by (auto simp: Let_def enter_def call_function_eq rest_of_def bindE_assoc if_distrib[where f = "\<lambda>m. bindE m _"]
            split: option.splits elim!: bindE_InrE)
    next
      case False
      then show ?thesis
        unfolding functionExecution.simps Let_def st1_def[symmetric] line bindE_Inr
        using ex assms(2) back_to_rest by (auto split: if_splits)
    qed
    then show ?thesis using InFunction round(1) more_fuel by (simp add: rest_of_def)
  qed
qed

lemma rounds_rest: "rounds code self env x (Finished, st') \<Longrightarrow> \<exists>n. rest_of n code self env x = Inr st'"
proof (induction rule: converse_rtranclp_induct)
  case base
  then show ?case by (simp add: rest_of_def)
next
  case (step x y)
  then show ?case using round_rest by blast
qed

lemma processExecution_iff_rounds:
  "(\<exists>n. processExecution n code self env st = Inr st') \<longleftrightarrow>
   (\<exists>x. exec_start st = Inr x \<and> rounds code self env x (Finished, st'))"
proof
  assume "\<exists>x. exec_start st = Inr x \<and> rounds code self env x (Finished, st')"
  then obtain x n where x: "exec_start st = Inr x" "rest_of n code self env x = Inr st'" using rounds_rest by blast
  then have "processExecution n code self env st = Inr st'"
    by (auto simp: exec_start_def resume_stack_def processExecution_def stackExecution_def rest_of_def
        split: if_splits option.splits elim!: bindE_InrE)
  then show "\<exists>n. processExecution n code self env st = Inr st'" ..
qed (blast dest: processExecution_rounds)

section \<open>What stops a round\<close>

text \<open>A round ends, unless it is undefined or locks a mutex twice; the interpreter cannot hang in it otherwise.\<close>

lemma faults_back_to: "UB \<in> E \<Longrightarrow> faults E (back_to fr st)"
  by (cases fr; cases "piStack (img st)" rule: rev_cases) (simp_all add: back_to_def)

lemma faults_enter: "UB \<in> E \<Longrightarrow> faults E (enter code f PC fr st)"
  by (auto simp: enter_def faults_sentences intro!: faults_bindE)

lemma faults_resume: "UB \<in> E \<Longrightarrow> faults E (resume_stack st)"
  by (cases "piStack (img st)" rule: rev_cases) (simp_all add: resume_stack_def stack_get_def ls_remove_def)

lemma faults_round:
  assumes "UB \<in> E" and "c = InMain \<and> io_available st \<longrightarrow> Deadlock \<in> E"
  shows "faults E (exec_round code self c st)"
proof (cases c)
  case InMain
  have "faults E (main_instr code self l (set_PC p st))" for l p
    using assms InMain by (intro faults_main_instr) (simp_all add: io_available_def)
  then show ?thesis using assms(1) InMain
    by (auto simp: exec_round_def Let_def faults_resume faults_enter split: option.split intro!: faults_bindE)
next
  case (InFunction el fr)
  then show ?thesis using assms(1)
    by (auto simp: exec_round_def Let_def faults_func_instr faults_enter faults_back_to split: option.split intro!: faults_bindE)
qed (simp add: exec_round_def)

section \<open>Invariants of rounds\<close>

text \<open>An invariant of the loops, where a round stands; one round keeps it, and says why the last one ended.\<close>

definition at_control :: "(xstate \<Rightarrow> bool) \<Rightarrow> (t_stack \<Rightarrow> t_stack list \<Rightarrow> xstate \<Rightarrow> bool) \<Rightarrow> control \<Rightarrow> xstate \<Rightarrow> bool" where
  "at_control M F c st = (case c of InMain \<Rightarrow> M st | InFunction el fr \<Rightarrow> F el fr st | Finished \<Rightarrow> M st)"

lemma at_control_simps [simp]:
  "at_control M F InMain st = M st" "at_control M F (InFunction el fr) st = F el fr st" "at_control M F Finished st = M st"
  by (simp_all add: at_control_def)

context exec_invariant begin

lemma back_to_post: "R fr st \<Longrightarrow> post u (\<lambda>(c, st'). c \<noteq> Finished \<and> at_control M F c st') (back_to fr st)"
proof (cases fr)
  case (Cons el fr')
  assume "R fr st"
  then show ?thesis
    using F_return[of el fr' st] F_reorder[of el fr' st] Cons
    by (cases "piStack (img st)" rule: rev_cases) (simp_all add: back_to_def)
qed (simp add: back_to_def R_M)

lemma exec_start_post: "M st \<Longrightarrow> post u (\<lambda>(c, st'). c \<noteq> Finished \<and> at_control M F c st') (exec_start st)"
  by (cases "piStack (img st)" rule: rev_cases) (simp_all add: exec_start_def resume_snoc M_resume)

lemma round_post:
  assumes "at_control M F c st" and "c \<noteq> Finished"
  shows "post u (\<lambda>(c', st'). at_control M F c' st' \<and> (c' = Finished \<longrightarrow> exited code st')) (exec_round code self c st)"
proof (cases c)
  case InMain
  then have M: "M st" using assms(1) by simp
  let ?l = "code_line code (piPC (img st))"
  show ?thesis
  proof (cases ?l)
    case (Inl e)
    then show ?thesis using M_line[OF M] InMain by (simp add: exec_round_def)
  next
    case (Inr line)
    consider (out) "line = ''fin_programa'' \<or> \<not> running st"
      | (stack) s el where "line \<noteq> ''fin_programa''" "running st" "piStack (img st) = s @ [el]"
      | (go) "line \<noteq> ''fin_programa''" "running st" "piStack (img st) = []"
      by (cases "piStack (img st)" rule: rev_cases) auto
    then show ?thesis
    proof cases
      case go
      show ?thesis using M_step[OF M go(3) Inr go(1,2) refl] go Inr InMain
        by (auto simp: exec_round_def Let_def enter_def split: option.splits elim!: post_mono)
    qed (use M M_resume[OF M] Inr InMain in \<open>auto simp: exec_round_def exited_def resume_snoc\<close>)
  qed
next
  case (InFunction el fr)
  then have F: "F el fr st" using assms(1) by simp
  show ?thesis
  proof (cases "code_line code (stPC el)")
    case (Inl e)
    then show ?thesis using F_line[OF F] InFunction by (simp add: exec_round_def)
  next
    case (Inr line)
    consider (fin) "at_end line el" | (stop) "\<not> at_end line el" "\<not> running st"
      | (go) "\<not> at_end line el" "running st" by blast
    then show ?thesis
    proof cases
      case fin
      then show ?thesis using back_to_post[OF F_end[OF F Inr fin]] Inr InFunction
        by (auto simp: exec_round_def elim!: post_mono)
    next
      case stop
      then show ?thesis using back_to_post[OF F_stop[OF F Inr stop]] Inr InFunction
        by (auto simp: exec_round_def ls_add_def elim!: post_mono)
    next
      case go
      show ?thesis using F_step[OF F Inr go refl] go Inr InFunction
        by (auto simp: exec_round_def Let_def enter_def split: option.splits elim!: post_mono)
    qed
  qed
qed (use assms(2) in simp)

end

end
