(* ===== verification/PP_Threads.thy ===== *)
theory PP_Threads
  imports PP_Interp PP_STS
begin

text \<open>
  The threads of the server around the scheduler and the interpreter: the handlers of \<open>LTSconex\<close> and
  the body of \<open>LTSnew\<close> (\<open>LTS.c\<close>), the body of \<open>ioThread\<close> (\<open>io.c\<close>), the body of \<open>PROCER\<close>
  (\<open>PROCER.c\<close>) and the signal handler (\<open>main.c\<close>), on the state they share. Each function is what a
  thread does between two points where it may block; a null pointer followed and an image used after
  it was freed are \<open>Inl UB\<close>. What is written to a client is appended to \<open>outbox\<close>.
\<close>

section \<open>The shared state\<close>

datatype procer_phase = Idle | Claimed

record system =
  sts :: t_STSargs
  shd :: shared
  images :: memory
  next_addr :: addr
  next_pid :: int
  LFIFO :: "addr list"
  LFIFO_empty :: nat
  LPS :: "addr list"
  MMP_sem :: nat
  MPS_sem :: nat
  procer :: procer_phase
  ltsnew_claimed :: bool
  io_running :: "t_ioProcessing list"
  outbox :: "t_msg list"
  TANT :: s32
  ALFA :: rat

definition write_client :: "int \<Rightarrow> char \<Rightarrow> string \<Rightarrow> system \<Rightarrow> system" where
  "write_client fd t text s = s\<lparr>outbox := outbox s @ [\<lparr>msg_fd = fd, msg_type = t, msg_text = text\<rparr>]\<rparr>"

text \<open>Queueing a process for the scheduler: push, announce it, and announce it to \<open>STS\<close>.\<close>

definition enqueue_source :: "int \<Rightarrow> addr \<Rightarrow> t_STSargs \<Rightarrow> t_STSargs" where
  "enqueue_source c p a = (case source_get c a of (n, q) \<Rightarrow>
     (source_put c (n + 1) (lq_push q p) a)\<lparr>STS_in_empty := STS_in_empty a + 1\<rparr>)"

section \<open>\<open>LTSconex\<close>\<close>

definition new_image :: "int \<Rightarrow> int \<Rightarrow> string \<Rightarrow> s32 \<Rightarrow> s32 \<Rightarrow> t_ProcessImage" where
  "new_image fd pd code prio tant = \<lparr>clientfd = fd, pid = pd, priority = prio, piPC = 0, piCode = code,
     piData = None, piStack = [], Tspn = of_int (sint tant)\<rparr>"

definition demorada :: string where
  "demorada = ''MMP superado, ejecuci'' @ [CHR 0xC3, CHR 0xB3] @ ''n demorada''"

text \<open>A new client has sent its first message.\<close>

definition LTSconex_new :: "int \<Rightarrow> char \<Rightarrow> string \<Rightarrow> s32 \<Rightarrow> system \<Rightarrow> system" where
  "LTSconex_new fd t script prio s =
     (if t \<noteq> CHR ''N'' then s
      else if MPS_sem s = 0 then write_client fd (CHR ''F'') ''MPS superado'' s
      else let p = next_addr s;
               s1 = s\<lparr>MPS_sem := MPS_sem s - 1, next_addr := next_addr s + 1, next_pid := next_pid s + 1,
                      images := (images s)(p \<mapsto> new_image fd (next_pid s) script prio (TANT s))\<rparr>
        in if MMP_sem s1 = 0
           then (write_client fd (CHR ''N'') demorada s1)
                  \<lparr>LFIFO := lq_push (LFIFO s1) p, LFIFO_empty := LFIFO_empty s1 + 1\<rparr>
           else (write_client fd NUL ''Script AnSISOP cargado'' s1)
                  \<lparr>MMP_sem := MMP_sem s1 - 1, sts := enqueue_source 5 p (sts s1)\<rparr>)"

text \<open>
  After the loop \<open>processImage\<close> is the element it stopped at, or the last one; with an empty list it
  was never set.
\<close>

definition restoreSuspended :: "memory \<Rightarrow> addr list \<Rightarrow> int \<Rightarrow> (addr option \<times> addr list) res" where
  "restoreSuspended mem lps fd =
     (if \<forall>p \<in> set lps. mem p \<noteq> None then
        let i = length (takeWhile (\<lambda>p. clientfd (the (mem p)) \<noteq> fd) lps)
        in if lps = [] then Inl UB
           else if i < length lps then ls_remove lps (int i)
           else Inr (None, lps)
      else Inl UB)"

text \<open>A client that is connected has sent something; \<open>None\<close> is a failed \<open>readStream\<close>.\<close>

definition LTSconex_resume :: "int \<Rightarrow> char option \<Rightarrow> system \<Rightarrow> system res" where
  "LTSconex_resume fd dataIn s =
     (if MMP_sem s = 0 then Inr s
      else let s1 = s\<lparr>MMP_sem := MMP_sem s - 1\<rparr> in
        case dataIn of
          None \<Rightarrow> Inr (s1\<lparr>MMP_sem := MMP_sem s1 + 1\<rparr>)
        | Some t \<Rightarrow>
            if t \<noteq> CHR ''R'' then Inr s1
            else bindE (restoreSuspended (images s1) (LPS s1) fd) (\<lambda>(processImage, lps).
              case processImage of
                Some p \<Rightarrow> Inr (s1\<lparr>LPS := lps, sts := enqueue_source 6 p (sts s1)\<rparr>)
              | None \<Rightarrow> Inr (s1\<lparr>LPS := lps, MMP_sem := MMP_sem s1 + 1\<rparr>)))"

definition list_fd_msg_get :: "t_msg list \<Rightarrow> int \<Rightarrow> (t_msg option \<times> t_msg list) res" where
  "list_fd_msg_get lista fd =
     (let i = length (takeWhile (\<lambda>m. msg_fd m \<noteq> fd) lista)
      in if lista = [] then Inl UB
         else if i < length lista then ls_remove lista (int i)
         else Inr (None, lista))"

text \<open>The socket of a client takes output.\<close>

definition LTSconex_out :: "int \<Rightarrow> system \<Rightarrow> system res" where
  "LTSconex_out fd s =
     (if sendingList (shd s) \<noteq> [] then
        bindE (list_fd_msg_get (sendingList (shd s)) fd) (\<lambda>(m, rest).
          let s1 = s\<lparr>shd := (shd s)\<lparr>sendingList := rest\<rparr>\<rparr>
          in case m of None \<Rightarrow> Inr s1 | Some x \<Rightarrow> Inr (write_client fd (msg_type x) (msg_text x) s1))
      else Inr s)"

section \<open>\<open>LTSnew\<close>\<close>

definition LTSnew_claim :: "system \<Rightarrow> system option" where
  "LTSnew_claim s = (if LFIFO_empty s > 0 \<and> \<not> ltsnew_claimed s
     then Some (s\<lparr>LFIFO_empty := LFIFO_empty s - 1, ltsnew_claimed := True\<rparr>) else None)"

definition LTSnew_move :: "system \<Rightarrow> system res" where
  "LTSnew_move s =
     (case lq_pop (LFIFO s) of
        (None, _) \<Rightarrow> Inl UB
      | (Some p, q) \<Rightarrow> bindE (load_img (images s) p) (\<lambda>_.
          Inr (s\<lparr>MMP_sem := MMP_sem s - 1, ltsnew_claimed := False, LFIFO := q,
                 sts := enqueue_source 5 p (sts s)\<rparr>)))"

section \<open>\<open>ioThread\<close>\<close>

text \<open>A thread takes a request and, before it sleeps, reads the number of its process.\<close>

definition ioThread_start :: "system \<Rightarrow> system res" where
  "ioThread_start s =
     (case lq_pop (LPB (shd s)) of
        (None, _) \<Rightarrow> Inl UB
      | (Some req, q) \<Rightarrow> bindE (load_img (images s) (io_image req)) (\<lambda>_.
          Inr (s\<lparr>shd := (shd s)\<lparr>LPB := q, LPB_empty := LPB_empty (shd s) - 1,
                                 ioThreads := ioThreads (shd s) - 1\<rparr>,
                 io_running := io_running s @ [req]\<rparr>)))"

definition ioThread_finish :: "nat \<Rightarrow> system \<Rightarrow> system res" where
  "ioThread_finish i s =
     bindE (arr_get (io_running s) i) (\<lambda>req.
     let s1 = s\<lparr>io_running := take i (io_running s) @ drop (Suc i) (io_running s),
                 shd := (shd s)\<lparr>ioThreads := ioThreads (shd s) + 1\<rparr>\<rparr>
     in if \<not> flagNonBlocking req then
          bindE (load_img (images s1) (io_image req)) (\<lambda>_.
          Inr (s1\<lparr>sts := enqueue_source 8 (io_image req) (sts s1)\<rparr>))
        else Inr s1)"

section \<open>\<open>PROCER\<close>\<close>

definition PROCER_claim :: "system \<Rightarrow> system option" where
  "PROCER_claim s = (if procer s = Idle \<and> LPL_empty (sts s) > 0
     then Some (s\<lparr>procer := Claimed, sts := (sts s)\<lparr>LPL_empty := LPL_empty (sts s) - 1\<rparr>\<rparr>) else None)"

text \<open>The state the interpreter starts from.\<close>

definition dispatch_state :: "t_ProcessImage \<Rightarrow> shared \<Rightarrow> xstate" where
  "dispatch_state i sd = \<lparr>img = i, sh = sd\<lparr>SUSPEND := False\<rparr>, ioBlockInterrupt = False,
     quantumCount = 0, rafaga = 0, tick = 0, slept = []\<rparr>"

text \<open>The next estimate, every operation on \<open>double\<close> rounded by \<open>rnd\<close>.\<close>

definition next_Tspn :: "(rat \<Rightarrow> rat) \<Rightarrow> rat \<Rightarrow> rat \<Rightarrow> rat \<Rightarrow> rat" where
  "next_Tspn rnd alfa tspn burst = rnd (rnd (tspn * alfa) + rnd (burst * rnd (1 - alfa)))"

definition send_list :: "t_ProcessImage \<Rightarrow> char \<Rightarrow> string \<Rightarrow> shared \<Rightarrow> shared" where
  "send_list i t text sd = sd\<lparr>sendingList := ls_add (sendingList sd)
     \<lparr>msg_fd = clientfd i, msg_type = t, msg_text = text\<rparr>\<rparr>"

text \<open>What follows the execution; \<open>i\<close> is the image with its new estimate, at \<open>p\<close>.\<close>

definition PROCER_after :: "string list \<Rightarrow> addr \<Rightarrow> t_ProcessImage \<Rightarrow> xstate \<Rightarrow> system \<Rightarrow> system res" where
  "PROCER_after code p i st s0 =
     (let s = s0\<lparr>images := (images s0)(p \<mapsto> i), shd := sh st\<rparr>;
          no_suspend = (\<lambda>sd. sd\<lparr>SUSPEND := False\<rparr>)
      in bindE (code_line code (piPC i)) (\<lambda>line.
         if line = ''fin_programa'' then
           bindE (prepareMessage i) (\<lambda>text.
           Inr (s\<lparr>shd := send_list i (CHR ''T'') text (no_suspend (shd s)),
                  images := (images s)(p := None),
                  MMP_sem := MMP_sem s + 1, MPS_sem := MPS_sem s + 1\<rparr>))
         else if ioBlockInterrupt st then Inr (s\<lparr>shd := no_suspend (shd s)\<rparr>)
         else if SUSPEND (shd s) then
           bindE (prepareMessage i) (\<lambda>text.
           Inr (s\<lparr>LPS := ls_add (LPS s) p, MMP_sem := MMP_sem s + 1,
                  shd := no_suspend (send_list i (CHR ''S'') text (shd s))\<rparr>))
         else if quantumCount st = quantum (shd s) then Inr (s\<lparr>sts := enqueue_source 7 p (sts s)\<rparr>)
         else Inr s))"

text \<open>From the pop to the next \<open>sem_wait\<close>; \<open>env\<close> and the fuel \<open>n\<close> are those of the interpreter.\<close>

definition PROCER_run :: "(rat \<Rightarrow> rat) \<Rightarrow> nat \<Rightarrow> environment \<Rightarrow> system \<Rightarrow> system res" where
  "PROCER_run rnd n env s =
     (case lq_pop (LPL (sts s)) of
        (None, _) \<Rightarrow> Inl UB
      | (Some p, q) \<Rightarrow>
          bindE (load_img (images s) p) (\<lambda>i.
          bindE (codeSegmentCreator (piCode i)) (\<lambda>code.
          bindE (processExecution n code p env (dispatch_state i (shd s))) (\<lambda>st.
          let i' = (img st)\<lparr>Tspn := next_Tspn rnd (ALFA s) (Tspn (img st)) (rafaga st)\<rparr>
          in PROCER_after code p i' st (s\<lparr>procer := Idle, sts := (sts s)\<lparr>LPL := q\<rparr>\<rparr>)))))"

section \<open>Signals\<close>

datatype signal = SIGUSR1 | SIGINT | OtherSignal

text \<open>The new state, and whether the handler ends, upon which \<open>main\<close> stops the server.\<close>

definition signal_handler :: "nat \<Rightarrow> signal \<Rightarrow> system \<Rightarrow> system \<times> bool" where
  "signal_handler MPS_max_val sig s =
     (case sig of
        SIGUSR1 \<Rightarrow> (s\<lparr>shd := (shd s)\<lparr>SUSPEND := True\<rparr>\<rparr>, False)
      | SIGINT \<Rightarrow> (s, MPS_sem s = MPS_max_val)
      | OtherSignal \<Rightarrow> (s, False))"

section \<open>The start\<close>

text \<open>\<open>main\<close>, once the configuration has been read.\<close>

definition main_init :: "nat \<Rightarrow> nat \<Rightarrow> nat \<Rightarrow> string \<Rightarrow> int \<Rightarrow> s32 \<Rightarrow> s32 \<Rightarrow> rat \<Rightarrow> t_queuesArray list \<Rightarrow> system" where
  "main_init MPS MMP io_threads alg q sent_time tant alfa qs =
     \<lparr>sts = \<lparr>LPN = [], LPR = [], LFIO = [], LFQ = [], LPL = [], LPN_empty = 0, LPR_empty = 0,
        LFIO_empty = 0, LFQ_empty = 0, LPL_empty = 0, STS_in_empty = 0, queuesArray = qs\<rparr>,
      shd = \<lparr>sendingList = [], LPB = [], LPB_empty = 0, ioThreads = io_threads, SUSPEND = False,
        ALG = alg, quantum = q, SENT_TIME = sent_time\<rparr>,
      images = (\<lambda>_. None), next_addr = 0, next_pid = 11, LFIFO = [], LFIFO_empty = 0, LPS = [],
      MMP_sem = MMP, MPS_sem = MPS, procer = Idle, ltsnew_claimed = False, io_running = [],
      outbox = [], TANT = tant, ALFA = alfa\<rparr>"

text \<open>The array of the queues before the first configuration.\<close>

definition initial_queues :: "t_queuesArray list" where
  "initial_queues = [\<lparr>qpriority = 0, qname = ''PLPN''\<rparr>, \<lparr>qpriority = 0, qname = ''PLPR''\<rparr>,
     \<lparr>qpriority = 0, qname = ''PLFQ''\<rparr>, \<lparr>qpriority = 0, qname = ''PLFIO''\<rparr>]"

end
