(* ===== verification/PP_Interp_Effect.thy ===== *)
theory PP_Interp_Effect
  imports PP_Interp_Spec
begin

text \<open>
  What an execution does to the structures it shares with the other threads, when these only set
  \<open>SUSPEND\<close> meanwhile (\<open>signal_env\<close>): every request it queues for the I/O threads is its own, it
  queues one blocking request exactly if it leaves because of it, and a process that leaves blocked
  or inside a call does not stand on its last line. \<open>PP_System\<close> needs no more of the interpreter.
\<close>

definition signal_env :: "environment \<Rightarrow> bool" where
  "signal_env env \<longleftrightarrow> (\<forall>k s. env k s = s\<lparr>SUSPEND := SUSPEND (env k s)\<rparr>)"

definition blocking :: "t_ioProcessing list \<Rightarrow> t_ioProcessing list" where
  "blocking rs = filter (\<lambda>r. \<not> flagNonBlocking r) rs"

definition requests :: "addr \<Rightarrow> shared \<Rightarrow> xstate \<Rightarrow> bool" where
  "requests self s0 st \<longleftrightarrow> (\<exists>new. LPB (sh st) = LPB s0 @ new \<and> LPB_empty (sh st) = LPB_empty s0 + length new
     \<and> (\<forall>r \<in> set new. io_image r = self)
     \<and> length (blocking new) = (if ioBlockInterrupt st then 1 else 0)) \<and> ioThreads (sh st) = ioThreads s0"

definition same_process :: "t_ProcessImage \<Rightarrow> t_ProcessImage \<Rightarrow> bool" where
  "same_process i j \<longleftrightarrow> clientfd j = clientfd i \<and> pid j = pid i \<and> priority j = priority i
     \<and> piCode j = piCode i \<and> Tspn j = Tspn i"

definition off_end :: "string list \<Rightarrow> xstate \<Rightarrow> bool" where
  "off_end code st \<longleftrightarrow> code_line code (piPC (img st)) \<noteq> Inr ''fin_programa''"

section \<open>One instruction\<close>

definition io_step :: "addr \<Rightarrow> xstate \<Rightarrow> xstate \<Rightarrow> bool" where
  "io_step self st st' \<longleftrightarrow> requests self (sh st) st'"

lemma blocking_simps [simp]:
  "blocking [] = []" "blocking (a @ b) = blocking a @ blocking b"
  "blocking (r # rs) = (if flagNonBlocking r then blocking rs else r # blocking rs)"
  by (simp_all add: blocking_def)

lemma io_step_pieces:
  assumes "\<not> ioBlockInterrupt st"
  shows "io_step self st st" "io_step self st (push_LPB self y True st)"
    "io_step self st ((push_LPB self y False st)\<lparr>ioBlockInterrupt := True\<rparr>)"
  using assms by (simp_all add: io_step_def requests_def piece_defs lq_push_def)

text \<open>The parts of the state the requests do not depend on.\<close>

lemma requests_cong:
  "LPB (sh st') = LPB (sh st) \<Longrightarrow> LPB_empty (sh st') = LPB_empty (sh st) \<Longrightarrow> ioThreads (sh st') = ioThreads (sh st)
   \<Longrightarrow> ioBlockInterrupt st' = ioBlockInterrupt st \<Longrightarrow> requests self s0 st' = requests self s0 st"
  by (simp add: requests_def)

lemma requests_trans:
  assumes "requests self s0 st" and "\<not> ioBlockInterrupt st" and "requests self (sh st) st'"
  shows "requests self s0 st'"
proof -
  obtain a b where a: "LPB (sh st) = LPB s0 @ a" "LPB_empty (sh st) = LPB_empty s0 + length a"
      "\<forall>r \<in> set a. io_image r = self" "blocking a = []"
    and b: "LPB (sh st') = LPB (sh st) @ b" "LPB_empty (sh st') = LPB_empty (sh st) + length b"
      "\<forall>r \<in> set b. io_image r = self" "length (blocking b) = (if ioBlockInterrupt st' then 1 else 0)"
    using assms by (auto simp: requests_def)
  have "LPB (sh st') = LPB s0 @ (a @ b) \<and> LPB_empty (sh st') = LPB_empty s0 + length (a @ b)
      \<and> (\<forall>r \<in> set (a @ b). io_image r = self)
      \<and> length (blocking (a @ b)) = (if ioBlockInterrupt st' then 1 else 0)"
    using a b by auto
  then have "\<exists>new. LPB (sh st') = LPB s0 @ new \<and> LPB_empty (sh st') = LPB_empty s0 + length new
      \<and> (\<forall>r \<in> set new. io_image r = self) \<and> length (blocking new) = (if ioBlockInterrupt st' then 1 else 0)"
    by blast
  then show ?thesis using assms(1,3) by (simp add: requests_def)
qed

lemma io_step_steps:
  "io_step self st st1 \<Longrightarrow> io_step self st (set_data d st1)"
  "io_step self st st1 \<Longrightarrow> io_step self st (set_PC p st1)"
  "io_step self st st1 \<Longrightarrow> io_step self st (send_N t st1)"
  "io_step self st st1 \<Longrightarrow> io_step self st (do_sleep x st1)"
  "io_step self st st1 \<Longrightarrow> io_step self st (charge st1)"
  unfolding io_step_def by (subst requests_cong; simp add: piece_defs)+

lemma store_result_step:
  "io_step self st st1 \<Longrightarrow> store_result line x st1 = Inr st2 \<Longrightarrow> io_step self st st2"
  by (auto simp: store_result_def res_simps intro: io_step_steps)

lemma jump_step: "io_step self st st1 \<Longrightarrow> jump_if b code line st1 = Inr st2 \<Longrightarrow> io_step self st st2"
  by (auto simp: jump_if_def res_simps intro: io_step_steps split: if_splits)

lemma store_result_eq: "store_result line x st = Inr st' \<Longrightarrow> \<exists>d. st' = set_data d st"
  by (auto simp: store_result_def res_simps)

lemma ins_requests:
  assumes "\<not> ioBlockInterrupt st"
  shows "post True (io_step self st) (ins_variables line st)"
    "post True (io_step self st) (ins_imprimir line st)"
    "post True (io_step self st) (ins_ssc code line st)"
    "post True (io_step self st) (ins_snc code line st)"
    "post True (io_step self st) (ins_assign line st)"
    "post True (io_step self st) (ins_io_assign_main self line st)"
    "post True (io_step self st) (ins_io_assign_func self line PC st)"
    "post True (io_step self st) (ins_io width self line PC st)"
proof -
  note p = io_step_pieces[OF assms]
  show "post True (io_step self st) (ins_variables line st)" "post True (io_step self st) (ins_imprimir line st)"
    "post True (io_step self st) (ins_assign line st)"
    by (auto simp: ins_variables_def ins_imprimir_def ins_assign_def post_True_iff res_simps Let_def
        intro!: io_step_steps p)
  show "post True (io_step self st) (ins_ssc code line st)" "post True (io_step self st) (ins_snc code line st)"
    by (auto simp: ins_ssc_def ins_snc_def post_True_iff res_simps Let_def intro!: io_step_steps
        intro: jump_step[OF p(1)])
  show "post True (io_step self st) (ins_io width self line PC st)"
    by (auto simp: ins_io_def post_True_iff res_simps intro!: io_step_steps p split: if_splits)
  have blocked: "io_step self st (st1\<lparr>ioBlockInterrupt := True\<rparr>)"
    if store: "store_result line x (push_LPB self y False st) = Inr st1" for x y st1
  proof -
    from store_result_eq[OF store] obtain d where "st1 = set_data d (push_LPB self y False st)" ..
    then have "st1\<lparr>ioBlockInterrupt := True\<rparr> = set_data d ((push_LPB self y False st)\<lparr>ioBlockInterrupt := True\<rparr>)"
      by simp
    then show ?thesis using io_step_steps(1)[OF p(3)] by simp
  qed
  show "post True (io_step self st) (ins_io_assign_main self line st)"
    "post True (io_step self st) (ins_io_assign_func self line PC st)"
    by (auto simp: ins_io_assign_main_def ins_io_assign_func_def post_True_iff res_simps Let_def
        intro!: io_step_steps intro: store_result_step[OF p(1)] store_result_step[OF p(2)] blocked
        split: if_splits)
qed

lemma main_instr_requests:
  "\<not> ioBlockInterrupt st \<Longrightarrow> post True (\<lambda>(st', call). io_step self st st') (main_instr code self line st)"
  by (intro main_instr_post ins_requests io_step_pieces(1))

lemma func_instr_requests:
  "\<not> ioBlockInterrupt st \<Longrightarrow> post True (\<lambda>(st', call). io_step self st st') (func_instr self line PC st)"
  by (intro func_instr_post ins_requests io_step_pieces(1))

text \<open>Only the main program jumps, and not after a request.\<close>

lemma ins_PC:
  "post True (\<lambda>st'. piPC (img st') = piPC (img st)) (ins_imprimir line st)"
  "post True (\<lambda>st'. piPC (img st') = piPC (img st)) (ins_assign line st)"
  "post True (\<lambda>st'. piPC (img st') = piPC (img st)) (ins_io_assign_main self line st)"
  "post True (\<lambda>st'. piPC (img st') = piPC (img st)) (ins_io width self line PC st)"
  by (auto simp: ins_imprimir_def ins_assign_def ins_io_assign_main_def ins_io_def store_result_def
      pieces_PC Let_def post_True_iff res_simps split: if_splits)

lemma ins_no_request:
  "post True (\<lambda>st'. ioBlockInterrupt st' = ioBlockInterrupt st) (ins_variables line st)"
  "post True (\<lambda>st'. ioBlockInterrupt st' = ioBlockInterrupt st) (ins_ssc code line st)"
  "post True (\<lambda>st'. ioBlockInterrupt st' = ioBlockInterrupt st) (ins_snc code line st)"
  by (auto simp: ins_variables_def ins_ssc_def ins_snc_def jump_if_def piece_defs post_True_iff
      res_simps Let_def split: if_splits)

lemma last_line_inert: "main_instr code self ''fin_programa'' st = Inr (st, None)"
proof -
  have "\<not> is_skip ''fin_programa''" "\<not> string_starts_with ''fin_programa'' ''variables''"
    "\<not> string_starts_with ''fin_programa'' ''imprimir''" "\<not> string_starts_with ''fin_programa'' ''ssc''"
    "\<not> string_starts_with ''fin_programa'' ''snc''" "cchar ''fin_programa'' 1 = Inr (CHR ''i'')"
    "\<not> string_starts_with ''fin_programa'' ''io(''" "\<not> string_ends_with ''fin_programa'' ''()''"
    by code_simp+
  then show ?thesis by (simp add: main_instr_def)
qed

text \<open>The interpreter blocks, or calls, on a line of the main program that is not the last one.\<close>

lemma main_instr_off_end:
  assumes "\<not> ioBlockInterrupt st"
  shows "post True (\<lambda>(st', call). ioBlockInterrupt st' \<or> call \<noteq> None
      \<longrightarrow> piPC (img st') = piPC (img st) \<and> line \<noteq> ''fin_programa'') (main_instr code self line st)"
proof (cases "line = ''fin_programa''")
  case False
  then show ?thesis
    by (intro main_instr_post) (use False ins_PC ins_no_request assms in \<open>auto simp: post_True_iff\<close>)
qed (use assms in \<open>simp add: last_line_inert\<close>)

section \<open>The execution\<close>

definition tracked :: "addr \<Rightarrow> t_ProcessImage \<Rightarrow> shared \<Rightarrow> xstate \<Rightarrow> bool" where
  "tracked self i0 s0 st \<longleftrightarrow> requests self s0 st \<and> same_process i0 (img st) \<and> quantum (sh st) = quantum s0
     \<and> ALG (sh st) = ALG s0"

lemma tracked_cong:
  "requests self s0 st' = requests self s0 st \<Longrightarrow> same_process (img st) (img st') \<Longrightarrow> quantum (sh st') = quantum (sh st)
   \<Longrightarrow> ALG (sh st') = ALG (sh st) \<Longrightarrow> tracked self i0 s0 st' = tracked self i0 s0 st"
  by (auto simp: tracked_def same_process_def)

lemma tracked_parts [simp]:
  "tracked self i0 s0 (set_stack s st) = tracked self i0 s0 st"
  "tracked self i0 s0 (set_PC p st) = tracked self i0 s0 st"
  by (rule tracked_cong; simp add: requests_def same_process_def)+

lemma tracked_interfere:
  assumes "signal_env env"
  shows "tracked self i0 s0 (interfere env st) = tracked self i0 s0 st"
proof -
  have e: "env (tick st) (sh st) = (sh st)\<lparr>SUSPEND := SUSPEND (env (tick st) (sh st))\<rparr>"
    using assms by (simp add: signal_env_def)
  have "LPB (env (tick st) (sh st)) = LPB (sh st)" "LPB_empty (env (tick st) (sh st)) = LPB_empty (sh st)"
    "ioThreads (env (tick st) (sh st)) = ioThreads (sh st)" "quantum (env (tick st) (sh st)) = quantum (sh st)"
    "ALG (env (tick st) (sh st)) = ALG (sh st)"
    by (subst e, simp)+
  then show ?thesis by (intro tracked_cong requests_cong) (simp_all add: same_process_def)
qed

lemma tracked_step:
  assumes "tracked self i0 s0 st" and "\<not> ioBlockInterrupt st" and "io_step self st st'" and "effect st st'"
  shows "tracked self i0 s0 st'"
  using assms requests_trans[of self s0 st st']
  by (auto simp: tracked_def io_step_def same_process_def effect_def)

lemma off_end_interfere [simp]: "off_end code (interfere env st) = off_end code st"
  by (simp add: off_end_def)

lemma off_end_stack [simp]: "off_end code (set_stack s st) = off_end code st"
  by (simp add: off_end_def)

lemma requests_invariant:
  assumes env: "signal_env env"
  shows "exec_invariant True code self env
    (\<lambda>st. tracked self i0 s0 st \<and> (ioBlockInterrupt st \<or> piStack (img st) \<noteq> [] \<longrightarrow> off_end code st))
    (\<lambda>_ _ st. tracked self i0 s0 st \<and> off_end code st) (\<lambda>_ st. tracked self i0 s0 st \<and> off_end code st)"
proof unfold_locales
  fix el fr st line and el1 :: t_stack
  assume F: "tracked self i0 s0 st \<and> off_end code st" and st: "running st"
  have "tracked self i0 s0 st1 \<and> off_end code st1"
    if "func_instr self l (stPC el1) st = Inr (st1, call)" for l st1 call
  proof -
    have "io_step self st st1" "effect st st1" "piPC (img st1) = piPC (img st)"
      using that st func_instr_requests[of st self l "stPC el1"] func_instr_effect[of st self l "stPC el1"]
        func_instr_PC[of st self l "stPC el1"]
      by (auto simp: post_True_iff running_def)
    then show ?thesis using F st tracked_step by (auto simp: running_def off_end_def)
  qed
  then show "post True (\<lambda>l. post True (\<lambda>(st1, call). case call of
        None \<Rightarrow> tracked self i0 s0 st1 \<and> off_end code st1
      | Some f \<Rightarrow> post True (\<lambda>p. tracked self i0 s0 st1 \<and> off_end code st1) (findFunctionLine code f))
      (func_instr self l (stPC el1) st)) (code_line code (stPC el1))"
    by (auto simp: post_True_iff split: option.splits)
next
  fix st line st1
  assume M: "tracked self i0 s0 st \<and> (ioBlockInterrupt st \<or> piStack (img st) \<noteq> [] \<longrightarrow> off_end code st)"
    and st: "running st" "piStack (img st) = []" and st1: "st1 = set_PC (piPC (img st) + 1) st"
  have run: "tracked self i0 s0 st2 \<and> piStack (img st2) = []
      \<and> (ioBlockInterrupt st2 \<or> call \<noteq> None \<longrightarrow> off_end code st2)"
    if l: "code_line code (piPC (img st1)) = Inr l" and ins: "main_instr code self l st1 = Inr (st2, call)"
    for l st2 call
  proof -
    have nb: "\<not> ioBlockInterrupt st1" using st by (simp add: st1 running_def)
    have step: "io_step self st1 st2" "effect st1 st2"
        "ioBlockInterrupt st2 \<or> call \<noteq> None \<longrightarrow> piPC (img st2) = piPC (img st1) \<and> l \<noteq> ''fin_programa''"
      using ins main_instr_requests[OF nb, where line = l and code = code and self = self] main_instr_effect[of st1 code self l]
        main_instr_off_end[OF nb, where line = l and code = code and self = self]
      by (auto simp: post_True_iff)
    have "tracked self i0 s0 st1" using M by (simp add: st1)
    from tracked_step[OF this nb step(1,2)] step l st(2) show ?thesis
      by (auto simp: off_end_def effect_def st1)
  qed
  then show "post True (\<lambda>l. post True (\<lambda>(st2, call). case call of
        None \<Rightarrow> tracked self i0 s0 st2 \<and> (ioBlockInterrupt st2 \<or> piStack (img st2) \<noteq> [] \<longrightarrow> off_end code st2)
      | Some f \<Rightarrow> post True (\<lambda>p. tracked self i0 s0 st2 \<and> off_end code st2) (findFunctionLine code f))
      (main_instr code self l st1)) (code_line code (piPC (img st1)))"
    by (fastforce simp: post_True_iff split: option.splits)
qed (use tracked_interfere[OF env] in \<open>auto simp: post_True_iff\<close>)

text \<open>The summary for an image that fits: where its execution ends, and what it leaves behind.\<close>

definition parked :: "t_ProcessImage \<Rightarrow> string list \<Rightarrow> bool" where
  "parked i code \<longleftrightarrow> (piStack i \<noteq> [] \<longrightarrow> code_line code (piPC i) \<noteq> Inr ''fin_programa'')"

lemma signal_env_quantum: "signal_env env \<Longrightarrow> keeps_quantum env"
  unfolding keeps_quantum_def
proof (intro allI)
  fix k s
  assume "signal_env env"
  then have "env k s = s\<lparr>SUSPEND := SUSPEND (env k s)\<rparr>" by (simp add: signal_env_def)
  then show "quantum (env k s) = quantum s" by (rule arg_cong[where f = quantum, THEN trans]) simp
qed

lemma execution_summary:
  assumes env: "signal_env env" and run: "processExecution n code self env (dispatch) = Inr st"
    and fresh: "\<not> ioBlockInterrupt dispatch" "quantumCount dispatch = 0" and q: "0 \<le> quantum (sh dispatch)"
    and parked: "parked (img dispatch) code"
  shows "requests self (sh dispatch) st" "same_process (img dispatch) (img st)" "parked (img st) code"
    "quantum (sh st) = quantum (sh dispatch)" "ALG (sh st) = ALG (sh dispatch)"
    "exited code st" "ioBlockInterrupt st \<longrightarrow> off_end code st" "quantumCount st \<le> quantum (sh st)"
proof -
  have "requests self (sh dispatch) dispatch" using fresh by (simp add: requests_def)
  then have "tracked self (img dispatch) (sh dispatch) dispatch" by (simp add: tracked_def same_process_def)
  moreover have "ioBlockInterrupt dispatch \<or> piStack (img dispatch) \<noteq> [] \<longrightarrow> off_end code dispatch"
    using fresh parked by (auto simp: off_end_def parked_def)
  ultimately have "post True (\<lambda>st. (tracked self (img dispatch) (sh dispatch) st
      \<and> (ioBlockInterrupt st \<or> piStack (img st) \<noteq> [] \<longrightarrow> off_end code st)) \<and> exited code st)
      (processExecution n code self env dispatch)"
    using exec_invariant.processExecution_post[OF requests_invariant[OF env]] by blast
  then have t: "tracked self (img dispatch) (sh dispatch) st"
      "ioBlockInterrupt st \<or> piStack (img st) \<noteq> [] \<longrightarrow> off_end code st" "exited code st"
    using run by auto
  have "post True (\<lambda>st. within_quantum st \<and> exited code st) (processExecution n code self env dispatch)"
    using exec_invariant.processExecution_post[OF quantum_invariant[OF signal_env_quantum[OF env]]] fresh q
    by (simp add: within_quantum_def)
  then show "quantumCount st \<le> quantum (sh st)" using run by (simp add: within_quantum_def)
  show "requests self (sh dispatch) st" "same_process (img dispatch) (img st)" "parked (img st) code"
    "quantum (sh st) = quantum (sh dispatch)" "ALG (sh st) = ALG (sh dispatch)"
    "exited code st" "ioBlockInterrupt st \<longrightarrow> off_end code st"
    using t by (auto simp: tracked_def parked_def off_end_def)
qed

end
