(* ===== verification/PP_System.thy ===== *)
theory PP_System
  imports PP_Threads PP_Interp_Effect PP_STS_Spec
begin

text \<open>
  The server as a whole: a step is what one thread does between two points where it may block, on
  the shared state of \<open>PP_Threads\<close>. The loop of \<open>ordenarFIFO\<close> is taken apart into the moves of single
  processes, from any source queue whose semaphore allows it; a sorting round, and the execution of
  a process from its dispatch until it leaves the processor, is one step (signals arrive in it at
  every sentence).

  The invariants: every live image stands in exactly one queue (\<open>owns\<close>), every semaphore counts its
  queue (\<open>sems\<close>), and the two limits \<open>MPS\<close> and \<open>MMP\<close>. The first two need \<open>FIFO\<close> or \<open>RR\<close>.
\<close>

section \<open>The steps\<close>

text \<open>One round of the inner loop of \<open>ordenarFIFO\<close>, once \<open>sem_trywait\<close> has succeeded.\<close>

definition STS_take :: "memory \<Rightarrow> int \<Rightarrow> t_STSargs \<Rightarrow> t_STSargs res" where
  "STS_take mem c s =
     (let s1 = s\<lparr>STS_in_empty := STS_in_empty s - 1\<rparr>
      in case lq_pop (snd (source_get c s1)) of
           (None, _) \<Rightarrow> Inl UB
         | (Some p, q) \<Rightarrow> bindE (load_img mem p) (\<lambda>_.
             Inr (push_LPL p (source_put c (fst (source_get c s1) - 1) q s1))))"

inductive sys_step :: "(rat \<Rightarrow> rat) \<Rightarrow> system \<Rightarrow> system \<Rightarrow> bool" for rnd :: "rat \<Rightarrow> rat" where
  new_script: "sys_step rnd s (LTSconex_new fd t script prio s)"
| message: "LTSconex_resume fd dataIn s = Inr s' \<Longrightarrow> sys_step rnd s s'"
| flush: "LTSconex_out fd s = Inr s' \<Longrightarrow> sys_step rnd s s'"
| admit_wait: "LTSnew_claim s = Some s' \<Longrightarrow> sys_step rnd s s'"
| admit: "ltsnew_claimed s \<Longrightarrow> MMP_sem s > 0 \<Longrightarrow> LTSnew_move s = Inr s' \<Longrightarrow> sys_step rnd s s'"
| take_one: "strSwitch (ALG (shd s)) \<in> {1, 2} \<Longrightarrow> c \<in> {5, 6, 7, 8} \<Longrightarrow> 0 < source_sem c (sts s)
    \<Longrightarrow> STS_take (images s) c (sts s) = Inr sts' \<Longrightarrow> sys_step rnd s (s\<lparr>sts := sts'\<rparr>)"
| sort_all: "strSwitch (ALG (shd s)) \<in> {3, 4} \<Longrightarrow> 0 < STS_in_empty (sts s)
    \<Longrightarrow> STS_round n (images s) (ALG (shd s)) (sts s) = Inr (Some sts') \<Longrightarrow> sys_step rnd s (s\<lparr>sts := sts'\<rparr>)"
| claim: "PROCER_claim s = Some s' \<Longrightarrow> sys_step rnd s s'"
| run: "procer s = Claimed \<Longrightarrow> signal_env env \<Longrightarrow> PROCER_run rnd n env s = Inr s' \<Longrightarrow> sys_step rnd s s'"
| io_start: "0 < LPB_empty (shd s) \<Longrightarrow> 0 < ioThreads (shd s) \<Longrightarrow> ioThread_start s = Inr s' \<Longrightarrow> sys_step rnd s s'"
| io_finish: "ioThread_finish i s = Inr s' \<Longrightarrow> sys_step rnd s s'"
| signal: "sys_step rnd s (fst (signal_handler m sig s))"

inductive_cases sys_stepE: "sys_step rnd s s'"

abbreviation sys_steps :: "(rat \<Rightarrow> rat) \<Rightarrow> system \<Rightarrow> system \<Rightarrow> bool" where
  "sys_steps rnd \<equiv> (sys_step rnd)\<^sup>*\<^sup>*"

section \<open>Invariants\<close>

definition sts_processes :: "t_STSargs \<Rightarrow> addr list" where
  "sts_processes a = LPN a @ LPR a @ LFIO a @ LFQ a @ LPL a"

abbreviation blocked :: "t_ioProcessing list \<Rightarrow> addr list" where
  "blocked rs \<equiv> map io_image (blocking rs)"

definition placed :: "system \<Rightarrow> addr list" where
  "placed s = LFIFO s @ LPS s @ sts_processes (sts s) @ blocked (LPB (shd s)) @ blocked (io_running s)"

definition owns :: "system \<Rightarrow> bool" where
  "owns s \<longleftrightarrow> distinct (placed s) \<and> set (placed s) = dom (images s) \<and> (\<forall>p \<in> dom (images s). p < next_addr s)"

definition sts_sems :: "nat \<Rightarrow> t_STSargs \<Rightarrow> bool" where
  "sts_sems claimed a \<longleftrightarrow> (\<forall>c \<in> {5, 6, 7, 8}. source_sem c a = length (source_queue c a))
     \<and> LPL_empty a + claimed = length (LPL a)
     \<and> STS_in_empty a = length (LPN a) + length (LPR a) + length (LFIO a) + length (LFQ a)"

definition sems :: "system \<Rightarrow> bool" where
  "sems s \<longleftrightarrow> sts_sems (if procer s = Claimed then 1 else 0) (sts s)
     \<and> LFIFO_empty s + (if ltsnew_claimed s then 1 else 0) = length (LFIFO s)
     \<and> LPB_empty (shd s) = length (LPB (shd s))"

definition in_order :: "system \<Rightarrow> bool" where
  "in_order s \<longleftrightarrow> strSwitch (ALG (shd s)) \<in> {1, 2} \<and> 0 \<le> quantum (shd s)
     \<and> (\<forall>p i code. images s p = Some i \<longrightarrow> codeSegmentCreator (piCode i) = Inr code \<longrightarrow> parked i code)"

text \<open>The limits; the second is an inequality, since a message that is not \<open>R\<close> takes from it.\<close>

definition mps_ok :: "nat \<Rightarrow> system \<Rightarrow> bool" where
  "mps_ok MPS s \<longleftrightarrow> finite (dom (images s)) \<and> (\<forall>p \<in> dom (images s). p < next_addr s)
     \<and> MPS_sem s + card (dom (images s)) = MPS"

definition mmp_ok :: "nat \<Rightarrow> system \<Rightarrow> bool" where
  "mmp_ok MMP s \<longleftrightarrow> MMP_sem s + card (dom (images s)) \<le> MMP + length (LFIFO s) + length (LPS s)"

section \<open>Single operations\<close>

lemma enqueue_processes:
  "c \<in> {5, 6, 7, 8} \<Longrightarrow> mset (sts_processes (enqueue_source c p a)) = add_mset p (mset (sts_processes a))"
  by (auto simp: enqueue_source_def sts_processes_def source_get_def source_put_def)

lemma enqueue_sems: "c \<in> {5, 6, 7, 8} \<Longrightarrow> sts_sems k a \<Longrightarrow> sts_sems k (enqueue_source c p a)"
  by (auto simp: enqueue_source_def sts_sems_def source_get_def source_put_def)

lemma STS_take_eq:
  assumes "STS_take mem c a = Inr a'"
  obtains p q where "source_queue c a = p # q" "mem p \<noteq> None"
    "a' = push_LPL p (source_put c (source_sem c a - 1) q (a\<lparr>STS_in_empty := STS_in_empty a - 1\<rparr>))"
  using assms
  by (cases "source_queue c a")
    (auto simp: STS_take_def load_img_def res_simps Let_def split: option.splits)

definition take_step :: "memory \<Rightarrow> t_STSargs \<Rightarrow> t_STSargs \<Rightarrow> bool" where
  "take_step mem a b \<longleftrightarrow> (\<exists>c \<in> {5, 6, 7, 8}. 0 < source_sem c a \<and> STS_take mem c a = Inr b)"

text \<open>\<open>ordenarFIFO\<close>, when no one interferes, is a sequence of such moves.\<close>

lemma drain_takes:
  "c \<in> {5, 6, 7, 8} \<Longrightarrow> source_sem c a = n \<Longrightarrow> drain n mem to_LPL c (a, l) = Inr (a', l')
   \<Longrightarrow> (take_step mem)\<^sup>*\<^sup>* a a'"
proof (induction n arbitrary: a l)
  case 0
  then show ?case by simp
next
  case (Suc n)
  have push: "to_LPL p (x, l) = (push_LPL p x, l)" for p x by (simp add: to_LPL_def)
  from Suc.prems(3) obtain p q where q: "source_queue c a = p # q" "mem p \<noteq> None"
      and d: "drain n mem to_LPL c (push_LPL p (source_put c n q (a\<lparr>STS_in_empty := STS_in_empty a - 1\<rparr>)), l) = Inr (a', l')"
    by (cases "source_queue c a") (auto simp: load_img_def push res_simps Let_def split: option.splits)
  have "STS_take mem c a = Inr (push_LPL p (source_put c n q (a\<lparr>STS_in_empty := STS_in_empty a - 1\<rparr>)))"
    using q Suc.prems(2) by (auto simp: STS_take_def load_img_def)
  moreover have "source_sem c (push_LPL p (source_put c n q (a\<lparr>STS_in_empty := STS_in_empty a - 1\<rparr>))) = n"
    using Suc.prems(1) by (simp add: push_LPL_def)
  ultimately have "take_step mem a (push_LPL p (source_put c n q (a\<lparr>STS_in_empty := STS_in_empty a - 1\<rparr>)))"
      "(take_step mem)\<^sup>*\<^sup>* (push_LPL p (source_put c n q (a\<lparr>STS_in_empty := STS_in_empty a - 1\<rparr>))) a'"
    using Suc.IH[OF Suc.prems(1) _ d] Suc.prems(1,2) unfolding take_step_def by auto
  then show ?case by (rule converse_rtranclp_into_rtranclp)
qed

lemma strSwitch_range: "0 < fst (source_get c a) \<Longrightarrow> c \<in> {5, 6, 7, 8}"
  by (auto simp: source_get_def split: if_splits)

lemma ordenarFIFO_takes:
  assumes "ordenarFIFO mem a = Inr a'"
  shows "(take_step mem)\<^sup>*\<^sup>* a a'"
proof -
  have "drain_all mem to_LPL qas (a, l) = Inr (a', l') \<Longrightarrow>
      (take_step mem)\<^sup>*\<^sup>* a a'" for qas a l l'
  proof (induction qas arbitrary: a l)
    case Nil
    then show ?case by simp
  next
    case (Cons qa qas)
    then obtain b m where d: "drain (source_sem (strSwitch (qname qa)) a) mem to_LPL (strSwitch (qname qa)) (a, l) = Inr (b, m)"
        "drain_all mem to_LPL qas (b, m) = Inr (a', l')"
      by (auto simp: res_simps)
    show ?case
    proof (cases "source_sem (strSwitch (qname qa)) a = 0")
      case True
      then show ?thesis using d Cons.IH by simp
    next
      case False
      then have "strSwitch (qname qa) \<in> {5, 6, 7, 8}" by (intro strSwitch_range) simp
      from drain_takes[OF this refl d(1)] Cons.IH[OF d(2)] show ?thesis by (rule rtranclp_trans)
    qed
  qed
  then show ?thesis using assms by (auto simp: ordenarFIFO_def res_simps)
qed

lemma STS_take_processes:
  assumes "c \<in> {5, 6, 7, 8}" and "STS_take mem c a = Inr a'"
  shows "mset (sts_processes a') = mset (sts_processes a)"
  using assms
  by (elim STS_take_eq)
    (auto simp: sts_processes_def push_LPL_def source_get_def source_put_def split: if_splits)

lemma STS_take_sems:
  assumes "c \<in> {5, 6, 7, 8}" and "STS_take mem c a = Inr a'" and "0 < source_sem c a" and "sts_sems k a"
  shows "sts_sems k a'"
  using assms
  by (elim STS_take_eq)
    (auto simp: sts_sems_def push_LPL_def source_get_def source_put_def split: if_splits)

section \<open>Ownership\<close>

lemma owns_keep:
  assumes "owns s" and "mset (placed s') = mset (placed s)" and "dom (images s') = dom (images s)"
    and "next_addr s' = next_addr s"
  shows "owns s'"
  using assms mset_eq_setD[OF assms(2)] mset_eq_imp_distinct_iff[OF assms(2)] by (simp add: owns_def)

lemma owns_add:
  assumes "owns s" and "mset (placed s') = add_mset (next_addr s) (mset (placed s))"
    and "images s' = (images s)(next_addr s \<mapsto> i)" and "next_addr s' = next_addr s + 1"
  shows "owns s'"
proof -
  have m: "mset (placed s') = mset (next_addr s # placed s)" using assms(2) by simp
  have "next_addr s \<notin> dom (images s)" using assms(1) by (auto simp: owns_def)
  then show ?thesis
    using assms mset_eq_setD[OF m] mset_eq_imp_distinct_iff[OF m]
    by (auto simp: owns_def less_Suc_eq)
qed

lemma owns_remove:
  assumes "owns s" and "mset (placed s) = add_mset p (mset (placed s'))"
    and "dom (images s') = dom (images s) - {p}" and "next_addr s' = next_addr s"
  shows "owns s'"
proof -
  have m: "mset (placed s) = mset (p # placed s')" using assms(2) by simp
  show ?thesis
    using assms mset_eq_setD[OF m] mset_eq_imp_distinct_iff[OF m] by (auto simp: owns_def)
qed

text \<open>
  How a process leaves the processor: it has ended and is freed, or it waits for the device, is
  suspended or has used up its quantum; \<open>new\<close> are the requests it queued for the I/O threads.
\<close>

definition left_processor :: "addr \<Rightarrow> addr list \<Rightarrow> t_ProcessImage \<Rightarrow> system \<Rightarrow> system \<Rightarrow> bool" where
  "left_processor p q i' s s' \<longleftrightarrow> (\<exists>new. LPB (shd s') = LPB (shd s) @ new \<and> LPB_empty (shd s') = LPB_empty (shd s) + length new
      \<and> (if images s' = (images s)(p := None) then blocking new = [] \<and> LPS s' = LPS s \<and> sts s' = (sts s)\<lparr>LPL := q\<rparr>
           \<and> MMP_sem s' = MMP_sem s + 1 \<and> MPS_sem s' = MPS_sem s + 1
         else images s' = (images s)(p \<mapsto> i') \<and> MPS_sem s' = MPS_sem s \<and>
          (blocked new = [p] \<and> LPS s' = LPS s \<and> sts s' = (sts s)\<lparr>LPL := q\<rparr> \<and> MMP_sem s' = MMP_sem s
           \<or> blocking new = [] \<and> LPS s' = LPS s @ [p] \<and> sts s' = (sts s)\<lparr>LPL := q\<rparr> \<and> MMP_sem s' = MMP_sem s + 1
           \<or> blocking new = [] \<and> LPS s' = LPS s \<and> sts s' = enqueue_source 7 p ((sts s)\<lparr>LPL := q\<rparr>)
             \<and> MMP_sem s' = MMP_sem s)))"

text \<open>How an execution that has ended is left, by the reason it ended for.\<close>

lemma PROCER_after_cases:
  assumes after: "PROCER_after code p i st s = Inr s'" and "piPC i = piPC (img st)"
    and "exited code st" and "ioBlockInterrupt st \<longrightarrow> off_end code st" and "quantumCount st \<le> quantum (sh st)"
  obtains (ended) ms b where "\<not> ioBlockInterrupt st"
      "s' = s\<lparr>images := (images s)(p := None), shd := (sh st)\<lparr>sendingList := ms, SUSPEND := b\<rparr>,
         MMP_sem := MMP_sem s + 1, MPS_sem := MPS_sem s + 1\<rparr>"
  | (waits) ms b where "ioBlockInterrupt st"
      "s' = s\<lparr>images := (images s)(p \<mapsto> i), shd := (sh st)\<lparr>sendingList := ms, SUSPEND := b\<rparr>\<rparr>"
  | (suspended) ms b where "\<not> ioBlockInterrupt st"
      "s' = s\<lparr>images := (images s)(p \<mapsto> i), shd := (sh st)\<lparr>sendingList := ms, SUSPEND := b\<rparr>,
         LPS := LPS s @ [p], MMP_sem := MMP_sem s + 1\<rparr>"
  | (preempted) "\<not> ioBlockInterrupt st"
      "s' = s\<lparr>images := (images s)(p \<mapsto> i), shd := sh st,
         sts := enqueue_source 7 p (sts s)\<rparr>"
proof -
  from after obtain line where line: "code_line code (piPC i) = Inr line"
    by (auto simp: PROCER_after_def Let_def res_simps)
  have last: "line = ''fin_programa'' \<Longrightarrow> \<not> ioBlockInterrupt st" using assms(2,4) line by (auto simp: off_end_def)
  have stop: "line \<noteq> ''fin_programa'' \<Longrightarrow> \<not> ioBlockInterrupt st \<Longrightarrow> \<not> SUSPEND (sh st) \<Longrightarrow> quantumCount st = quantum (sh st)"
    using assms(2,3,5) line by (auto simp: exited_def running_def)
  note after = after[unfolded PROCER_after_def Let_def line bindE_Inr]
  consider (fin) "line = ''fin_programa''" | (block) "line \<noteq> ''fin_programa''" "ioBlockInterrupt st"
    | (suspend) "line \<noteq> ''fin_programa''" "\<not> ioBlockInterrupt st" "SUSPEND (sh st)"
    | (quantum) "line \<noteq> ''fin_programa''" "\<not> ioBlockInterrupt st" "\<not> SUSPEND (sh st)" by blast
  then show ?thesis
  proof cases
    case fin
    then obtain tx where tx: "prepareMessage i = Inr tx" using after by (auto simp: res_simps)
    have "s' = s\<lparr>images := (images s)(p := None), shd := (sh st)\<lparr>sendingList := sendingList (send_list i (CHR ''T'') tx (sh st)),
         SUSPEND := False\<rparr>, MMP_sem := MMP_sem s + 1, MPS_sem := MPS_sem s + 1\<rparr>"
      using after fin tx by (auto simp: send_list_def)
    then show ?thesis using ended last fin by blast
  next
    case block
    then have "s' = s\<lparr>images := (images s)(p \<mapsto> i), shd := (sh st)\<lparr>sendingList := sendingList (sh st), SUSPEND := False\<rparr>\<rparr>"
      using after by simp
    then show ?thesis using waits block by blast
  next
    case suspend
    then obtain tx where tx: "prepareMessage i = Inr tx" using after by (auto simp: res_simps)
    have "s' = s\<lparr>images := (images s)(p \<mapsto> i), shd := (sh st)\<lparr>sendingList := sendingList (send_list i (CHR ''S'') tx (sh st)),
         SUSPEND := False\<rparr>, LPS := LPS s @ [p], MMP_sem := MMP_sem s + 1\<rparr>"
      using after suspend tx by (auto simp: send_list_def ls_add_def)
    then show ?thesis using suspended suspend by blast
  next
    case quantum
    then have "s' = s\<lparr>images := (images s)(p \<mapsto> i), shd := sh st,
         sts := enqueue_source 7 p (sts s)\<rparr>"
      using after stop by simp
    then show ?thesis using preempted quantum by blast
  qed
qed

lemma PROCER_run_cases:
  assumes "PROCER_run rnd n env s = Inr s'" and env: "signal_env env" and "in_order s"
  obtains p q i i' where "LPL (sts s) = p # q" "images s p = Some i" "same_process i (i'\<lparr>Tspn := Tspn i\<rparr>)"
    "\<And>code. codeSegmentCreator (piCode i) = Inr code \<Longrightarrow> parked i' code"
    "procer s' = Idle" "LFIFO s' = LFIFO s" "LFIFO_empty s' = LFIFO_empty s" "ltsnew_claimed s' = ltsnew_claimed s"
    "io_running s' = io_running s" "next_addr s' = next_addr s" "ALG (shd s') = ALG (shd s)"
    "quantum (shd s') = quantum (shd s)" "ioThreads (shd s') = ioThreads (shd s)"
    "left_processor p q i' s s'"
proof -
  from assms(1) obtain p q i code st where *: "LPL (sts s) = p # q" "images s p = Some i"
      "codeSegmentCreator (piCode i) = Inr code"
      "processExecution n code p env (dispatch_state i (shd s)) = Inr st"
    and after: "PROCER_after code p ((img st)\<lparr>Tspn := next_Tspn rnd (ALFA s) (Tspn (img st)) (rafaga st)\<rparr>)
      st (s\<lparr>procer := Idle, sts := (sts s)\<lparr>LPL := q\<rparr>\<rparr>) = Inr s'"
    by (cases "LPL (sts s)") (auto simp: PROCER_run_def load_img_def res_simps Let_def split: option.splits)
  define i' where "i' = (img st)\<lparr>Tspn := next_Tspn rnd (ALFA s) (Tspn (img st)) (rafaga st)\<rparr>"
  have "parked i code" "0 \<le> quantum (shd s)" using assms(3) *(2,3) by (auto simp: in_order_def)
  from execution_summary[OF env *(4)] this have sum: "requests p ((shd s)\<lparr>SUSPEND := False\<rparr>) st"
      "same_process i (img st)" "parked (img st) code" "quantum (sh st) = quantum (shd s)"
      "ALG (sh st) = ALG (shd s)" "exited code st" "ioBlockInterrupt st \<longrightarrow> off_end code st"
      "quantumCount st \<le> quantum (sh st)"
    by (simp_all add: dispatch_state_def)
  from sum(1) obtain new where new: "LPB (sh st) = LPB (shd s) @ new" "LPB_empty (sh st) = LPB_empty (shd s) + length new"
      "\<forall>r \<in> set new. io_image r = p" "length (blocking new) = (if ioBlockInterrupt st then 1 else 0)"
      "ioThreads (sh st) = ioThreads (shd s)"
    by (auto simp: requests_def)
  have blk: "ioBlockInterrupt st \<Longrightarrow> blocked new = [p]" "\<not> ioBlockInterrupt st \<Longrightarrow> blocking new = []"
    using new(3,4) by (auto simp: length_Suc_conv blocking_def filter_eq_Cons_iff)
  have i': "same_process i (i'\<lparr>Tspn := Tspn i\<rparr>)" "parked i' code" "piPC i' = piPC (img st)"
    using sum(2,3) by (simp_all add: i'_def same_process_def parked_def)
  have dom: "(images s)(p \<mapsto> i') \<noteq> (images s)(p := None)" by (metis fun_upd_same option.discI)
  have "procer s' = Idle \<and> LFIFO s' = LFIFO s \<and> LFIFO_empty s' = LFIFO_empty s \<and> ltsnew_claimed s' = ltsnew_claimed s
      \<and> io_running s' = io_running s \<and> next_addr s' = next_addr s \<and> ALG (shd s') = ALG (shd s)
      \<and> quantum (shd s') = quantum (shd s) \<and> ioThreads (shd s') = ioThreads (shd s) \<and> left_processor p q i' s s'"
    using after[folded i'_def] i'(3) sum(6-8)
  proof (cases rule: PROCER_after_cases)
    case (ended ms b)
    then show ?thesis unfolding left_processor_def using new sum(4,5) blk(2) by simp
  next
    case (waits ms b)
    then show ?thesis unfolding left_processor_def using new sum(4,5) blk(1) dom by simp
  next
    case (suspended ms b)
    then show ?thesis unfolding left_processor_def using new sum(4,5) blk(2) dom by simp
  next
    case preempted
    then show ?thesis unfolding left_processor_def using new sum(4,5) blk(2) dom by simp
  qed
  then show ?thesis using that[OF *(1,2) i'(1)] i'(2) *(3) by force
qed

end
