(* ===== verification/PP_System_Inv.thy ===== *)
theory PP_System_Inv
  imports PP_System
begin

text \<open>
  Every step of the server keeps ownership and semaphores in order, under \<open>FIFO\<close> and \<open>RR\<close>: one lemma
  per handler, and \<open>step_ok\<close> for all of them.
\<close>

section \<open>Preservation\<close>

definition order_ok :: "system \<Rightarrow> bool" where
  "order_ok s \<longleftrightarrow> owns s \<and> sems s \<and> in_order s"

lemma write_client_parts [simp]:
  "sts (write_client fd t x s) = sts s" "shd (write_client fd t x s) = shd s"
  "images (write_client fd t x s) = images s" "next_addr (write_client fd t x s) = next_addr s"
  "LFIFO (write_client fd t x s) = LFIFO s" "LFIFO_empty (write_client fd t x s) = LFIFO_empty s"
  "LPS (write_client fd t x s) = LPS s" "MMP_sem (write_client fd t x s) = MMP_sem s"
  "MPS_sem (write_client fd t x s) = MPS_sem s" "procer (write_client fd t x s) = procer s"
  "ltsnew_claimed (write_client fd t x s) = ltsnew_claimed s" "io_running (write_client fd t x s) = io_running s"
  by (simp_all add: write_client_def)

text \<open>A step that allocates and frees nothing.\<close>

lemma order_okI:
  assumes "order_ok s" and "mset (placed s') = mset (placed s)" and "images s' = images s"
    and "next_addr s' = next_addr s" and "ALG (shd s') = ALG (shd s)" and "quantum (shd s') = quantum (shd s)"
    and "sems s \<Longrightarrow> sems s'"
  shows "order_ok s'"
  using assms(1,7) owns_keep[OF _ assms(2) _ assms(4)] assms(3,5,6)
  by (simp add: order_ok_def in_order_def)

lemma unchanged_ok:
  "order_ok s \<Longrightarrow> order_ok (write_client fd t x s)"
  "order_ok s \<Longrightarrow> order_ok (s\<lparr>MMP_sem := n\<rparr>)"
  "order_ok s \<Longrightarrow> order_ok (s\<lparr>shd := (shd s)\<lparr>sendingList := ms\<rparr>\<rparr>)"
  "order_ok s \<Longrightarrow> order_ok (s\<lparr>shd := (shd s)\<lparr>SUSPEND := b\<rparr>\<rparr>)"
  by (erule order_okI; simp add: placed_def sems_def)+

definition admit_new :: "addr \<Rightarrow> t_ProcessImage \<Rightarrow> system \<Rightarrow> system" where
  "admit_new p i s = s\<lparr>MPS_sem := MPS_sem s - 1, next_addr := next_addr s + 1, next_pid := next_pid s + 1,
     images := (images s)(p \<mapsto> i)\<rparr>"

lemma LTSconex_new_cases:
  obtains (same) "LTSconex_new fd t script prio s = s" | (refused) x where "LTSconex_new fd t script prio s = write_client fd (CHR ''F'') x s"
      "MPS_sem s = 0"
  | (delayed) x s1 where "s1 = admit_new (next_addr s) (new_image fd (next_pid s) script prio (TANT s)) s"
      "0 < MPS_sem s" "MMP_sem s = 0"
      "LTSconex_new fd t script prio s
        = (write_client fd (CHR ''N'') x s1)\<lparr>LFIFO := LFIFO s @ [next_addr s], LFIFO_empty := LFIFO_empty s + 1\<rparr>"
  | (loaded) x s1 where "s1 = admit_new (next_addr s) (new_image fd (next_pid s) script prio (TANT s)) s"
      "0 < MPS_sem s" "0 < MMP_sem s"
      "LTSconex_new fd t script prio s = (write_client fd NUL x s1)\<lparr>MMP_sem := MMP_sem s - 1,
        sts := enqueue_source 5 (next_addr s) (sts s)\<rparr>"
proof -
  consider "t \<noteq> CHR ''N''" | "t = CHR ''N''" "MPS_sem s = 0" | "t = CHR ''N''" "0 < MPS_sem s" "MMP_sem s = 0"
    | "t = CHR ''N''" "0 < MPS_sem s" "0 < MMP_sem s" by auto
  then show ?thesis
  proof cases
    case 1
    then show ?thesis by (intro same) (simp add: LTSconex_new_def)
  next
    case 2
    then show ?thesis by (intro refused) (simp_all add: LTSconex_new_def)
  next
    case 3
    then show ?thesis by (intro delayed[OF refl]) (simp_all add: LTSconex_new_def admit_new_def Let_def)
  next
    case 4
    then show ?thesis by (intro loaded[OF refl]) (simp_all add: LTSconex_new_def admit_new_def Let_def)
  qed
qed

lemma admit_ok:
  assumes "order_ok s" and "s1 = admit_new (next_addr s) (new_image fd pd script prio tant) s"
    and "mset (placed s') = add_mset (next_addr s) (mset (placed s))" and "images s' = images s1"
    and "next_addr s' = next_addr s1" and "shd s' = shd s" and "sems s \<Longrightarrow> sems s'"
  shows "order_ok s'"
proof -
  have "owns s'"
  proof (rule owns_add[OF _ assms(3)])
    show "owns s" using assms(1) by (simp add: order_ok_def)
    show "images s' = (images s)(next_addr s \<mapsto> new_image fd pd script prio tant)" "next_addr s' = next_addr s + 1"
      unfolding assms(4,5) assms(2) admit_new_def by simp_all
  qed
  moreover have "in_order s'"
    using assms by (simp add: order_ok_def in_order_def admit_new_def new_image_def parked_def)
  ultimately show ?thesis using assms(1,7) by (simp add: order_ok_def)
qed

lemma new_ok:
  assumes "order_ok s"
  shows "order_ok (LTSconex_new fd t script prio s)"
proof (rule LTSconex_new_cases[of fd t script prio s])
  fix x s1
  assume s1: "s1 = admit_new (next_addr s) (new_image fd (next_pid s) script prio (TANT s)) s"
  then have parts: "LFIFO s1 = LFIFO s" "LPS s1 = LPS s" "sts s1 = sts s" "shd s1 = shd s" "io_running s1 = io_running s"
      "procer s1 = procer s" "ltsnew_claimed s1 = ltsnew_claimed s"
    by (simp_all add: admit_new_def)
  show "order_ok (LTSconex_new fd t script prio s)"
    if "LTSconex_new fd t script prio s
        = (write_client fd (CHR ''N'') x s1)\<lparr>LFIFO := LFIFO s @ [next_addr s], LFIFO_empty := LFIFO_empty s + 1\<rparr>"
    unfolding that by (rule admit_ok[OF assms s1]) (simp_all add: placed_def parts sems_def)
  show "order_ok (LTSconex_new fd t script prio s)"
    if "LTSconex_new fd t script prio s = (write_client fd NUL x s1)\<lparr>MMP_sem := MMP_sem s - 1,
        sts := enqueue_source 5 (next_addr s) (sts s)\<rparr>"
    unfolding that by (rule admit_ok[OF assms s1])
      (simp_all add: placed_def parts sems_def enqueue_processes enqueue_sems admit_new_def s1)
qed (use assms unchanged_ok(1) in simp_all)

lemma mset_remove_nth: "i < length xs \<Longrightarrow> mset xs = add_mset (xs ! i) (mset (take i xs @ drop (Suc i) xs))"
  by (subst (1) id_take_nth_drop[of i xs]) simp_all

lemma restoreSuspended_eq:
  assumes "restoreSuspended mem lps fd = Inr (r, lps')"
  shows "case r of None \<Rightarrow> lps' = lps | Some p \<Rightarrow> mset lps = add_mset p (mset lps') \<and> length lps = Suc (length lps')"
proof (cases "length (takeWhile (\<lambda>p. clientfd (the (mem p)) \<noteq> fd) lps) < length lps")
  case True
  define i where "i = length (takeWhile (\<lambda>p. clientfd (the (mem p)) \<noteq> fd) lps)"
  have i: "i < length lps" using True by (simp add: i_def)
  moreover have "r = Some (lps ! i)" "lps' = take i lps @ drop (Suc i) lps"
    using assms True by (auto simp: restoreSuspended_def ls_remove_def i_def[symmetric] Let_def split: if_splits)
  ultimately show ?thesis using mset_remove_nth[OF i] by simp
qed (use assms in \<open>auto simp: restoreSuspended_def Let_def split: if_splits\<close>)

lemma resume_cases:
  assumes "LTSconex_resume fd dataIn s = Inr s'"
  obtains (kept) n where "s' = s\<lparr>MMP_sem := n\<rparr>" "n \<le> MMP_sem s"
  | (restored) p lps where "mset (LPS s) = add_mset p (mset lps)" "length (LPS s) = Suc (length lps)" "0 < MMP_sem s"
      "s' = s\<lparr>MMP_sem := MMP_sem s - 1, LPS := lps, sts := enqueue_source 6 p (sts s)\<rparr>"
proof (cases "MMP_sem s = 0 \<or> dataIn \<noteq> Some (CHR ''R'')")
  case True
  consider "MMP_sem s = 0" | "0 < MMP_sem s" "dataIn = None" | t where "0 < MMP_sem s" "dataIn = Some t" "t \<noteq> CHR ''R''"
    using True by (cases dataIn) auto
  then show ?thesis
  proof cases
    case 1
    then show ?thesis using assms by (intro kept[of "MMP_sem s"]) (simp_all add: LTSconex_resume_def)
  next
    case 2
    then show ?thesis using assms by (intro kept[of "MMP_sem s"]) (auto simp: LTSconex_resume_def)
  next
    case 3
    then show ?thesis using assms by (intro kept[of "MMP_sem s - 1"]) (auto simp: LTSconex_resume_def)
  qed
next
  case False
  then obtain r lps where r: "restoreSuspended (images s) (LPS s) fd = Inr (r, lps)"
    using assms by (auto simp: LTSconex_resume_def Let_def res_simps)
  show ?thesis
  proof (cases r)
    case None
    then show ?thesis using assms False r restoreSuspended_eq[OF r]
      by (intro kept[of "MMP_sem s"]) (auto simp: LTSconex_resume_def Let_def)
  next
    case (Some p)
    then show ?thesis using assms False r restoreSuspended_eq[OF r]
      by (intro restored[of p lps]) (auto simp: LTSconex_resume_def Let_def)
  qed
qed

lemma resume_ok:
  assumes "order_ok s" and "LTSconex_resume fd dataIn s = Inr s'"
  shows "order_ok s'"
  using assms(2)
proof (cases rule: resume_cases)
  case (kept n)
  then show ?thesis using unchanged_ok(2)[OF assms(1)] by simp
next
  case (restored p lps)
  show ?thesis unfolding restored(4)
    by (rule order_okI[OF assms(1)]) (simp_all add: placed_def restored(1) enqueue_processes sems_def enqueue_sems)
qed

lemma LTSconex_out_cases:
  assumes "LTSconex_out fd s = Inr s'"
  obtains "s' = s" | ms where "s' = s\<lparr>shd := (shd s)\<lparr>sendingList := ms\<rparr>\<rparr>"
  | ms t x where "s' = write_client fd t x (s\<lparr>shd := (shd s)\<lparr>sendingList := ms\<rparr>\<rparr>)"
proof (cases "sendingList (shd s) = []")
  case True
  then show ?thesis using assms that(1) by (simp add: LTSconex_out_def)
next
  case False
  then obtain m ms where "list_fd_msg_get (sendingList (shd s)) fd = Inr (m, ms)"
    using assms by (auto simp: LTSconex_out_def res_simps)
  then have "s' = (case m of None \<Rightarrow> s\<lparr>shd := (shd s)\<lparr>sendingList := ms\<rparr>\<rparr>
      | Some x \<Rightarrow> write_client fd (msg_type x) (msg_text x) (s\<lparr>shd := (shd s)\<lparr>sendingList := ms\<rparr>\<rparr>))"
    using assms False by (auto simp: LTSconex_out_def Let_def split: option.splits)
  then show ?thesis using that(2,3) by (cases m) simp_all
qed

lemma out_ok:
  assumes "order_ok s" and "LTSconex_out fd s = Inr s'"
  shows "order_ok s'"
  using assms(2) by (cases rule: LTSconex_out_cases) (simp_all add: unchanged_ok assms(1))

lemma claim_new_ok:
  assumes "order_ok s" and "LTSnew_claim s = Some s'"
  shows "order_ok s'"
proof -
  have s': "s' = s\<lparr>LFIFO_empty := LFIFO_empty s - 1, ltsnew_claimed := True\<rparr>" "0 < LFIFO_empty s" "\<not> ltsnew_claimed s"
    using assms(2) by (auto simp: LTSnew_claim_def split: if_splits)
  show ?thesis unfolding s'(1) by (rule order_okI[OF assms(1)]) (use s' in \<open>simp_all add: placed_def sems_def\<close>)
qed

lemma move_new_eq:
  assumes "LTSnew_move s = Inr s'"
  obtains p q where "LFIFO s = p # q"
    "s' = s\<lparr>MMP_sem := MMP_sem s - 1, ltsnew_claimed := False, LFIFO := q, sts := enqueue_source 5 p (sts s)\<rparr>"
  using assms by (cases "LFIFO s") (auto simp: LTSnew_move_def res_simps)

lemma move_new_ok:
  assumes "order_ok s" and "ltsnew_claimed s" and "LTSnew_move s = Inr s'"
  shows "order_ok s'"
  using assms(3)
proof (rule move_new_eq)
  fix p q
  assume q: "LFIFO s = p # q"
    "s' = s\<lparr>MMP_sem := MMP_sem s - 1, ltsnew_claimed := False, LFIFO := q, sts := enqueue_source 5 p (sts s)\<rparr>"
  show ?thesis unfolding q(2)
    by (rule order_okI[OF assms(1)]) (use q assms(2) in \<open>simp_all add: placed_def enqueue_processes sems_def enqueue_sems\<close>)
qed

lemma take_ok:
  assumes "order_ok s" and "c \<in> {5, 6, 7, 8}" and "0 < source_sem c (sts s)" and "STS_take (images s) c (sts s) = Inr a"
  shows "order_ok (s\<lparr>sts := a\<rparr>)"
  by (rule order_okI[OF assms(1)])
    (use STS_take_processes[OF assms(2,4)] STS_take_sems[OF assms(2,4,3)] in \<open>simp_all add: placed_def sems_def\<close>)

lemma claim_ok:
  assumes "order_ok s" and "PROCER_claim s = Some s'"
  shows "order_ok s'"
proof -
  have s': "s' = s\<lparr>procer := Claimed, sts := (sts s)\<lparr>LPL_empty := LPL_empty (sts s) - 1\<rparr>\<rparr>" "procer s = Idle"
      "0 < LPL_empty (sts s)"
    using assms(2) by (auto simp: PROCER_claim_def split: if_splits)
  show ?thesis unfolding s'(1)
    by (rule order_okI[OF assms(1)])
      (use s' in \<open>simp_all add: placed_def sts_processes_def sems_def sts_sems_def source_get_def\<close>)
qed

lemma io_start_eq:
  assumes "ioThread_start s = Inr s'"
  obtains req q where "LPB (shd s) = req # q"
    "s' = s\<lparr>shd := (shd s)\<lparr>LPB := q, LPB_empty := LPB_empty (shd s) - 1, ioThreads := ioThreads (shd s) - 1\<rparr>,
        io_running := io_running s @ [req]\<rparr>"
  using assms by (cases "LPB (shd s)") (auto simp: ioThread_start_def res_simps)

lemma io_start_ok:
  assumes "order_ok s" and "ioThread_start s = Inr s'"
  shows "order_ok s'"
  using assms(2)
proof (rule io_start_eq)
  fix req q
  assume q: "LPB (shd s) = req # q"
    "s' = s\<lparr>shd := (shd s)\<lparr>LPB := q, LPB_empty := LPB_empty (shd s) - 1, ioThreads := ioThreads (shd s) - 1\<rparr>,
        io_running := io_running s @ [req]\<rparr>"
  show ?thesis unfolding q(2) by (rule order_okI[OF assms(1)]) (use q in \<open>simp_all add: placed_def sems_def\<close>)
qed

lemma io_finish_eq:
  assumes "ioThread_finish i s = Inr s'"
  obtains req rest where "mset (io_running s) = add_mset req (mset rest)"
    "s' = s\<lparr>io_running := rest, shd := (shd s)\<lparr>ioThreads := ioThreads (shd s) + 1\<rparr>,
      sts := (if flagNonBlocking req then sts s else enqueue_source 8 (io_image req) (sts s))\<rparr>"
proof -
  have i: "i < length (io_running s)" using assms by (auto simp: ioThread_finish_def res_simps)
  show ?thesis
  proof (rule that[OF mset_remove_nth[OF i]])
    show "s' = s\<lparr>io_running := take i (io_running s) @ drop (Suc i) (io_running s),
      shd := (shd s)\<lparr>ioThreads := ioThreads (shd s) + 1\<rparr>,
      sts := (if flagNonBlocking (io_running s ! i) then sts s else enqueue_source 8 (io_image (io_running s ! i)) (sts s))\<rparr>"
      using assms i by (auto simp: ioThread_finish_def Let_def res_simps split: if_splits)
  qed
qed

lemma mset_blocked: "mset (blocked rs) = image_mset io_image (filter_mset (\<lambda>r. \<not> flagNonBlocking r) (mset rs))"
  by (simp add: blocking_def)

lemma io_finish_ok:
  assumes "order_ok s" and "ioThread_finish i s = Inr s'"
  shows "order_ok s'"
  using assms(2)
proof (rule io_finish_eq)
  fix req rest
  assume r: "mset (io_running s) = add_mset req (mset rest)"
    "s' = s\<lparr>io_running := rest, shd := (shd s)\<lparr>ioThreads := ioThreads (shd s) + 1\<rparr>,
      sts := (if flagNonBlocking req then sts s else enqueue_source 8 (io_image req) (sts s))\<rparr>"
  have "mset (blocked (io_running s)) = (if flagNonBlocking req then {#} else {#io_image req#}) + mset (blocked rest)"
    unfolding mset_blocked r(1) by simp
  then show ?thesis unfolding r(2)
    by (intro order_okI[OF assms(1)]) (simp_all add: placed_def sems_def enqueue_processes enqueue_sems)
qed

lemma signal_ok: "order_ok s \<Longrightarrow> order_ok (fst (signal_handler m sig s))"
  by (cases sig) (simp_all add: signal_handler_def unchanged_ok)

lemma sts_LPL [simp]:
  "LPL a = p # q \<Longrightarrow> mset (sts_processes a) = add_mset p (mset (sts_processes (a\<lparr>LPL := q\<rparr>)))"
  "sts_sems 1 a \<Longrightarrow> LPL a = p # q \<Longrightarrow> sts_sems 0 (a\<lparr>LPL := q\<rparr>)"
  by (simp_all add: sts_processes_def sts_sems_def source_get_def)

lemma in_order_update:
  assumes "in_order s" and "images s p = Some i" and "piCode i' = piCode i"
    and "\<And>code. codeSegmentCreator (piCode i) = Inr code \<Longrightarrow> parked i' code"
    and "images s' = (images s)(p := None) \<or> images s' = (images s)(p \<mapsto> i')"
    and "ALG (shd s') = ALG (shd s)" and "quantum (shd s') = quantum (shd s)"
  shows "in_order s'"
  unfolding in_order_def
proof (intro conjI allI impI)
  show "strSwitch (ALG (shd s')) \<in> {1, 2}" "0 \<le> quantum (shd s')"
    using assms(1,6,7) unfolding in_order_def by simp_all
  fix a j code
  assume j: "images s' a = Some j" "codeSegmentCreator (piCode j) = Inr code"
  show "parked j code"
  proof (cases "a = p")
    case True
    then show ?thesis using j assms(3,4,5) by auto
  next
    case False
    then have "images s a = Some j" using j(1) assms(5) by auto
    then show ?thesis using j(2) assms(1) unfolding in_order_def by blast
  qed
qed

lemma run_ok:
  assumes ok: "order_ok s" and claimed: "procer s = Claimed" and env: "signal_env env"
    and run: "PROCER_run rnd n env s = Inr s'"
  shows "order_ok s'"
proof -
  have s: "owns s" "sems s" "in_order s" using ok by (simp_all add: order_ok_def)
  show ?thesis
  proof (rule PROCER_run_cases[OF run env s(3)])
    fix p q i i'
    assume lpl: "LPL (sts s) = p # q" and i: "images s p = Some i"
      and same: "same_process i (i'\<lparr>Tspn := Tspn i\<rparr>)"
      and parked: "\<And>code. codeSegmentCreator (piCode i) = Inr code \<Longrightarrow> parked i' code"
      and idle: "procer s' = Idle" and kept: "LFIFO s' = LFIFO s" "LFIFO_empty s' = LFIFO_empty s"
        "ltsnew_claimed s' = ltsnew_claimed s" "io_running s' = io_running s" "next_addr s' = next_addr s"
      and sh: "ALG (shd s') = ALG (shd s)" "quantum (shd s') = quantum (shd s)"
      and ex: "left_processor p q i' s s'"
    from ex[unfolded left_processor_def] obtain new where new: "LPB (shd s') = LPB (shd s) @ new" "LPB_empty (shd s') = LPB_empty (shd s) + length new"
      and cases: "if images s' = (images s)(p := None) then blocking new = [] \<and> LPS s' = LPS s \<and> sts s' = (sts s)\<lparr>LPL := q\<rparr>
           \<and> MMP_sem s' = MMP_sem s + 1 \<and> MPS_sem s' = MPS_sem s + 1
         else images s' = (images s)(p \<mapsto> i') \<and> MPS_sem s' = MPS_sem s \<and>
          (blocked new = [p] \<and> LPS s' = LPS s \<and> sts s' = (sts s)\<lparr>LPL := q\<rparr> \<and> MMP_sem s' = MMP_sem s
           \<or> blocking new = [] \<and> LPS s' = LPS s @ [p] \<and> sts s' = (sts s)\<lparr>LPL := q\<rparr> \<and> MMP_sem s' = MMP_sem s + 1
           \<or> blocking new = [] \<and> LPS s' = LPS s \<and> sts s' = enqueue_source 7 p ((sts s)\<lparr>LPL := q\<rparr>)
             \<and> MMP_sem s' = MMP_sem s)"
      by blast
    have dom: "p \<in> dom (images s)" using i by blast
    have proc: "mset (sts_processes (sts s)) = add_mset p (mset (sts_processes ((sts s)\<lparr>LPL := q\<rparr>)))"
      using lpl by (rule sts_LPL)
    have sem0: "sts_sems 0 ((sts s)\<lparr>LPL := q\<rparr>)" using s(2) claimed lpl by (intro sts_LPL(2)) (simp_all add: sems_def)
    have "in_order s'"
    proof (rule in_order_update[OF s(3) i _ parked _ sh])
      show "piCode i' = piCode i" using same by (simp add: same_process_def)
      show "images s' = (images s)(p := None) \<or> images s' = (images s)(p \<mapsto> i')" using cases by presburger
    qed
    moreover have "sems s'"
    proof -
      have "sts_sems 0 (sts s')" using cases sem0 enqueue_sems[OF _ sem0, of 7 p] by (auto split: if_splits)
      then show ?thesis using s(2) kept new idle by (simp add: sems_def)
    qed
    moreover have "owns s'"
    proof (cases "images s' = (images s)(p := None)")
      case True
      with cases have c: "blocking new = []" "LPS s' = LPS s" "sts s' = (sts s)\<lparr>LPL := q\<rparr>" by simp_all
      show ?thesis
      proof (rule owns_remove[OF s(1) _ _ kept(5)])
        show "mset (placed s) = add_mset p (mset (placed s'))"
          unfolding placed_def kept new c by (simp add: proc c(1))
        show "dom (images s') = dom (images s) - {p}" by (simp add: True)
      qed
    next
      case False
      with cases have im: "images s' = (images s)(p \<mapsto> i')"
        and c: "blocked new = [p] \<and> LPS s' = LPS s \<and> sts s' = (sts s)\<lparr>LPL := q\<rparr>
           \<or> blocking new = [] \<and> LPS s' = LPS s @ [p] \<and> sts s' = (sts s)\<lparr>LPL := q\<rparr>
           \<or> blocking new = [] \<and> LPS s' = LPS s \<and> sts s' = enqueue_source 7 p ((sts s)\<lparr>LPL := q\<rparr>)"
        by auto
      show ?thesis
      proof (rule owns_keep[OF s(1) _ _ kept(5)])
        show "mset (placed s') = mset (placed s)"
          using c by (elim disjE conjE) (simp_all add: placed_def kept new proc enqueue_processes)
        show "dom (images s') = dom (images s)" using dom by (auto simp: im)
      qed
    qed
    ultimately show "order_ok s'" by (simp add: order_ok_def)
  qed
qed

lemma step_ok:
  assumes "sys_step rnd s s'" and "order_ok s"
  shows "order_ok s'"
  using assms
proof (cases rule: sys_step.cases)
  case (sort_all n a)
  then show ?thesis using assms(2) by (auto simp: order_ok_def in_order_def)
qed (auto intro: new_ok resume_ok out_ok claim_new_ok move_new_ok take_ok claim_ok run_ok io_start_ok
    io_finish_ok signal_ok)

lemma main_init_ok:
  assumes "alg = ''FIFO'' \<or> alg = ''RR''" and "0 \<le> q"
  shows "order_ok (main_init MPS MMP io_threads alg q st tant alfa qs)"
  using assms
  by (auto simp: order_ok_def owns_def sems_def in_order_def main_init_def placed_def sts_processes_def
      sts_sems_def source_get_def strSwitch_def)

end
