(* ===== verification/PP_System_Limits.thy ===== *)
theory PP_System_Limits
  imports PP_System_Inv
begin

text \<open>
  The two limits of the server along its steps, the reachable states (the locale \<open>sys_invariant\<close> and
  its interpretations), and what the invariants give: every pop finds a live process, the server
  never stands still with a process to serve, and the ready queue is served in order.
\<close>

section \<open>The limits\<close>

text \<open>What the end of an execution changes of the counts, for whatever reason it ended.\<close>

lemma PROCER_after_counts:
  assumes after: "PROCER_after code p i st s = Inr s'"
  obtains (kept) "images s' = (images s)(p \<mapsto> i)" "MPS_sem s' = MPS_sem s" "MMP_sem s' = MMP_sem s" "LPS s' = LPS s"
    "next_addr s' = next_addr s" "LFIFO s' = LFIFO s"
  | (suspended) "images s' = (images s)(p \<mapsto> i)" "MPS_sem s' = MPS_sem s" "MMP_sem s' = MMP_sem s + 1" "LPS s' = LPS s @ [p]"
    "next_addr s' = next_addr s" "LFIFO s' = LFIFO s"
  | (ended) "images s' = (images s)(p := None)" "MPS_sem s' = MPS_sem s + 1" "MMP_sem s' = MMP_sem s + 1" "LPS s' = LPS s"
    "next_addr s' = next_addr s" "LFIFO s' = LFIFO s"
proof -
  from after obtain line where line: "code_line code (piPC i) = Inr line"
    by (auto simp: PROCER_after_def Let_def res_simps)
  note after = after[unfolded PROCER_after_def Let_def line bindE_Inr]
  consider (fin) "line = ''fin_programa''" | (block) "line \<noteq> ''fin_programa''" "ioBlockInterrupt st"
    | (suspend) "line \<noteq> ''fin_programa''" "\<not> ioBlockInterrupt st" "SUSPEND (sh st)"
    | (other) "line \<noteq> ''fin_programa''" "\<not> ioBlockInterrupt st" "\<not> SUSPEND (sh st)" by blast
  then show ?thesis
  proof cases
    case fin
    then show ?thesis using after by (intro ended) (auto simp: res_simps)
  next
    case block
    then show ?thesis using after[symmetric] by (intro kept) simp_all
  next
    case suspend
    then show ?thesis using after by (intro suspended) (auto simp: ls_add_def res_simps)
  next
    case other
    then show ?thesis using after[symmetric] by (intro kept) (simp_all split: if_splits)
  qed
qed

text \<open>The images and the number of free places in the system, under any algorithm.\<close>

lemma PROCER_run_images:
  assumes "PROCER_run rnd n env s = Inr s'"
  obtains p where "p \<in> dom (images s)" "next_addr s' = next_addr s"
    "dom (images s') = dom (images s) \<and> MPS_sem s' = MPS_sem s
     \<or> dom (images s') = dom (images s) - {p} \<and> MPS_sem s' = MPS_sem s + 1"
proof -
  from assms obtain p q i code st where *: "LPL (sts s) = p # q" "images s p = Some i"
    and after: "PROCER_after code p ((img st)\<lparr>Tspn := next_Tspn rnd (ALFA s) (Tspn (img st)) (rafaga st)\<rparr>)
      st (s\<lparr>procer := Idle, sts := (sts s)\<lparr>LPL := q\<rparr>\<rparr>) = Inr s'"
    by (cases "LPL (sts s)") (auto simp: PROCER_run_def load_img_def res_simps Let_def split: option.splits)
  have p: "p \<in> dom (images s)" using *(2) by blast
  then have d: "insert p (dom (images s)) = dom (images s)" "dom ((images s)(p := None)) = dom (images s) - {p}"
    by auto
  have "next_addr s' = next_addr s \<and> (dom (images s') = dom (images s) \<and> MPS_sem s' = MPS_sem s
     \<or> dom (images s') = dom (images s) - {p} \<and> MPS_sem s' = MPS_sem s + 1)"
    by (cases rule: PROCER_after_counts[OF after]) (simp_all add: d)
  then show ?thesis using that[OF p] by blast
qed

lemma mps_keep:
  "mps_ok m s \<Longrightarrow> images s' = images s \<Longrightarrow> next_addr s' = next_addr s \<Longrightarrow> MPS_sem s' = MPS_sem s \<Longrightarrow> mps_ok m s'"
  by (simp add: mps_ok_def)

lemma mps_admit:
  assumes "mps_ok m s" and "0 < MPS_sem s" and "images s' = (images s)(next_addr s \<mapsto> i)"
    and "next_addr s' = next_addr s + 1" and "MPS_sem s' = MPS_sem s - 1"
  shows "mps_ok m s'"
proof -
  have "next_addr s \<notin> dom (images s)" using assms(1) unfolding mps_ok_def by blast
  then have "dom (images s') = insert (next_addr s) (dom (images s))"
    "card (dom (images s')) = Suc (card (dom (images s)))"
    using assms(1,3) by (simp_all add: mps_ok_def)
  then show ?thesis using assms unfolding mps_ok_def by (auto simp: less_Suc_eq)
qed

lemma new_mps:
  assumes "mps_ok m s"
  shows "mps_ok m (LTSconex_new fd t script prio s)"
proof (rule LTSconex_new_cases[of fd t script prio s])
  fix x s1
  assume s1: "s1 = admit_new (next_addr s) (new_image fd (next_pid s) script prio (TANT s)) s" and m: "0 < MPS_sem s"
  have *: "mps_ok m s1" by (rule mps_admit[OF assms m]) (simp_all add: s1 admit_new_def)
  show "mps_ok m (LTSconex_new fd t script prio s)"
    if "LTSconex_new fd t script prio s
        = (write_client fd (CHR ''N'') x s1)\<lparr>LFIFO := LFIFO s @ [next_addr s], LFIFO_empty := LFIFO_empty s + 1\<rparr>"
    unfolding that by (rule mps_keep[OF *]) simp_all
  show "mps_ok m (LTSconex_new fd t script prio s)"
    if "LTSconex_new fd t script prio s = (write_client fd NUL x s1)\<lparr>MMP_sem := MMP_sem s - 1,
        sts := enqueue_source 5 (next_addr s) (sts s)\<rparr>"
    unfolding that by (rule mps_keep[OF *]) simp_all
qed (use assms in \<open>simp_all add: mps_ok_def\<close>)

lemma run_mps:
  assumes "mps_ok m s" and "PROCER_run rnd n env s = Inr s'"
  shows "mps_ok m s'"
  using assms(2)
proof (rule PROCER_run_images)
  fix p
  assume p: "p \<in> dom (images s)" "next_addr s' = next_addr s"
    "dom (images s') = dom (images s) \<and> MPS_sem s' = MPS_sem s
     \<or> dom (images s') = dom (images s) - {p} \<and> MPS_sem s' = MPS_sem s + 1"
  have "Suc (card (dom (images s) - {p})) = card (dom (images s))"
    using p(1) assms(1) unfolding mps_ok_def by (intro card_Suc_Diff1) simp_all
  then show ?thesis using p(2,3) assms(1) unfolding mps_ok_def by (elim disjE conjE) simp_all
qed

lemma step_mps:
  assumes "sys_step rnd s s'" and "mps_ok m s"
  shows "mps_ok m s'"
  using assms(1)
proof (cases rule: sys_step.cases)
  case (new_script fd t script prio)
  then show ?thesis using new_mps[OF assms(2)] by simp
next
  case (message fd dataIn)
  then show ?thesis by (cases rule: resume_cases) (auto intro: mps_keep[OF assms(2)])
next
  case (flush fd)
  then show ?thesis by (cases rule: LTSconex_out_cases) (auto intro: mps_keep[OF assms(2)])
next
  case admit_wait
  then show ?thesis by (auto simp: LTSnew_claim_def split: if_splits intro: mps_keep[OF assms(2)])
next
  case admit
  then show ?thesis by (auto elim!: move_new_eq intro: mps_keep[OF assms(2)])
next
  case claim
  then show ?thesis by (auto simp: PROCER_claim_def split: if_splits intro: mps_keep[OF assms(2)])
next
  case run
  then show ?thesis using run_mps[OF assms(2)] by blast
next
  case io_start
  then show ?thesis by (auto elim!: io_start_eq intro: mps_keep[OF assms(2)])
next
  case io_finish
  then show ?thesis by (auto elim!: io_finish_eq intro: mps_keep[OF assms(2)])
next
  case (signal m' sig)
  then show ?thesis by (cases sig) (auto simp: signal_handler_def intro: mps_keep[OF assms(2)])
qed (auto intro: mps_keep[OF assms(2)])

lemma owns_card: "owns s \<Longrightarrow> card (dom (images s)) = length (placed s)"
  using distinct_card[of "placed s"] by (simp add: owns_def)

text \<open>With ownership the second limit speaks of the queues.\<close>

definition loaded :: "system \<Rightarrow> nat" where
  "loaded s = length (sts_processes (sts s)) + length (blocked (LPB (shd s))) + length (blocked (io_running s))"

lemma mmp_loaded: "owns s \<Longrightarrow> mmp_ok MMP s \<longleftrightarrow> MMP_sem s + loaded s \<le> MMP"
  by (simp add: mmp_ok_def owns_card placed_def loaded_def) linarith

lemma enqueue_length [simp]:
  assumes "c \<in> {5, 6, 7, 8}"
  shows "length (sts_processes (enqueue_source c p a)) = Suc (length (sts_processes a))"
  using arg_cong[OF enqueue_processes[OF assms], of size p a] by simp

lemma step_loaded:
  assumes "sys_step rnd s s'" and ok: "order_ok s" and m: "MMP_sem s + loaded s \<le> MMP"
  shows "MMP_sem s' + loaded s' \<le> MMP"
  using assms(1)
proof (cases rule: sys_step.cases)
  case (new_script fd t script prio)
  show ?thesis
  proof (cases rule: LTSconex_new_cases[of fd t script prio s])
    case (delayed x s1)
    then show ?thesis using m new_script by (simp add: loaded_def admit_new_def)
  next
    case (loaded x s1)
    then show ?thesis using m new_script by (simp add: loaded_def admit_new_def)
  qed (use m new_script in \<open>simp_all add: loaded_def\<close>)
next
  case (message fd dataIn)
  then show ?thesis by (cases rule: resume_cases) (use m in \<open>auto simp: loaded_def\<close>)
next
  case (flush fd)
  then show ?thesis by (cases rule: LTSconex_out_cases) (use m in \<open>auto simp: loaded_def\<close>)
next
  case admit_wait
  then show ?thesis using m by (auto simp: LTSnew_claim_def loaded_def split: if_splits)
next
  case admit
  then show ?thesis using m by (auto elim!: move_new_eq simp: loaded_def)
next
  case (take_one c a)
  then have "length (sts_processes a) = length (sts_processes (sts s))"
    using arg_cong[OF STS_take_processes, of c "images s" "sts s" a size] by simp
  then show ?thesis using m take_one by (simp add: loaded_def)
next
  case (sort_all n a)
  then show ?thesis using ok by (auto simp: order_ok_def in_order_def)
next
  case claim
  then show ?thesis using m by (auto simp: PROCER_claim_def loaded_def sts_processes_def split: if_splits)
next
  case (run env n)
  show ?thesis
  proof (rule PROCER_run_cases[OF run(3,2)])
    show "in_order s" using ok by (simp add: order_ok_def)
  next
    fix p q i i'
    assume lpl: "LPL (sts s) = p # q" and io: "io_running s' = io_running s"
      and ex: "left_processor p q i' s s'"
    have len: "length (sts_processes (sts s)) = Suc (length (sts_processes ((sts s)\<lparr>LPL := q\<rparr>)))"
      using lpl by (simp add: sts_processes_def)
    from ex[unfolded left_processor_def] obtain new where "LPB (shd s') = LPB (shd s) @ new"
      "blocked new = [p] \<and> sts s' = (sts s)\<lparr>LPL := q\<rparr> \<and> MMP_sem s' = MMP_sem s
       \<or> blocking new = [] \<and> sts s' = (sts s)\<lparr>LPL := q\<rparr> \<and> MMP_sem s' = MMP_sem s + 1
       \<or> blocking new = [] \<and> sts s' = enqueue_source 7 p ((sts s)\<lparr>LPL := q\<rparr>) \<and> MMP_sem s' = MMP_sem s"
      by (auto split: if_splits)
    then show ?thesis using m len io map_eq_Cons_conv[of io_image "blocking new" p "[]"]
      by (elim disjE conjE) (auto simp: loaded_def)
  qed
next
  case io_start
  then show ?thesis using m by (auto elim!: io_start_eq simp: loaded_def)
next
  case (io_finish i)
  from io_finish show ?thesis
  proof (rule io_finish_eq)
    fix req rest
    assume r: "mset (io_running s) = add_mset req (mset rest)"
      "s' = s\<lparr>io_running := rest, shd := (shd s)\<lparr>ioThreads := ioThreads (shd s) + 1\<rparr>,
        sts := (if flagNonBlocking req then sts s else enqueue_source 8 (io_image req) (sts s))\<rparr>"
    have "mset (blocked (io_running s)) = (if flagNonBlocking req then {#} else {#io_image req#}) + mset (blocked rest)"
      unfolding mset_blocked r(1) by simp
    from arg_cong[OF this, of size]
    have "length (blocked (io_running s)) = (if flagNonBlocking req then 0 else 1) + length (blocked rest)"
      by (simp split: if_splits)
    then show ?thesis using m by (cases "flagNonBlocking req") (simp_all add: r(2) loaded_def)
  qed
next
  case (signal m' sig)
  then show ?thesis using m by (cases sig) (auto simp: signal_handler_def loaded_def)
qed

section \<open>Reachable states\<close>

text \<open>An invariant of the server, and what its steps make of it.\<close>

locale sys_invariant =
  fixes rnd :: "rat \<Rightarrow> rat"
    and I :: "system \<Rightarrow> bool"
  assumes step: "sys_step rnd s s' \<Longrightarrow> I s \<Longrightarrow> I s'"
begin

lemma steps: "sys_steps rnd s s' \<Longrightarrow> I s \<Longrightarrow> I s'"
  by (induction rule: rtranclp_induct) (auto intro: step)

end

interpretation order: sys_invariant rnd order_ok
  by unfold_locales (rule step_ok)

interpretation places: sys_invariant rnd "mps_ok m"
  by unfold_locales (rule step_mps)

interpretation loading: sys_invariant rnd "\<lambda>s. order_ok s \<and> MMP_sem s + loaded s \<le> m"
  by unfold_locales (blast intro: step_ok step_loaded)

text \<open>The threads of the I/O pool are at rest or hold a request.\<close>

lemma step_pool:
  assumes "sys_step rnd s s'" and "order_ok s \<and> ioThreads (shd s) + length (io_running s) = k"
  shows "order_ok s' \<and> ioThreads (shd s') + length (io_running s') = k"
proof
  show "order_ok s'" using step_ok assms by blast
  show "ioThreads (shd s') + length (io_running s') = k"
    using assms(1)
  proof (cases rule: sys_step.cases)
    case (new_script fd t script prio)
    show ?thesis
      by (cases rule: LTSconex_new_cases[of fd t script prio s])
        (use assms(2) new_script in \<open>simp_all add: admit_new_def\<close>)
  next
    case (message fd dataIn)
    then show ?thesis by (cases rule: resume_cases) (use assms(2) in auto)
  next
    case (flush fd)
    then show ?thesis by (cases rule: LTSconex_out_cases) (use assms(2) in auto)
  next
    case admit_wait
    then show ?thesis using assms(2) by (auto simp: LTSnew_claim_def split: if_splits)
  next
    case admit
    then show ?thesis using assms(2) by (auto elim!: move_new_eq)
  next
    case claim
    then show ?thesis using assms(2) by (auto simp: PROCER_claim_def split: if_splits)
  next
    case (run env n)
    have "in_order s" using assms(2) by (simp add: order_ok_def)
    from run(3,2) this show ?thesis by (rule PROCER_run_cases) (use assms(2) in simp)
  next
    case io_start
    then show ?thesis using assms(2) by (auto elim!: io_start_eq)
  next
    case (io_finish i)
    from io_finish show ?thesis
    proof (rule io_finish_eq)
      fix req rest
      assume r: "mset (io_running s) = add_mset req (mset rest)"
        "s' = s\<lparr>io_running := rest, shd := (shd s)\<lparr>ioThreads := ioThreads (shd s) + 1\<rparr>,
          sts := (if flagNonBlocking req then sts s else enqueue_source 8 (io_image req) (sts s))\<rparr>"
      show ?thesis using arg_cong[OF r(1), of size] assms(2) by (simp add: r(2))
    qed
  next
    case (signal m' sig)
    then show ?thesis using assms(2) by (cases sig) (auto simp: signal_handler_def)
  qed (use assms(2) in auto)
qed

interpretation pool: sys_invariant rnd "\<lambda>s. order_ok s \<and> ioThreads (shd s) + length (io_running s) = k"
  by unfold_locales (rule step_pool)

text \<open>The start.\<close>

lemma main_init_mps: "mps_ok MPS (main_init MPS MMP io_threads alg q st tant alfa qs)"
  by (simp add: mps_ok_def main_init_def)

lemma main_init_parts [simp]:
  "ioThreads (shd (main_init MPS MMP k alg q st tant alfa qs)) = k" "io_running (main_init MPS MMP k alg q st tant alfa qs) = []"
  "MMP_sem (main_init MPS MMP k alg q st tant alfa qs) = MMP" "loaded (main_init MPS MMP k alg q st tant alfa qs) = 0"
  by (simp_all add: main_init_def loaded_def sts_processes_def)

text \<open>Every pop finds a live process.\<close>

lemma source_counted:
  "sems s \<Longrightarrow> c \<in> {5, 6, 7, 8} \<Longrightarrow> source_sem c (sts s) = length (source_queue c (sts s))"
  unfolding sems_def sts_sems_def by blast

lemma live_place: "owns s \<Longrightarrow> p \<in> set (placed s) \<Longrightarrow> \<exists>i. images s p = Some i"
  unfolding owns_def by blast

lemma pops_succeed:
  assumes "order_ok s"
  shows "procer s = Claimed \<Longrightarrow> \<exists>p q i. LPL (sts s) = p # q \<and> images s p = Some i"
    and "ltsnew_claimed s \<Longrightarrow> \<exists>s'. LTSnew_move s = Inr s'"
    and "0 < LPB_empty (shd s) \<Longrightarrow> LPB (shd s) \<noteq> []"
    and "c \<in> {5, 6, 7, 8} \<Longrightarrow> 0 < source_sem c (sts s) \<Longrightarrow> \<exists>a. STS_take (images s) c (sts s) = Inr a"
proof -
  have o: "owns s" "sems s" using assms by (simp_all add: order_ok_def)
  show "\<exists>p q i. LPL (sts s) = p # q \<and> images s p = Some i" if c: "procer s = Claimed"
  proof (cases "LPL (sts s)")
    case Nil
    then show ?thesis using o(2) c by (simp add: sems_def sts_sems_def)
  next
    case (Cons p q)
    then have "p \<in> set (placed s)" by (simp add: placed_def sts_processes_def)
    from live_place[OF o(1) this] Cons show ?thesis by simp
  qed
  show "\<exists>s'. LTSnew_move s = Inr s'" if c: "ltsnew_claimed s"
  proof (cases "LFIFO s")
    case Nil
    then show ?thesis using o(2) c by (simp add: sems_def)
  next
    case (Cons p q)
    then have "p \<in> set (placed s)" by (simp add: placed_def)
    from live_place[OF o(1) this] Cons show ?thesis by (auto simp: LTSnew_move_def load_img_def)
  qed
  show "LPB (shd s) \<noteq> []" if "0 < LPB_empty (shd s)" using o(2) that by (auto simp: sems_def)
  show "\<exists>a. STS_take (images s) c (sts s) = Inr a" if c: "c \<in> {5, 6, 7, 8}" "0 < source_sem c (sts s)"
  proof -
    obtain p q where q: "source_queue c (sts s) = p # q"
      using c(2) source_counted[OF o(2) c(1)] by (cases "source_queue c (sts s)") simp_all
    then have "p \<in> set (placed s)"
      using c(1) by (auto simp: placed_def sts_processes_def source_get_def split: if_splits)
    from live_place[OF o(1) this] q show ?thesis by (auto simp: STS_take_def load_img_def)
  qed
qed

text \<open>A process that is neither suspended nor delayed keeps some thread of the server able to go on.\<close>

definition can_go_on :: "system \<Rightarrow> bool" where
  "can_go_on s \<longleftrightarrow> (\<exists>c \<in> {5, 6, 7, 8}. 0 < source_sem c (sts s) \<and> (\<exists>a. STS_take (images s) c (sts s) = Inr a))
     \<or> procer s = Claimed \<or> PROCER_claim s \<noteq> None
     \<or> (\<exists>s'. ioThread_finish 0 s = Inr s') \<or> (0 < LPB_empty (shd s) \<and> 0 < ioThreads (shd s))"

lemma procer_phases: "procer s \<noteq> Claimed \<Longrightarrow> procer s = Idle"
  by (cases "procer s") simp_all

lemma loaded_can_go_on:
  assumes ok: "order_ok s" and pool: "0 < ioThreads (shd s) + length (io_running s)" and "0 < loaded s"
  shows "can_go_on s"
proof -
  have o: "owns s" "sems s" using ok by (simp_all add: order_ok_def)
  have source: "can_go_on s" if "c \<in> {5, 6, 7, 8}" "source_queue c (sts s) \<noteq> []" for c
  proof -
    have "0 < source_sem c (sts s)" using source_counted[OF o(2) that(1)] that(2) by simp
    then show ?thesis using pops_succeed(4)[OF ok that(1)] that(1) unfolding can_go_on_def by blast
  qed
  have empty: "loaded s = 0" if "source_queue 5 (sts s) = []" "source_queue 6 (sts s) = []" "source_queue 7 (sts s) = []"
      "source_queue 8 (sts s) = []" "LPL (sts s) = []" "LPB (shd s) = []" "io_running s = []"
    using that by (simp add: loaded_def sts_processes_def source_get_def)
  have "source_queue 5 (sts s) \<noteq> [] \<or> source_queue 6 (sts s) \<noteq> [] \<or> source_queue 7 (sts s) \<noteq> []
      \<or> source_queue 8 (sts s) \<noteq> [] \<or> LPL (sts s) \<noteq> [] \<or> LPB (shd s) \<noteq> [] \<or> io_running s \<noteq> []"
    using empty assms(3) by linarith
  then consider "source_queue 5 (sts s) \<noteq> []" | "source_queue 6 (sts s) \<noteq> []" | "source_queue 7 (sts s) \<noteq> []"
    | "source_queue 8 (sts s) \<noteq> []" | (ready) "LPL (sts s) \<noteq> []"
    | (queued) "LPB (shd s) \<noteq> []" "io_running s = []" | (running) "io_running s \<noteq> []"
    by argo
  then show ?thesis
  proof cases
    case 1
    then show ?thesis by (intro source[of 5]) simp_all
  next
    case 2
    then show ?thesis by (intro source[of 6]) simp_all
  next
    case 3
    then show ?thesis by (intro source[of 7]) simp_all
  next
    case 4
    then show ?thesis by (intro source[of 8]) simp_all
  next
    case ready
    then have "procer s \<noteq> Claimed \<Longrightarrow> 0 < LPL_empty (sts s)" using o(2) by (auto simp: sems_def sts_sems_def)
    then show ?thesis using procer_phases[of s] by (auto simp: can_go_on_def PROCER_claim_def)
  next
    case queued
    then show ?thesis using o(2) pool by (auto simp: can_go_on_def sems_def)
  next
    case running
    then obtain req rs where r: "io_running s = req # rs" by (cases "io_running s") auto
    have "\<exists>s'. ioThread_finish 0 s = Inr s'"
    proof (cases "flagNonBlocking req")
      case False
      then have "io_image req \<in> set (placed s)" using r by (simp add: placed_def)
      from live_place[OF o(1) this] False r show ?thesis by (auto simp: ioThread_finish_def load_img_def Let_def)
    qed (use r in \<open>simp add: ioThread_finish_def Let_def\<close>)
    then show ?thesis by (simp add: can_go_on_def)
  qed
qed

section \<open>The order of the ready queue\<close>

lemma enqueue_LPL [simp]: "LPL (enqueue_source c p a) = LPL a"
  by (simp add: enqueue_source_def split_def)

lemma step_LPL:
  assumes "sys_step rnd s s'" and ok: "order_ok s"
  shows "(\<exists>ys. LPL (sts s') = LPL (sts s) @ ys) \<and> (procer s = Claimed \<longrightarrow> procer s' = Claimed)
    \<or> procer s = Claimed \<and> procer s' = Idle \<and> LPL (sts s) \<noteq> [] \<and> LPL (sts s') = tl (LPL (sts s))"
  using assms(1)
proof (cases rule: sys_step.cases)
  case (new_script fd t script prio)
  show ?thesis
    by (cases rule: LTSconex_new_cases[of fd t script prio s]) (use new_script in \<open>simp_all add: admit_new_def\<close>)
next
  case (message fd dataIn)
  then show ?thesis by (cases rule: resume_cases) auto
next
  case (flush fd)
  then show ?thesis by (cases rule: LTSconex_out_cases) auto
next
  case admit_wait
  then show ?thesis by (auto simp: LTSnew_claim_def split: if_splits)
next
  case admit
  then show ?thesis by (auto elim!: move_new_eq)
next
  case take_one
  then show ?thesis by (auto elim!: STS_take_eq simp: push_LPL_def)
next
  case sort_all
  then show ?thesis using ok by (auto simp: order_ok_def in_order_def)
next
  case claim
  then show ?thesis by (auto simp: PROCER_claim_def split: if_splits)
next
  case (run env n)
  have "in_order s" using ok by (simp add: order_ok_def)
  from run(3,2) this show ?thesis by (rule PROCER_run_cases) (use run(1) in \<open>auto simp: left_processor_def split: if_splits\<close>)
next
  case io_start
  then show ?thesis by (auto elim!: io_start_eq)
next
  case io_finish
  then show ?thesis by (auto elim!: io_finish_eq)
next
  case (signal m' sig)
  then show ?thesis by (cases sig) (auto simp: signal_handler_def)
qed

text \<open>Executions with the number of processes dispatched in them.\<close>

inductive sys_runs :: "(rat \<Rightarrow> rat) \<Rightarrow> nat \<Rightarrow> system \<Rightarrow> system \<Rightarrow> bool" for rnd :: "rat \<Rightarrow> rat" where
  start: "sys_runs rnd 0 s s"
| more: "sys_runs rnd d s s1 \<Longrightarrow> sys_step rnd s1 s2 \<Longrightarrow>
    sys_runs rnd (if procer s1 = Claimed \<and> procer s2 = Idle then d + 1 else d) s s2"

lemma sys_runs_steps: "sys_runs rnd d s s' \<Longrightarrow> sys_steps rnd s s'"
  by (induction rule: sys_runs.induct) auto

lemma runs_LPL:
  assumes "sys_runs rnd d s s'" and "order_ok s" and "d \<le> length (LPL (sts s))"
  shows "\<exists>ys. LPL (sts s') = drop d (LPL (sts s)) @ ys"
  using assms
proof (induction rule: sys_runs.induct)
  case (more d s s1 s2)
  have "order_ok s1" using order.steps[OF sys_runs_steps[OF more.hyps(1)] more.prems(1)] .
  note step = step_LPL[OF more.hyps(2) this]
  show ?case
  proof (cases "procer s1 = Claimed \<and> procer s2 = Idle")
    case True
    then have "d < length (LPL (sts s))" using more.prems(2) by simp
    moreover from this obtain ys where ys: "LPL (sts s1) = drop d (LPL (sts s)) @ ys" using more by auto
    moreover have "LPL (sts s2) = tl (LPL (sts s1))" using step True by auto
    ultimately have "LPL (sts s2) = drop (Suc d) (LPL (sts s)) @ ys" by (simp add: tl_append2 drop_Suc tl_drop)
    then show ?thesis using True by auto
  next
    case False
    then obtain ys where "LPL (sts s1) = drop d (LPL (sts s)) @ ys" using more by auto
    then show ?thesis using step False by auto
  qed
qed simp

end
