(* ===== verification/PP_Reload.thy ===== *)
theory PP_Reload
  imports PP_Configure PP_System_Limits
begin

text \<open>
  The configuration thread among the others. Reading \<open>pp.config\<close> again has three parts, each under a
  mutex of its own: the algorithm, the priorities of the queues, the time of a sentence. They are
  steps here, so that other threads may act between them. Two algorithms that do not sort leave every
  invariant alone; changing to one that sorts strands the processes that are ready, for ever.
\<close>

section \<open>Steps\<close>

definition reload_ALG :: "nat \<Rightarrow> t_config \<Rightarrow> system \<Rightarrow> system res" where
  "reload_ALG n config s =
     (case config_get_string_value config ''ALG'' of
        None \<Rightarrow> Inl UB
      | Some alg \<Rightarrow> bindE (apply_ALG n (images s) alg (sts s))
          (\<lambda>a. Inr (s\<lparr>sts := a, shd := (shd s)\<lparr>ALG := alg\<rparr>\<rparr>)))"

definition reload_priorities :: "nat \<Rightarrow> t_config \<Rightarrow> system \<Rightarrow> system res" where
  "reload_priorities n config s =
     bindE (read_priorities config (queuesArray (sts s))) (\<lambda>qs.
     bindE (reorderQueuesArrayPriority n qs) (\<lambda>qs'. Inr (s\<lparr>sts := (sts s)\<lparr>queuesArray := qs'\<rparr>\<rparr>)))"

definition reload_time :: "t_config \<Rightarrow> system \<Rightarrow> system res" where
  "reload_time config s =
     bindE (config_get_int_value config ''SENT_TIME'') (\<lambda>t. Inr (s\<lparr>shd := (shd s)\<lparr>SENT_TIME := t\<rparr>\<rparr>))"

text \<open>One after the other they are \<open>configurationReader\<close> on the state of the server.\<close>

lemma configurationReader_reloads:
  assumes "flagReady cs"
  shows "configurationReader n (images s) config (cs\<lparr>fakeSTSargs := sts s\<rparr>) =
     bindE (reload_ALG n config s) (\<lambda>s1.
     bindE (reload_priorities n config s1) (\<lambda>s2.
     bindE (reload_time config s2) (\<lambda>s3.
     Inr (cs\<lparr>cALG := Some (ALG (shd s3)), cSENT_TIME := SENT_TIME (shd s3), fakeSTSargs := sts s3\<rparr>))))"
proof (cases "config_get_string_value config ''ALG''")
  case None
  then show ?thesis by (simp add: configurationReader_def reload_ALG_def)
next
  case (Some alg)
  show ?thesis
  proof (cases "apply_ALG n (images s) alg (sts s)")
    case (Inl e)
    then show ?thesis using Some by (simp add: configurationReader_def reload_ALG_def)
  next
    case a: (Inr a)
    show ?thesis
    proof (cases "bindE (read_priorities config (queuesArray a)) (reorderQueuesArrayPriority n)")
      case (Inl e)
      then show ?thesis using Some a
        by (cases "read_priorities config (queuesArray a)")
          (simp_all add: configurationReader_def reload_ALG_def reload_priorities_def)
    next
      case (Inr qs)
      then obtain rs where rs: "read_priorities config (queuesArray a) = Inr rs" "reorderQueuesArrayPriority n rs = Inr qs"
        by (auto elim!: bindE_InrE)
      show ?thesis
        by (cases "config_get_int_value config ''SENT_TIME''")
          (simp_all add: configurationReader_def reload_ALG_def reload_priorities_def reload_time_def Some a rs assms Let_def)
    qed
  qed
qed

inductive live_step :: "(rat \<Rightarrow> rat) \<Rightarrow> system \<Rightarrow> system \<Rightarrow> bool" for rnd :: "rat \<Rightarrow> rat" where
  other: "sys_step rnd s s' \<Longrightarrow> live_step rnd s s'"
| algorithm: "reload_ALG n config s = Inr s' \<Longrightarrow> live_step rnd s s'"
| priorities: "reload_priorities n config s = Inr s' \<Longrightarrow> live_step rnd s s'"
| time: "reload_time config s = Inr s' \<Longrightarrow> live_step rnd s s'"

inductive_cases live_stepE: "live_step rnd s s'"

abbreviation live_steps :: "(rat \<Rightarrow> rat) \<Rightarrow> system \<Rightarrow> system \<Rightarrow> bool" where
  "live_steps rnd \<equiv> (live_step rnd)\<^sup>*\<^sup>*"

lemma reload_eqs:
  assumes "reload_ALG n config s = Inr s'"
  obtains alg a where "config_get_string_value config ''ALG'' = Some alg" "apply_ALG n (images s) alg (sts s) = Inr a"
    "s' = s\<lparr>sts := a, shd := (shd s)\<lparr>ALG := alg\<rparr>\<rparr>"
  using assms by (auto simp: reload_ALG_def elim!: bindE_InrE split: option.splits)

lemma priorities_eq:
  assumes "reload_priorities n config s = Inr s'"
  obtains qs where "s' = s\<lparr>sts := (sts s)\<lparr>queuesArray := qs\<rparr>\<rparr>"
  using assms by (auto simp: reload_priorities_def elim!: bindE_InrE)

lemma time_eq:
  assumes "reload_time config s = Inr s'"
  obtains t where "s' = s\<lparr>shd := (shd s)\<lparr>SENT_TIME := t\<rparr>\<rparr>"
  using assms by (auto simp: reload_time_def elim!: bindE_InrE)

section \<open>Algorithms that do not sort\<close>

text \<open>Steps after which the server still runs \<open>FIFO\<close> or \<open>RR\<close>.\<close>

definition tame_step :: "(rat \<Rightarrow> rat) \<Rightarrow> system \<Rightarrow> system \<Rightarrow> bool" where
  "tame_step rnd s s' \<longleftrightarrow> live_step rnd s s' \<and> strSwitch (ALG (shd s')) \<in> {1, 2}"

lemma apply_unsorted: "strSwitch alg \<in> {1, 2} \<Longrightarrow> apply_ALG n mem alg a = Inr a"
  by (auto simp: apply_ALG_def strSwitch_def split: if_splits)

lemma tame_ok:
  assumes "tame_step rnd s s'" and "order_ok s"
  shows "order_ok s'"
proof -
  have alg': "strSwitch (ALG (shd s')) \<in> {1, 2}" and "live_step rnd s s'" using assms(1) by (auto simp: tame_step_def)
  from this(2) show ?thesis
  proof (cases rule: live_step.cases)
    case other
    then show ?thesis using step_ok assms(2) by blast
  next
    case (algorithm n config)
    from algorithm obtain alg a where a: "apply_ALG n (images s) alg (sts s) = Inr a" "s' = s\<lparr>sts := a, shd := (shd s)\<lparr>ALG := alg\<rparr>\<rparr>"
      by (rule reload_eqs)
    then have "a = sts s" using apply_unsorted[of alg] alg' by auto
    then show ?thesis using assms(2) a(2) alg'
      by (simp add: order_ok_def owns_def placed_def sems_def in_order_def)
  next
    case (priorities n config)
    then obtain qs where s': "s' = s\<lparr>sts := (sts s)\<lparr>queuesArray := qs\<rparr>\<rparr>" by (rule priorities_eq)
    show ?thesis using assms(2) unfolding s'
      by (simp add: order_ok_def owns_def placed_def sems_def in_order_def sts_processes_def sts_sems_def source_get_def)
  next
    case (time config)
    then obtain t where s': "s' = s\<lparr>shd := (shd s)\<lparr>SENT_TIME := t\<rparr>\<rparr>" by (rule time_eq)
    show ?thesis using assms(2) unfolding s'
      by (simp add: order_ok_def owns_def placed_def sems_def in_order_def)
  qed
qed

lemma tame_steps_ok: "(tame_step rnd)\<^sup>*\<^sup>* s s' \<Longrightarrow> order_ok s \<Longrightarrow> order_ok s'"
  by (induction rule: rtranclp_induct) (auto intro: tame_ok)

text \<open>The places in the system are counted whatever the algorithm.\<close>

lemma live_mps:
  assumes "live_step rnd s s'" and "mps_ok m s"
  shows "mps_ok m s'"
  using assms(1)
proof (cases rule: live_step.cases)
  case other
  then show ?thesis using step_mps assms(2) by blast
next
  case algorithm
  then show ?thesis by (rule reload_eqs) (auto intro: mps_keep[OF assms(2)])
next
  case priorities
  then show ?thesis by (rule priorities_eq) (auto intro: mps_keep[OF assms(2)])
next
  case time
  then show ?thesis by (rule time_eq) (auto intro: mps_keep[OF assms(2)])
qed

lemma live_steps_mps: "live_steps rnd s s' \<Longrightarrow> mps_ok m s \<Longrightarrow> mps_ok m s'"
  by (induction rule: rtranclp_induct) (auto intro: live_mps)

section \<open>Scheduling invents no process\<close>

abbreviation queued :: "t_STSargs \<Rightarrow> addr list \<Rightarrow> addr set" where
  "queued a l \<equiv> set (sts_processes a) \<union> set l"

lemma ls_sets: "set (ls_add l p) = insert p (set l)" "set (ls_add_in_index l i p) \<subseteq> insert p (set l)"
  by (auto simp: ls_add_def ls_add_in_index_def dest: in_set_takeD in_set_dropD)

lemma ls_remove_set: "ls_remove l i = Inr (x, rest) \<Longrightarrow> set rest \<subseteq> set l \<and> (\<forall>p. x = Some p \<longrightarrow> p \<in> set l)"
  by (auto simp: ls_remove_def dest: in_set_takeD in_set_dropD split: if_splits)

lemma source_pop_queued:
  assumes "lq_pop (snd (source_get c s)) = (Some p, q)"
  shows "p \<in> set (sts_processes s)" "set (sts_processes (source_put c n q s)) \<subseteq> set (sts_processes s)"
proof -
  have s: "snd (source_get c s) = p # q" using assms by (cases "snd (source_get c s)") auto
  then have "c \<in> {5, 6, 7, 8}" by (auto simp: source_get_def split: if_splits)
  then show "p \<in> set (sts_processes s)" "set (sts_processes (source_put c n q s)) \<subseteq> set (sts_processes s)"
    using s by (auto simp: source_get_def source_put_def sts_processes_def)
qed

lemma processes_parts [simp]:
  "sts_processes (s\<lparr>STS_in_empty := n\<rparr>) = sts_processes s"
  "set (sts_processes (push_LPL p s)) = insert p (set (sts_processes s))"
  by (auto simp: sts_processes_def push_LPL_def lq_push_def)

text \<open>A place for a process that keeps it.\<close>

definition keeps_it ::
  "(addr \<Rightarrow> t_STSargs \<times> addr list \<Rightarrow> t_STSargs \<times> addr list) \<Rightarrow> bool" where
  "keeps_it sink \<longleftrightarrow> (\<forall>p a l. case sink p (a, l) of (a', l') \<Rightarrow> queued a' l' \<subseteq> insert p (queued a l))"

lemma keeps_itD: "keeps_it sink \<Longrightarrow> sink p (a, l) = (b, m) \<Longrightarrow> queued b m \<subseteq> insert p (queued a l)"
  unfolding keeps_it_def by (metis (mono_tags, lifting) case_prod_conv)

lemma sinks_keep: "keeps_it to_LPL" "keeps_it to_prioList"
  by (auto simp: keeps_it_def to_LPL_def to_prioList_def ls_sets)

lemma drain_queued:
  "drain n mem sink c (a, l) = Inr (a', l') \<Longrightarrow> keeps_it sink \<Longrightarrow> queued a' l' \<subseteq> queued a l"
proof (induction n arbitrary: a l)
  case (Suc n)
  let ?a = "a\<lparr>STS_in_empty := STS_in_empty a - 1\<rparr>"
  obtain x q where pop: "lq_pop (snd (source_get c ?a)) = (x, q)" by (cases "lq_pop (snd (source_get c ?a))")
  then obtain p where p: "x = Some p" "drain n mem sink c (sink p (source_put c n q ?a, l)) = Inr (a', l')"
    using Suc.prems(1) by (auto simp: Let_def load_img_def split: option.splits elim!: bindE_InrE)
  have src: "insert p (queued (source_put c n q ?a) l) \<subseteq> queued a l"
    using source_pop_queued[OF pop[unfolded p(1)]] unfolding processes_parts(1) by blast
  obtain b m where bm: "sink p (source_put c n q ?a, l) = (b, m)" by (cases "sink p (source_put c n q ?a, l)")
  then have "queued b m \<subseteq> insert p (queued (source_put c n q ?a) l)" using keeps_itD[OF Suc.prems(2)] by blast
  moreover have "queued a' l' \<subseteq> queued b m" using Suc.IH[of b m] p(2) bm Suc.prems(2) by simp
  ultimately show ?case using src by (meson order_trans)
qed simp

lemma drain_all_queued:
  "drain_all mem sink qas (a, l) = Inr (a', l') \<Longrightarrow> keeps_it sink \<Longrightarrow> queued a' l' \<subseteq> queued a l"
proof (induction qas arbitrary: a l)
  case (Cons qa qas)
  from Cons.prems(1) obtain b m where
    "drain (fst (source_get (strSwitch (qname qa)) a)) mem sink (strSwitch (qname qa)) (a, l) = Inr (b, m)"
    "drain_all mem sink qas (b, m) = Inr (a', l')"
    by (auto elim!: bindE_InrE)
  then show ?case using drain_queued Cons.IH Cons.prems(2) by (meson order_trans)
qed simp

lemma take_LPL_queued: "take_LPL n l a = Inr (l', a') \<Longrightarrow> queued a' l' \<subseteq> queued a l"
proof (induction n arbitrary: l a)
  case (Suc n)
  then obtain p q where q: "LPL a = p # q" by (cases "LPL a") (auto simp: Let_def)
  let ?a = "a\<lparr>LPL_empty := LPL_empty a - 1, LPL := q\<rparr>" and ?l = "ls_add_in_index l 0 p"
  have "queued a' l' \<subseteq> queued ?a ?l"
    using Suc.prems Suc.IH[of ?l ?a] q by (auto simp: Let_def split: if_splits)
  then show ?case using ls_sets(2)[of l 0 p] q by (auto simp: sts_processes_def)
qed simp

lemma order_pass_set:
  "order_pass key mem ilimit i l flag = Inr (l', f) \<Longrightarrow> set l' \<subseteq> set l"
proof (induction key mem ilimit i l flag rule: order_pass.induct)
  case (1 key mem ilimit i l flag)
  show ?case
  proof (cases "i < ilimit")
    case False
    then show ?thesis using "1.prems" by (simp add: order_pass.simps)
  next
    case True
    from "1.prems" True obtain p1 p2 i1 i2 where l: "list_elem l i = Inr p1" "list_elem l (i + 1) = Inr p2"
        "load_img mem p1 = Inr i1" "load_img mem p2 = Inr i2"
      and rest: "(if key i1 > key i2 then bindE (ls_remove l i) (\<lambda>(x, rest). case x of None \<Rightarrow> Inl UB
            | Some p \<Rightarrow> if ilimit - i = 1 then order_pass key mem ilimit (i + 1) (ls_add rest p) False
                else order_pass key mem ilimit (i + 1) (ls_add_in_index rest (i + 1) p) False)
          else order_pass key mem ilimit (i + 1) l flag) = Inr (l', f)"
      by (subst (asm) order_pass.simps) (auto elim!: bindE_InrE)
    show ?thesis
    proof (cases "key i1 > key i2")
      case False
      then show ?thesis using rest "1.IH"(3)[OF True l(1,2,3,4)] by simp
    next
      case swap: True
      then obtain p r where r: "ls_remove l i = Inr (Some p, r)"
        and k: "(if ilimit - i = 1 then order_pass key mem ilimit (i + 1) (ls_add r p) False
                else order_pass key mem ilimit (i + 1) (ls_add_in_index r (i + 1) p) False) = Inr (l', f)"
        using rest by (auto elim!: bindE_InrE split: option.splits)
      have s: "set r \<subseteq> set l" "p \<in> set l" using ls_remove_set[OF r] by auto
      show ?thesis
      proof (cases "ilimit - i = 1")
        case True
        then have "set l' \<subseteq> set (ls_add r p)" using k "1.IH"(1)[OF \<open>i < ilimit\<close> l swap r refl refl] by simp
        then show ?thesis using s by (auto simp: ls_sets)
      next
        case False
        then have "set l' \<subseteq> set (ls_add_in_index r (i + 1) p)" using k "1.IH"(2)[OF \<open>i < ilimit\<close> l swap r refl refl] by simp
        then show ?thesis using s ls_sets(2)[of r "i + 1" p] by blast
      qed
    qed
  qed
qed

lemma until_flag_set:
  "until_flag n body l = Inr l' \<Longrightarrow> (\<And>l l' f. body l = Inr (l', f) \<Longrightarrow> set l' \<subseteq> set l) \<Longrightarrow> set l' \<subseteq> set l"
proof (induction n arbitrary: l)
  case (Suc n)
  from Suc.prems(1) obtain l1 f where l1: "body l = Inr (l1, f)" "(if f then Inr l1 else until_flag n body l1) = Inr l'"
    by (auto elim!: bindE_InrE)
  have "set l1 \<subseteq> set l" by (rule Suc.prems(2)[OF l1(1)])
  moreover have "set l' \<subseteq> set l1" if "\<not> f" using that l1(2) by (intro Suc.IH[OF _ Suc.prems(2)]) simp_all
  ultimately show ?case using l1(2) by (cases f) auto
qed simp

lemma order_loop_set: "order_loop n key mem l = Inr l' \<Longrightarrow> set l' \<subseteq> set l"
  unfolding order_loop_def by (erule until_flag_set) (rule order_pass_set)

lemma push_back_queued: "push_back n l a = Inr a' \<Longrightarrow> set (sts_processes a') \<subseteq> queued a l"
proof (induction n arbitrary: l a)
  case (Suc n)
  from Suc.prems obtain p r where r: "ls_remove l 0 = Inr (Some p, r)" "push_back n r (push_LPL p a) = Inr a'"
    by (auto elim!: bindE_InrE split: option.splits)
  show ?case using Suc.IH[OF r(2)] ls_remove_set[OF r(1)] by auto
qed auto

lemma orderInsertList_queued: "orderInsertList key n mem l a = Inr a' \<Longrightarrow> set (sts_processes a') \<subseteq> queued a l"
proof -
  assume "orderInsertList key n mem l a = Inr a'"
  then obtain l1 a1 l2 where *: "take_LPL (length (LPL a)) l a = Inr (l1, a1)" "order_loop n key mem l1 = Inr l2"
      "push_back (length l2) l2 a1 = Inr a'"
    by (auto simp: orderInsertList_def elim!: bindE_InrE)
  show ?thesis using take_LPL_queued[OF *(1)] order_loop_set[OF *(2)] push_back_queued[OF *(3)] by auto
qed

lemma STS_round_queued:
  assumes "STS_round n mem alg a = Inr (Some a')"
  shows "set (sts_processes a') \<subseteq> set (sts_processes a)"
proof -
  have sorted: "set (sts_processes a') \<subseteq> set (sts_processes a)"
    if r: "bindE (drain_all mem to_prioList (queuesArray a) (a, [])) (\<lambda>(b, l). orderInsertList key n mem l b) = Inr a'"
    for key :: "t_ProcessImage \<Rightarrow> 'k :: linorder"
  proof -
    from r obtain b l where b: "drain_all mem to_prioList (queuesArray a) (a, []) = Inr (b, l)" "orderInsertList key n mem l b = Inr a'"
      by (auto elim!: bindE_InrE)
    show ?thesis using drain_all_queued[OF b(1) sinks_keep(2)] orderInsertList_queued[OF b(2)] by auto
  qed
  consider "ordenarFIFO mem a = Inr a'" | "ordenarPRI n mem a = Inr a'" | "ordenarSPN n mem a = Inr a'"
    using assms by (auto simp: STS_round_def Let_def split: if_splits elim!: bindE_InrE)
  then show ?thesis
  proof cases
    case 1
    then obtain l where "drain_all mem to_LPL (queuesArray a) (a, []) = Inr (a', l)"
      by (auto simp: ordenarFIFO_def elim!: bindE_InrE)
    from drain_all_queued[OF this sinks_keep(1)] show ?thesis by simp
  next
    case 2
    then show ?thesis using sorted[of "\<lambda>i. sint (priority i)"] by (simp add: ordenarPRI_def orderInsertPrioList_def)
  next
    case 3
    then show ?thesis using sorted[of Tspn] by (simp add: ordenarSPN_def orderInsertSPNList_def)
  qed
qed

lemma apply_ALG_queued: "apply_ALG n mem alg a = Inr a' \<Longrightarrow> set (sts_processes a') \<subseteq> set (sts_processes a)"
  using orderInsertList_queued[of "\<lambda>i. sint (priority i)" n mem "[]" a a'] orderInsertList_queued[of Tspn n mem "[]" a a']
  by (auto simp: apply_ALG_def orderInsertPrioList_def orderInsertSPNList_def split: if_splits elim!: bindE_InrE)

section \<open>A process in no queue\<close>

text \<open>What an execution asks of the I/O threads is for its own process.\<close>

definition asks :: "addr \<Rightarrow> xstate \<Rightarrow> xstate \<Rightarrow> bool" where
  "asks self st st' \<longleftrightarrow> set (blocked (LPB (sh st'))) \<subseteq> insert self (set (blocked (LPB (sh st))))"

lemma asks_refl [simp]: "asks self st st"
  by (auto simp: asks_def)

lemma insert_chain: "C \<subseteq> insert x A \<Longrightarrow> A \<subseteq> insert x B \<Longrightarrow> C \<subseteq> insert x B"
  by blast

lemma asks_trans: "asks self st st1 \<Longrightarrow> asks self st1 st2 \<Longrightarrow> asks self st st2"
  unfolding asks_def by (rule insert_chain)

lemma asks_cong: "LPB (sh st2) = LPB (sh st1) \<Longrightarrow> asks self st st2 = asks self st st1"
  by (simp add: asks_def)

lemma asks_push: "LPB (sh st2) = LPB (sh st1) @ [r] \<Longrightarrow> io_image r = self \<Longrightarrow> asks self st st2 = asks self st st1"
  unfolding asks_def by simp

lemma asks_parts [simp]:
  "asks self st (set_data d st1) = asks self st st1" "asks self st (set_PC p st1) = asks self st st1"
  "asks self st (set_stack k st1) = asks self st st1" "asks self st (do_sleep x st1) = asks self st st1"
  "asks self st (charge st1) = asks self st st1" "asks self st (st1\<lparr>ioBlockInterrupt := c\<rparr>) = asks self st st1"
  "asks self st (send_N t st1) = asks self st st1"
  by (rule asks_cong; simp add: piece_defs)+

lemma asks_request [simp]: "asks self st (push_LPB self y b st1) = asks self st st1"
  by (rule asks_push[where r = "\<lparr>io_image = self, ioTime = y, flagNonBlocking = b\<rparr>"]) (simp_all add: push_LPB_def lq_push_def)

lemma store_result_asks: "store_result line x st1 = Inr st2 \<Longrightarrow> asks self st st2 = asks self st st1"
  using store_result_eq[of line x st1 st2] by auto

lemma jump_asks: "jump_if b code line st1 = Inr st2 \<Longrightarrow> asks self st st2 = asks self st st1"
  by (auto simp: jump_if_def res_simps split: if_splits)

lemma ins_asks:
  "post True (asks self st) (ins_variables line st)" "post True (asks self st) (ins_imprimir line st)"
  "post True (asks self st) (ins_ssc code line st)" "post True (asks self st) (ins_snc code line st)"
  "post True (asks self st) (ins_assign line st)" "post True (asks self st) (ins_io_assign_main self line st)"
  "post True (asks self st) (ins_io_assign_func self line PC st)" "post True (asks self st) (ins_io width self line PC st)"
  by (auto simp: ins_variables_def ins_imprimir_def ins_assign_def ins_ssc_def ins_snc_def ins_io_def
      ins_io_assign_main_def ins_io_assign_func_def post_True_iff res_simps Let_def jump_asks store_result_asks
      split: if_splits)

lemma asks_interfere:
  assumes "signal_env env"
  shows "asks self st (interfere env st1) = asks self st st1"
proof -
  have "env (tick st1) (sh st1) = (sh st1)\<lparr>SUSPEND := SUSPEND (env (tick st1) (sh st1))\<rparr>"
    using assms by (simp add: signal_env_def)
  then have "LPB (env (tick st1) (sh st1)) = LPB (sh st1)" by (rule arg_cong[where f = LPB, THEN trans]) simp
  then show ?thesis by (simp add: asks_def)
qed

lemma main_instr_asks: "post True (\<lambda>(st', call). asks self st st') (main_instr code self line st)"
  by (intro main_instr_post ins_asks asks_refl)

lemma func_instr_asks: "post True (\<lambda>(st', call). asks self st st') (func_instr self line PC st)"
  by (intro func_instr_post ins_asks asks_refl)

interpretation asking: exec_relation env self "\<lambda>st st'. signal_env env \<longrightarrow> asks self st st'"
proof unfold_locales
  show "post True (\<lambda>(st', call). signal_env env \<longrightarrow> asks self st st') (main_instr code self line st)" for code line st
    using main_instr_asks[of self st code line] by (rule post_mono) auto
  show "post True (\<lambda>(st', call). signal_env env \<longrightarrow> asks self st st') (func_instr self line PC st)" for line PC st
    using func_instr_asks[of self st line PC] by (rule post_mono) auto
qed (auto simp: asks_interfere intro: asks_trans)

lemma execution_asks: "signal_env env \<Longrightarrow> processExecution n code self env st = Inr st' \<Longrightarrow> asks self st st'"
  using asking.execution by blast

text \<open>An allocated process that is in no queue and in no request.\<close>

definition stranded :: "addr \<Rightarrow> system \<Rightarrow> bool" where
  "stranded p s \<longleftrightarrow> images s p \<noteq> None \<and> p < next_addr s \<and> p \<notin> set (placed s)"

lemma set_placed: "set (placed s) = set (LFIFO s) \<union> set (LPS s) \<union> set (sts_processes (sts s))
    \<union> set (blocked (LPB (shd s))) \<union> set (blocked (io_running s))"
  by (simp add: placed_def Un_assoc)

lemma stranded_keep:
  assumes "stranded p s" and "images s' p \<noteq> None" and "next_addr s \<le> next_addr s'"
    and "set (placed s') \<subseteq> q \<union> set (placed s)" and "p \<notin> q"
  shows "stranded p s'"
proof -
  have "p < next_addr s" "p \<notin> set (placed s)" using assms(1) by (simp_all add: stranded_def)
  moreover have "p \<notin> set (placed s')" using calculation(2) assms(4,5) by blast
  ultimately show ?thesis unfolding stranded_def using assms(2,3) by simp
qed

lemma enqueue_set: "c \<in> {5, 6, 7, 8} \<Longrightarrow> set (sts_processes (enqueue_source c p a)) = insert p (set (sts_processes a))"
  using mset_eq_setD[of "sts_processes (enqueue_source c p a)" "p # sts_processes a"] enqueue_processes[of c p a] by simp

lemma after_left:
  assumes "PROCER_after code p i st s0 = Inr s'"
  shows "LFIFO s' = LFIFO s0 \<and> io_running s' = io_running s0 \<and> next_addr s' = next_addr s0
    \<and> LPB (shd s') = LPB (sh st) \<and> (\<forall>p'. p' \<noteq> p \<longrightarrow> images s' p' = images s0 p')
    \<and> set (LPS s') \<union> set (sts_processes (sts s')) \<subseteq> {p} \<union> set (LPS s0) \<union> set (sts_processes (sts s0))"
proof -
  from assms obtain line where line: "code_line code (piPC i) = Inr line"
    by (auto simp: PROCER_after_def Let_def res_simps)
  note after = assms[unfolded PROCER_after_def Let_def line bindE_Inr]
  consider (fin) "line = ''fin_programa''" | (block) "line \<noteq> ''fin_programa''" "ioBlockInterrupt st"
    | (suspend) "line \<noteq> ''fin_programa''" "\<not> ioBlockInterrupt st" "SUSPEND (sh st)"
    | (other) "line \<noteq> ''fin_programa''" "\<not> ioBlockInterrupt st" "\<not> SUSPEND (sh st)" by blast
  then show ?thesis
  proof cases
    case other
    then show ?thesis using after[symmetric] by (auto simp: enqueue_set split: if_splits)
  qed (use after in \<open>auto simp: send_list_def ls_add_def elim!: bindE_InrE\<close>)
qed

lemma run_stranded:
  assumes p: "stranded p s" and env: "signal_env env" and run: "PROCER_run rnd n env s = Inr s'"
  shows "stranded p s'"
proof -
  from run obtain p1 q i code st where *: "LPL (sts s) = p1 # q" "images s p1 = Some i"
      "processExecution n code p1 env (dispatch_state i (shd s)) = Inr st"
    and after: "PROCER_after code p1 ((img st)\<lparr>Tspn := next_Tspn rnd (ALFA s) (Tspn (img st)) (rafaga st)\<rparr>)
      st (s\<lparr>procer := Idle, sts := (sts s)\<lparr>LPL := q\<rparr>\<rparr>) = Inr s'"
    by (cases "LPL (sts s)") (auto simp: PROCER_run_def load_img_def res_simps Let_def split: option.splits)
  have "p1 \<in> set (sts_processes (sts s))" "set (sts_processes ((sts s)\<lparr>LPL := q\<rparr>)) \<subseteq> set (sts_processes (sts s))"
    using *(1) by (auto simp: sts_processes_def)
  moreover from this have ne: "p \<noteq> p1" using p by (auto simp: stranded_def set_placed)
  moreover have "set (blocked (LPB (sh st))) \<subseteq> insert p1 (set (blocked (LPB (shd s))))"
    using execution_asks[OF env *(3)] by (simp add: asks_def dispatch_state_def)
  ultimately show ?thesis using after_left[OF after] p
    by (intro stranded_keep[OF p, where q = "{p1}"]) (auto simp: stranded_def set_placed)
qed

lemma live_stranded:
  assumes "live_step rnd s s'" and p: "stranded p s"
  shows "stranded p s'"
proof -
  note keep = stranded_keep[OF p, where q = "{}"]
  have same: "images s p \<noteq> None" using p by (simp add: stranded_def)
  have sys: ?thesis if "sys_step rnd s s'"
    using that
  proof (cases rule: sys_step.cases)
    case (new_script fd t script prio)
    have "next_addr s \<noteq> p" using p by (auto simp: stranded_def)
    then show ?thesis using new_script same
      by (cases rule: LTSconex_new_cases[of fd t script prio s])
        (auto simp: admit_new_def enqueue_set set_placed intro!: stranded_keep[OF p, where q = "{next_addr s}"])
  next
    case (message fd dataIn)
    then show ?thesis
    proof (cases rule: resume_cases)
      case (restored r lps)
      then have "set (LPS s) = insert r (set lps)" by (metis set_mset_add_mset_insert set_mset_mset)
      then show ?thesis using restored same by (intro keep) (auto simp: set_placed enqueue_set)
    qed (use same in \<open>auto simp: set_placed intro!: keep\<close>)
  next
    case (flush fd)
    then show ?thesis by (cases rule: LTSconex_out_cases) (use same in \<open>auto simp: set_placed intro!: keep\<close>)
  next
    case admit_wait
    then show ?thesis using same by (auto simp: LTSnew_claim_def set_placed split: if_splits intro!: keep)
  next
    case admit
    then show ?thesis using same by (auto elim!: move_new_eq simp: set_placed enqueue_set intro!: keep)
  next
    case (take_one c a)
    then show ?thesis using same mset_eq_setD[OF STS_take_processes[OF take_one(3,5)]] by (intro keep) (auto simp: set_placed)
  next
    case (sort_all n a)
    then show ?thesis using same STS_round_queued[OF sort_all(4)] by (intro keep) (auto simp: set_placed)
  next
    case claim
    then show ?thesis using same by (auto simp: PROCER_claim_def sts_processes_def simp: set_placed split: if_splits intro!: keep)
  next
    case run
    then show ?thesis using run_stranded[OF p] by blast
  next
    case io_start
    then show ?thesis using same by (auto elim!: io_start_eq simp: set_placed intro!: keep split: if_splits)
  next
    case (io_finish i)
    then obtain req rest where r: "mset (io_running s) = add_mset req (mset rest)"
      "s' = s\<lparr>io_running := rest, shd := (shd s)\<lparr>ioThreads := ioThreads (shd s) + 1\<rparr>,
        sts := (if flagNonBlocking req then sts s else enqueue_source 8 (io_image req) (sts s))\<rparr>"
      by (rule io_finish_eq)
    from r(1) have "set (io_running s) = insert req (set rest)" by (metis set_mset_add_mset_insert set_mset_mset)
    then have "set (blocked (io_running s)) = (if flagNonBlocking req then {} else {io_image req}) \<union> set (blocked rest)"
      by (auto simp: blocking_def)
    then show ?thesis using r(2) same by (intro keep) (auto simp: set_placed enqueue_set)
  next
    case (signal m sig)
    then show ?thesis using same by (cases sig) (auto simp: signal_handler_def simp: set_placed intro!: keep)
  qed
  from assms(1) show ?thesis
  proof (cases rule: live_step.cases)
    case other
    then show ?thesis by (rule sys)
  next
    case (algorithm n config)
    then obtain alg a where a: "apply_ALG n (images s) alg (sts s) = Inr a" "s' = s\<lparr>sts := a, shd := (shd s)\<lparr>ALG := alg\<rparr>\<rparr>"
      by (rule reload_eqs)
    show ?thesis using same apply_ALG_queued[OF a(1)] by (intro keep) (auto simp: set_placed a(2))
  next
    case priorities
    then show ?thesis using same by (auto elim!: priorities_eq simp: set_placed sts_processes_def intro!: keep)
  next
    case time
    then show ?thesis using same by (auto elim!: time_eq simp: set_placed intro!: keep)
  qed
qed

lemma live_steps_stranded: "live_steps rnd s s' \<Longrightarrow> stranded p s \<Longrightarrow> stranded p s'"
  by (induction rule: rtranclp_induct) (auto intro: live_stranded)

section \<open>An algorithm that sorts\<close>

lemma switch_strands:
  assumes o: "order_ok s" and idle: "procer s = Idle" and p: "p \<in> set (LPL (sts s))"
    and alg: "config_get_string_value config ''ALG'' = Some alg" "alg = ''PRI'' \<or> alg = ''SPN''"
    and n: "length (LPL (sts s)) \<le> n"
  shows "\<exists>s'. reload_ALG n config s = Inr s' \<and> images s' = images s \<and> MPS_sem s' = MPS_sem s
    \<and> next_addr s' = next_addr s \<and> LPL (sts s') = [] \<and> stranded p s'"
proof -
  have own: "distinct (placed s)" "set (placed s) = dom (images s)" "\<forall>p \<in> dom (images s). p < next_addr s"
    and sem: "LPL_empty (sts s) = length (LPL (sts s))"
    using o idle by (simp_all add: order_ok_def owns_def sems_def sts_sems_def)
  have "set (LPL (sts s)) \<subseteq> set (placed s)" by (auto simp: placed_def sts_processes_def)
  then have live: "live (images s) (LPL (sts s))" and mine: "images s p \<noteq> None" "p < next_addr s"
    using own p by (auto simp: live_def)
  have "0 < n" using p n by (cases "LPL (sts s)") auto
  note a = apply_ALG_spec[OF live sem n this, of alg]
  define s' where "s' = s\<lparr>sts := after_ALG alg (sts s), shd := (shd s)\<lparr>ALG := alg\<rparr>\<rparr>"
  have "p \<notin> set (placed s')"
    using own(1) p alg(2) by (auto simp: s'_def placed_def after_ALG_def sts_processes_def)
  then have "stranded p s'" using mine by (simp add: stranded_def s'_def)
  moreover have "reload_ALG n config s = Inr s'" using alg(1) a by (simp add: reload_ALG_def s'_def)
  ultimately show ?thesis using alg(2) by (intro exI[of _ s']) (auto simp: s'_def after_ALG_def)
qed

end
