(* ===== verification/PP_Interleaved.thy ===== *)
theory PP_Interleaved
  imports PP_Rounds PP_Reload
begin

text \<open>
  The server with \<open>PROCER\<close> taken apart: a process is dispatched, its script is executed round by
  round, and it leaves; every other thread may take any of its steps in between, and finds the image
  of the running process as the last round left it. A dispatch of \<open>PP_System\<close> is one of the
  interleavings (\<open>run_interleaved\<close>), and the invariants hold along all of them (\<open>fine_step_ok\<close>).
\<close>

section \<open>\<open>PROCER\<close>, round by round\<close>

text \<open>What \<open>PROCER\<close> holds of the running process; of \<open>locals\<close>, the image and the shared structures are in the store.\<close>

record dispatched =
  cpu_addr :: addr
  cpu_code :: "string list"
  cpu_control :: control
  cpu_locals :: xstate

definition seen :: "dispatched \<Rightarrow> t_ProcessImage \<Rightarrow> system \<Rightarrow> xstate" where
  "seen r i s = (cpu_locals r)\<lparr>img := i, sh := shd s, tick := Suc (tick (cpu_locals r))\<rparr>"

definition put_back :: "addr \<Rightarrow> xstate \<Rightarrow> system \<Rightarrow> system" where
  "put_back p st s = s\<lparr>images := (images s)(p \<mapsto> img st), shd := sh st\<rparr>"

definition PROCER_dispatch :: "system \<Rightarrow> (system \<times> dispatched) res" where
  "PROCER_dispatch s =
     (case lq_pop (LPL (sts s)) of
        (None, _) \<Rightarrow> Inl UB
      | (Some p, q) \<Rightarrow>
          bindE (load_img (images s) p) (\<lambda>i.
          bindE (codeSegmentCreator (piCode i)) (\<lambda>code.
          bindE (exec_start (dispatch_state i (shd s))) (\<lambda>(c, st).
          Inr (put_back p st (s\<lparr>procer := Idle, sts := (sts s)\<lparr>LPL := q\<rparr>\<rparr>),
               \<lparr>cpu_addr = p, cpu_code = code, cpu_control = c, cpu_locals = st\<rparr>)))))"

definition PROCER_round :: "dispatched \<Rightarrow> system \<Rightarrow> (system \<times> dispatched) res" where
  "PROCER_round r s =
     bindE (load_img (images s) (cpu_addr r)) (\<lambda>i.
     bindE (exec_round (cpu_code r) (cpu_addr r) (cpu_control r) (seen r i s)) (\<lambda>(c, st).
     Inr (put_back (cpu_addr r) st s, r\<lparr>cpu_control := c, cpu_locals := st\<rparr>)))"

definition PROCER_finish :: "(rat \<Rightarrow> rat) \<Rightarrow> dispatched \<Rightarrow> system \<Rightarrow> system res" where
  "PROCER_finish rnd r s =
     bindE (load_img (images s) (cpu_addr r)) (\<lambda>i.
     PROCER_after (cpu_code r) (cpu_addr r)
       (i\<lparr>Tspn := next_Tspn rnd (ALFA s) (Tspn i) (rafaga (cpu_locals r))\<rparr>) (seen r i s) s)"

text \<open>A step of another thread is one of \<open>PP_Reload\<close>, the configuration thread among them, that leaves
  \<open>PROCER\<close> where it is.\<close>

inductive fine_step :: "(rat \<Rightarrow> rat) \<Rightarrow> system \<times> dispatched option \<Rightarrow> system \<times> dispatched option \<Rightarrow> bool" for rnd where
  other: "live_step rnd s s' \<Longrightarrow> procer s' = procer s \<Longrightarrow> fine_step rnd (s, cpu) (s', cpu)"
| claims: "PROCER_claim s = Some s' \<Longrightarrow> fine_step rnd (s, None) (s', None)"
| dispatch: "procer s = Claimed \<Longrightarrow> PROCER_dispatch s = Inr (s', r) \<Longrightarrow> fine_step rnd (s, None) (s', Some r)"
| sentence: "cpu_control r \<noteq> Finished \<Longrightarrow> PROCER_round r s = Inr (s', r') \<Longrightarrow> fine_step rnd (s, Some r) (s', Some r')"
| leave: "cpu_control r = Finished \<Longrightarrow> PROCER_finish rnd r s = Inr s' \<Longrightarrow> fine_step rnd (s, Some r) (s', None)"

abbreviation fine_steps :: "(rat \<Rightarrow> rat) \<Rightarrow> system \<times> dispatched option \<Rightarrow> system \<times> dispatched option \<Rightarrow> bool" where
  "fine_steps rnd \<equiv> (fine_step rnd)\<^sup>*\<^sup>*"

text \<open>As long as the configuration names \<open>FIFO\<close> or \<open>RR\<close>.\<close>

definition tame_fine :: "(rat \<Rightarrow> rat) \<Rightarrow> system \<times> dispatched option \<Rightarrow> system \<times> dispatched option \<Rightarrow> bool" where
  "tame_fine rnd f f' \<longleftrightarrow> fine_step rnd f f' \<and> strSwitch (ALG (shd (fst f'))) \<in> {1, 2}"

abbreviation tame_fines :: "(rat \<Rightarrow> rat) \<Rightarrow> system \<times> dispatched option \<Rightarrow> system \<times> dispatched option \<Rightarrow> bool" where
  "tame_fines rnd \<equiv> (tame_fine rnd)\<^sup>*\<^sup>*"

section \<open>A dispatch as one interleaving\<close>

text \<open>The other threads may set \<open>SUSPEND\<close> before a sentence, and do nothing else.\<close>

definition raising :: "environment \<Rightarrow> bool" where
  "raising env \<longleftrightarrow> (\<forall>k s. env k s = s \<or> env k s = s\<lparr>SUSPEND := True\<rparr>)"

lemma raised_step: "raising env \<Longrightarrow> fine_steps rnd (s, cpu) (s\<lparr>shd := env k (shd s)\<rparr>, cpu)"
proof -
  assume "raising env"
  then consider "s\<lparr>shd := env k (shd s)\<rparr> = s" | "s\<lparr>shd := env k (shd s)\<rparr> = fst (signal_handler 0 SIGUSR1 s)"
    unfolding raising_def signal_handler_def by (cases "env k (shd s) = shd s") force+
  then show ?thesis
    by cases (auto simp: signal_handler_def intro!: r_into_rtranclp other live_step.other sys_step.signal[of _ _ 0 SIGUSR1, unfolded signal_handler_def, simplified])
qed

definition at_round :: "addr \<Rightarrow> string list \<Rightarrow> system \<Rightarrow> control \<times> xstate \<Rightarrow> system \<times> dispatched option" where
  "at_round p code s = (\<lambda>(c, st). (put_back p st s, Some \<lparr>cpu_addr = p, cpu_code = code, cpu_control = c, cpu_locals = st\<rparr>))"

lemma put_back_again [simp]:
  "put_back p st (put_back p st' s) = put_back p st s"
  "put_back p st ((put_back p st' s)\<lparr>shd := d\<rparr>) = put_back p st s"
  by (simp_all add: put_back_def)

lemma round_interleaved:
  assumes "raising env" and "round_step code p env x y"
  shows "fine_steps rnd (at_round p code s x) (at_round p code s y)"
  using assms(2)
proof cases
  case (round c st)
  obtain c' st' where y: "y = (c', st')" by force
  let ?r = "\<lparr>cpu_addr = p, cpu_code = code, cpu_control = c, cpu_locals = st\<rparr>"
  let ?s = "(put_back p st s)\<lparr>shd := env (tick st) (sh st)\<rparr>"
  have "seen ?r (img st) ?s = interfere env st" by (simp add: seen_def interfere_def)
  then have "PROCER_round ?r ?s = Inr (put_back p st' s, \<lparr>cpu_addr = p, cpu_code = code, cpu_control = c', cpu_locals = st'\<rparr>)"
    using round(3) y by (simp add: PROCER_round_def load_img_def put_back_def)
  then have "fine_step rnd (?s, Some ?r) (at_round p code s y)"
    using round(2) y by (auto simp: at_round_def intro: sentence)
  moreover have "fine_steps rnd (at_round p code s x) (?s, Some ?r)"
    using raised_step[OF assms(1), of rnd "put_back p st s" "Some ?r" "tick st"] round(1)
    by (simp add: at_round_def put_back_def)
  ultimately show ?thesis by (rule rtranclp.rtrancl_into_rtrancl[rotated])
qed

lemma rounds_interleaved:
  "raising env \<Longrightarrow> rounds code p env x y \<Longrightarrow> fine_steps rnd (at_round p code s x) (at_round p code s y)"
  by (rotate_tac, induction rule: rtranclp_induct) (auto intro: rtranclp_trans round_interleaved)

lemma run_interleaved:
  assumes "raising env" and "procer s = Claimed" and run: "PROCER_run rnd n env s = Inr s'"
  shows "fine_steps rnd (s, None) (s', None)"
proof -
  from run obtain p q i code st where *: "LPL (sts s) = p # q" "images s p = Some i"
      "codeSegmentCreator (piCode i) = Inr code" "processExecution n code p env (dispatch_state i (shd s)) = Inr st"
    and after: "PROCER_after code p ((img st)\<lparr>Tspn := next_Tspn rnd (ALFA s) (Tspn (img st)) (rafaga st)\<rparr>)
      st (s\<lparr>procer := Idle, sts := (sts s)\<lparr>LPL := q\<rparr>\<rparr>) = Inr s'"
    by (cases "LPL (sts s)") (auto simp: PROCER_run_def load_img_def res_simps Let_def split: option.splits)
  define s0 where "s0 = s\<lparr>procer := Idle, sts := (sts s)\<lparr>LPL := q\<rparr>\<rparr>"
  let ?r = "\<lparr>cpu_addr = p, cpu_code = code, cpu_control = Finished, cpu_locals = st\<rparr>"
  obtain x where x: "exec_start (dispatch_state i (shd s)) = Inr x" "rounds code p env x (Finished, st)"
    using processExecution_rounds[OF *(4)] by blast
  have "PROCER_dispatch s = Inr (put_back p (snd x) s0, \<lparr>cpu_addr = p, cpu_code = code, cpu_control = fst x, cpu_locals = snd x\<rparr>)"
    using * x(1) by (cases x) (simp add: PROCER_dispatch_def load_img_def s0_def)
  then have "fine_step rnd (s, None) (at_round p code s0 x)"
    using assms(2) by (auto simp: at_round_def split_beta intro: fine_step.dispatch)
  moreover have "fine_steps rnd (at_round p code s0 x) (put_back p st s0, Some ?r)"
    using rounds_interleaved[OF assms(1) x(2)] by (simp add: at_round_def)
  moreover have "fine_step rnd (put_back p st s0, Some ?r) (s', None)"
  proof (rule leave)
    have "PROCER_after code p i' (seen ?r (img st) (put_back p st s0)) (put_back p st s0) = PROCER_after code p i' st s0" for i'
      by (simp add: PROCER_after_def seen_def put_back_def Let_def)
    then show "PROCER_finish rnd ?r (put_back p st s0) = Inr s'"
      using after by (simp add: PROCER_finish_def load_img_def put_back_def s0_def)
  qed simp
  ultimately show ?thesis by (meson converse_rtranclp_into_rtranclp rtranclp.rtrancl_into_rtrancl)
qed

text \<open>The steps of \<open>PP_System\<close>, with that restriction on their dispatches.\<close>

inductive calm_step :: "(rat \<Rightarrow> rat) \<Rightarrow> system \<Rightarrow> system \<Rightarrow> bool" for rnd where
  calm_other: "sys_step rnd s s' \<Longrightarrow> procer s' = procer s \<Longrightarrow> calm_step rnd s s'"
| calm_claim: "PROCER_claim s = Some s' \<Longrightarrow> calm_step rnd s s'"
| calm_run: "procer s = Claimed \<Longrightarrow> raising env \<Longrightarrow> PROCER_run rnd n env s = Inr s' \<Longrightarrow> calm_step rnd s s'"

lemma raising_signal_env:
  assumes "raising env"
  shows "signal_env env"
  unfolding signal_env_def
proof (intro allI)
  fix k s
  from assms consider "env k s = s" | "env k s = s\<lparr>SUSPEND := True\<rparr>" unfolding raising_def by blast
  then show "env k s = s\<lparr>SUSPEND := SUSPEND (env k s)\<rparr>" by cases simp_all
qed

lemma calm_sys_step: "calm_step rnd s s' \<Longrightarrow> sys_step rnd s s'"
  by (induction rule: calm_step.induct) (auto intro: sys_step.claim sys_step.run raising_signal_env)

lemma calm_interleaved: "(calm_step rnd)\<^sup>*\<^sup>* s s' \<Longrightarrow> fine_steps rnd (s, None) (s', None)"
proof (induction rule: rtranclp_induct)
  case (step s1 s2)
  from step(2) have "fine_steps rnd (s1, None) (s2, None)"
    by cases (auto intro: fine_step.other live_step.other fine_step.claims run_interleaved)
  with step(3) show ?case by (rule rtranclp_trans)
qed simp

section \<open>One round\<close>

text \<open>What holds of the running process between two rounds.\<close>

definition on_processor :: "string list \<Rightarrow> control \<Rightarrow> xstate \<Rightarrow> bool" where
  "on_processor code c st \<longleftrightarrow> within_quantum st
     \<and> (case c of InFunction _ _ \<Rightarrow> off_end code st | _ \<Rightarrow> ioBlockInterrupt st \<or> piStack (img st) \<noteq> [] \<longrightarrow> off_end code st)
     \<and> (c = Finished \<longrightarrow> exited code st)"

text \<open>Without another thread in it, a round is one of the loops that run alone.\<close>

lemma signal_env_alone [simp]: "signal_env (\<lambda>_ sd. sd)" "keeps_quantum (\<lambda>_ sd. sd)"
  by (simp_all add: signal_env_def keeps_quantum_def)

lemma back_to_stack: "back_to fr st = Inr (c, st') \<Longrightarrow> (\<exists>k. st' = set_stack k st) \<and> c \<noteq> Finished"
  by (auto simp: back_to_def res_simps intro: exI[of _ "piStack (img st)"] split: list.splits if_splits)

lemma stopped_round:
  assumes "exec_round code self c st = Inr (c', st')" and "\<not> running st" and "c \<noteq> Finished"
  shows "(\<exists>k. st' = set_stack k st) \<and> (c' = Finished \<longrightarrow> st' = st \<and> exited code st)"
proof (cases c)
  case InMain
  then show ?thesis using assms(1,2) by (auto simp: exec_round_def exited_def res_simps intro: exI[of _ "piStack (img st)"])
next
  case (InFunction el fr)
  have two: "\<exists>k. set_stack k1 (set_stack k2 st) = set_stack k st" for k1 k2 by (intro exI[of _ k1]) simp
  show ?thesis using assms(1,2) InFunction two
    by (fastforce simp: exec_round_def res_simps dest: back_to_stack split: if_splits)
qed (use assms(3) in simp)

lemma round_effect:
  assumes "exec_round code self c st = Inr (c', st')" and on: "on_processor code c st" and c: "c \<noteq> Finished"
  shows "on_processor code c' st'" "same_process (img st) (img st')" "quantum (sh st') = quantum (sh st)" "ALG (sh st') = ALG (sh st)"
    "if ioBlockInterrupt st then sh st' = sh st \<and> ioBlockInterrupt st' else requests self (sh st) st'"
proof -
  have q: "within_quantum st'" "c' = Finished \<Longrightarrow> exited code st'"
    using exec_invariant.round_post[OF quantum_invariant[OF signal_env_alone(2)], of c st code self] assms
    by (auto simp: on_processor_def at_control_def split: control.splits)
  have "on_processor code c' st' \<and> same_process (img st) (img st') \<and> quantum (sh st') = quantum (sh st) \<and> ALG (sh st') = ALG (sh st)
      \<and> (if ioBlockInterrupt st then sh st' = sh st \<and> ioBlockInterrupt st' else requests self (sh st) st')"
  proof (cases "ioBlockInterrupt st")
    case True
    then obtain k where k: "st' = set_stack k st" using stopped_round[OF assms(1) _ c] by (auto simp: running_def)
    have "off_end code st" using on True by (auto simp: on_processor_def split: control.splits)
    then show ?thesis using k q True by (auto simp: on_processor_def same_process_def split: control.splits)
  next
    case False
    let ?M = "\<lambda>st1. tracked self (img st) (sh st) st1 \<and> (ioBlockInterrupt st1 \<or> piStack (img st1) \<noteq> [] \<longrightarrow> off_end code st1)"
    let ?F = "\<lambda>(_ :: t_stack) (_ :: t_stack list) st1. tracked self (img st) (sh st) st1 \<and> off_end code st1"
    have "tracked self (img st) (sh st) st" using False by (simp add: tracked_def requests_def same_process_def)
    then have "at_control ?M ?F c st" using on by (auto simp: on_processor_def at_control_def split: control.splits)
    from exec_invariant.round_post[OF requests_invariant[OF signal_env_alone(1)] this c]
    have "at_control ?M ?F c' st'" using assms(1) by simp
    then show ?thesis using q False by (auto simp: on_processor_def at_control_def tracked_def split: control.splits)
  qed
  then show "on_processor code c' st'" "same_process (img st) (img st')" "quantum (sh st') = quantum (sh st)" "ALG (sh st') = ALG (sh st)"
    "if ioBlockInterrupt st then sh st' = sh st \<and> ioBlockInterrupt st' else requests self (sh st) st'" by blast+
qed

section \<open>The other threads meanwhile\<close>

text \<open>The running process, unless it waits for the device already, counts as one whose request is served.\<close>

definition hold :: "addr \<Rightarrow> system \<Rightarrow> system" where
  "hold p s = s\<lparr>io_running := \<lparr>io_image = p, ioTime = 0, flagNonBlocking = False\<rparr> # io_running s\<rparr>"

definition held :: "dispatched \<Rightarrow> system \<Rightarrow> system" where
  "held r s = (if ioBlockInterrupt (cpu_locals r) then s else hold (cpu_addr r) s)"

lemma hold_parts [simp]:
  "sts (hold p s) = sts s" "shd (hold p s) = shd s" "images (hold p s) = images s" "next_addr (hold p s) = next_addr s"
  "LFIFO (hold p s) = LFIFO s" "LFIFO_empty (hold p s) = LFIFO_empty s" "LPS (hold p s) = LPS s"
  "MMP_sem (hold p s) = MMP_sem s" "MPS_sem (hold p s) = MPS_sem s" "procer (hold p s) = procer s"
  "ltsnew_claimed (hold p s) = ltsnew_claimed s" "next_pid (hold p s) = next_pid s" "TANT (hold p s) = TANT s" 
  "outbox (hold p s) = outbox s"
  "io_running (hold p s) = \<lparr>io_image = p, ioTime = 0, flagNonBlocking = False\<rparr> # io_running s"
  by (simp_all add: hold_def)

lemma PROCER_run_procer: "PROCER_run rnd n env s = Inr s' \<Longrightarrow> procer s' = Idle"
  by (auto simp: PROCER_run_def PROCER_after_def Let_def res_simps split: option.splits prod.splits if_splits)

lemma hold_sts: "hold p (s\<lparr>sts := a\<rparr>) = (hold p s)\<lparr>sts := a\<rparr>"
  by (simp add: hold_def)

lemma held_handlers:
  "LTSconex_new fd t script prio (hold p s) = hold p (LTSconex_new fd t script prio s)"
  "LTSconex_resume fd dataIn (hold p s) = bindE (LTSconex_resume fd dataIn s) (\<lambda>s'. Inr (hold p s'))"
  "LTSconex_out fd (hold p s) = bindE (LTSconex_out fd s) (\<lambda>s'. Inr (hold p s'))"
  "LTSnew_claim (hold p s) = map_option (hold p) (LTSnew_claim s)"
  "LTSnew_move (hold p s) = bindE (LTSnew_move s) (\<lambda>s'. Inr (hold p s'))"
  "ioThread_start (hold p s) = bindE (ioThread_start s) (\<lambda>s'. Inr (hold p s'))"
  "ioThread_finish (Suc i) (hold p s) = bindE (ioThread_finish i s) (\<lambda>s'. Inr (hold p s'))"
  "fst (signal_handler m sig (hold p s)) = hold p (fst (signal_handler m sig s))"
proof -
  show "LTSconex_new fd t script prio (hold p s) = hold p (LTSconex_new fd t script prio s)"
    by (simp add: LTSconex_new_def Let_def write_client_def hold_def)
  show "LTSconex_resume fd dataIn (hold p s) = bindE (LTSconex_resume fd dataIn s) (\<lambda>s'. Inr (hold p s'))"
    by (cases "restoreSuspended (images s) (LPS s) fd")
      (auto simp: LTSconex_resume_def Let_def hold_def split: option.split)
  show "LTSconex_out fd (hold p s) = bindE (LTSconex_out fd s) (\<lambda>s'. Inr (hold p s'))"
    by (cases "list_fd_msg_get (sendingList (shd s)) fd")
      (auto simp: LTSconex_out_def Let_def hold_def write_client_def split: option.split)
  show "LTSnew_claim (hold p s) = map_option (hold p) (LTSnew_claim s)" by (simp add: LTSnew_claim_def hold_def)
  show "LTSnew_move (hold p s) = bindE (LTSnew_move s) (\<lambda>s'. Inr (hold p s'))"
    by (cases "LFIFO s") (simp_all add: LTSnew_move_def hold_def load_img_def split: option.split)
  show "ioThread_start (hold p s) = bindE (ioThread_start s) (\<lambda>s'. Inr (hold p s'))"
    by (cases "LPB (shd s)") (simp_all add: ioThread_start_def hold_def load_img_def split: option.split)
  show "ioThread_finish (Suc i) (hold p s) = bindE (ioThread_finish i s) (\<lambda>s'. Inr (hold p s'))"
    by (cases "i < length (io_running s)")
      (auto simp: ioThread_finish_def arr_get_def hold_def Let_def load_img_def split: option.split)
  show "fst (signal_handler m sig (hold p s)) = hold p (fst (signal_handler m sig s))"
    by (cases sig) (simp_all add: signal_handler_def hold_def)
qed

lemma hold_sys_step:
  assumes "sys_step rnd s s'" and "procer s' = procer s"
  shows "sys_step rnd (hold p s) (hold p s')"
  using assms(1)
proof (cases rule: sys_step.cases)
  case (new_script fd t script prio)
  then show ?thesis using sys_step.new_script[of rnd "hold p s" fd t script prio] by (simp add: held_handlers)
next
  case (message fd dataIn)
  then show ?thesis using sys_step.message[of fd dataIn "hold p s"] by (simp add: held_handlers)
next
  case (flush fd)
  then show ?thesis using sys_step.flush[of fd "hold p s"] by (simp add: held_handlers)
next
  case admit_wait
  then show ?thesis using sys_step.admit_wait[of "hold p s"] by (simp add: held_handlers)
next
  case admit
  then show ?thesis using sys_step.admit[of "hold p s"] by (simp add: held_handlers)
next
  case (take_one c a)
  then show ?thesis using sys_step.take_one[of "hold p s" c a rnd] by (simp add: hold_sts)
next
  case (sort_all n a)
  then show ?thesis using sys_step.sort_all[of "hold p s" n a rnd] by (simp add: hold_sts)
next
  case claim
  then show ?thesis using assms(2) by (auto simp: PROCER_claim_def split: if_splits)
next
  case (run env n)
  then show ?thesis using assms(2) PROCER_run_procer[OF run(3)] by simp
next
  case io_start
  then show ?thesis using sys_step.io_start[of "hold p s"] by (simp add: held_handlers)
next
  case (io_finish i)
  then show ?thesis using sys_step.io_finish[of "Suc i" "hold p s"] by (simp add: held_handlers)
next
  case (signal m sig)
  then show ?thesis using sys_step.signal[of rnd "hold p s" m sig] by (simp add: held_handlers)
qed

lemma held_reloads:
  "reload_ALG n config (hold p s) = bindE (reload_ALG n config s) (\<lambda>s'. Inr (hold p s'))"
  "reload_priorities n config (hold p s) = bindE (reload_priorities n config s) (\<lambda>s'. Inr (hold p s'))"
  "reload_time config (hold p s) = bindE (reload_time config s) (\<lambda>s'. Inr (hold p s'))"
proof -
  show "reload_ALG n config (hold p s) = bindE (reload_ALG n config s) (\<lambda>s'. Inr (hold p s'))"
    by (cases "config_get_string_value config ''ALG''"; cases "apply_ALG n (images s) (the (config_get_string_value config ''ALG'')) (sts s)")
      (simp_all add: reload_ALG_def hold_def)
  show "reload_priorities n config (hold p s) = bindE (reload_priorities n config s) (\<lambda>s'. Inr (hold p s'))"
    by (cases "bindE (read_priorities config (queuesArray (sts s))) (reorderQueuesArrayPriority n)"; cases "read_priorities config (queuesArray (sts s))")
      (simp_all add: reload_priorities_def hold_sts)
  show "reload_time config (hold p s) = bindE (reload_time config s) (\<lambda>s'. Inr (hold p s'))"
    by (cases "config_get_int_value config ''SENT_TIME''") (simp_all add: reload_time_def hold_def)
qed

lemma hold_step:
  assumes "live_step rnd s s'" and "procer s' = procer s"
  shows "live_step rnd (hold p s) (hold p s')"
  using assms(1)
proof (cases rule: live_step.cases)
  case other
  then show ?thesis using hold_sys_step assms(2) by (blast intro: live_step.other)
next
  case (algorithm n config)
  then show ?thesis using live_step.algorithm[of n config "hold p s"] by (simp add: held_reloads)
next
  case (priorities n config)
  then show ?thesis using live_step.priorities[of n config "hold p s"] by (simp add: held_reloads)
next
  case (time config)
  then show ?thesis using live_step.time[of config "hold p s"] by (simp add: held_reloads)
qed

lemma held_step: "live_step rnd s s' \<Longrightarrow> procer s' = procer s \<Longrightarrow> live_step rnd (held r s) (held r s')"
  by (simp add: held_def hold_step)

text \<open>What another thread leaves alone.\<close>

definition kept :: "system \<Rightarrow> system \<Rightarrow> bool" where
  "kept s s' \<longleftrightarrow> quantum (shd s') = quantum (shd s) \<and> (SUSPEND (shd s) \<longrightarrow> SUSPEND (shd s'))
     \<and> (images s' = images s \<or> (\<exists>i. images s' = (images s)(next_addr s \<mapsto> i)))"

lemma other_sys_keeps:
  assumes "sys_step rnd s s'" and "procer s' = procer s"
  shows "kept s s'"
  using assms(1)
proof (cases rule: sys_step.cases)
  case (new_script fd t script prio)
  then show ?thesis
    by (auto simp: kept_def LTSconex_new_def Let_def write_client_def)
next
  case (message fd dataIn)
  then show ?thesis by (cases rule: resume_cases) (simp_all add: kept_def)
next
  case (flush fd)
  then show ?thesis by (cases rule: LTSconex_out_cases) (simp_all add: kept_def)
next
  case admit_wait
  then show ?thesis by (auto simp: kept_def LTSnew_claim_def split: if_splits)
next
  case admit
  from admit(3) show ?thesis by (rule move_new_eq) (simp add: kept_def)
next
  case claim
  then show ?thesis using assms(2) by (auto simp: PROCER_claim_def split: if_splits)
next
  case (run env n)
  then show ?thesis using assms(2) PROCER_run_procer[OF run(3)] by simp
next
  case io_start
  from io_start(3) show ?thesis by (rule io_start_eq) (simp add: kept_def)
next
  case (io_finish i)
  then show ?thesis by (rule io_finish_eq) (simp add: kept_def)
next
  case (signal m sig)
  then show ?thesis by (cases sig) (simp_all add: kept_def signal_handler_def)
qed (simp_all add: kept_def)

lemma other_keeps:
  assumes "live_step rnd s s'" and "procer s' = procer s"
  shows "kept s s'"
  using assms(1)
proof (cases rule: live_step.cases)
  case other
  then show ?thesis using other_sys_keeps assms(2) by blast
next
  case algorithm
  then show ?thesis by (rule reload_eqs) (simp add: kept_def)
next
  case priorities
  then show ?thesis by (rule priorities_eq) (simp add: kept_def)
next
  case time
  then show ?thesis by (rule time_eq) (simp add: kept_def)
qed

section \<open>The invariant\<close>

definition fine_ok :: "system \<times> dispatched option \<Rightarrow> bool" where
  "fine_ok f \<longleftrightarrow> (case f of
       (s, None) \<Rightarrow> order_ok s
     | (s, Some r) \<Rightarrow> procer s = Idle \<and> order_ok (held r s) \<and> (case images s (cpu_addr r) of None \<Rightarrow> False
         | Some i \<Rightarrow> codeSegmentCreator (piCode i) = Inr (cpu_code r) \<and> on_processor (cpu_code r) (cpu_control r) (seen r i s)))"

lemma fine_okE:
  assumes "fine_ok (s, Some r)"
  obtains i where "procer s = Idle" "order_ok (held r s)" "images s (cpu_addr r) = Some i"
    "codeSegmentCreator (piCode i) = Inr (cpu_code r)" "on_processor (cpu_code r) (cpu_control r) (seen r i s)"
  using assms by (auto simp: fine_ok_def split: option.splits)

lemma seen_parts [simp]:
  "img (seen r i s) = i" "sh (seen r i s) = shd s" "ioBlockInterrupt (seen r i s) = ioBlockInterrupt (cpu_locals r)"
  "quantumCount (seen r i s) = quantumCount (cpu_locals r)"
  by (simp_all add: seen_def)

lemma held_parts [simp]:
  "sts (held r s) = sts s" "shd (held r s) = shd s" "images (held r s) = images s" "next_addr (held r s) = next_addr s"
  "LFIFO (held r s) = LFIFO s" "LFIFO_empty (held r s) = LFIFO_empty s" "LPS (held r s) = LPS s"
  "procer (held r s) = procer s" "ltsnew_claimed (held r s) = ltsnew_claimed s"
  by (simp_all add: held_def)

lemma on_processor_parked: "on_processor code c st \<Longrightarrow> parked (img st) code"
  by (auto simp: on_processor_def parked_def off_end_def split: control.splits)

lemma seen_kept:
  assumes "kept s s'" and "on_processor code c (seen r i s)"
  shows "on_processor code c (seen r i s')"
  using assms
  by (auto simp: on_processor_def kept_def within_quantum_def off_end_def exited_def running_def split: control.splits sum.splits)

lemma other_fine_ok:
  assumes "live_step rnd s s'" and "procer s' = procer s" and "strSwitch (ALG (shd s')) \<in> {1, 2}" and "fine_ok (s, cpu)"
  shows "fine_ok (s', cpu)"
proof (cases cpu)
  case None
  then show ?thesis using assms tame_ok[of rnd s s'] by (simp add: fine_ok_def tame_step_def)
next
  case (Some r)
  from assms(4)[unfolded Some] show ?thesis
  proof (rule fine_okE)
    fix i
    assume i: "procer s = Idle" "order_ok (held r s)" "images s (cpu_addr r) = Some i"
      "codeSegmentCreator (piCode i) = Inr (cpu_code r)" "on_processor (cpu_code r) (cpu_control r) (seen r i s)"
    note k = other_keeps[OF assms(1,2)]
    have "order_ok (held r s')" using i(2) held_step[OF assms(1,2)] assms(3) tame_ok[of rnd "held r s" "held r s'"] by (simp add: tame_step_def)
    moreover have "cpu_addr r \<noteq> next_addr s" using i(2,3) by (auto simp: order_ok_def owns_def)
    then have "images s' (cpu_addr r) = Some i" using k i(3) by (auto simp: kept_def)
    ultimately show ?thesis using i seen_kept[OF k i(5)] assms(2) by (simp add: fine_ok_def Some)
  qed
qed

lemma start_effect:
  assumes "exec_start st = Inr (c, st')" and "on_processor code InMain st"
  shows "on_processor code c st'" "\<exists>k. st' = set_stack k st" "c \<noteq> Finished"
proof -
  have "on_processor code c st' \<and> (\<exists>k. st' = set_stack k st) \<and> c \<noteq> Finished"
  proof (cases "piStack (img st)" rule: rev_cases)
    case Nil
    then show ?thesis using assms by (auto simp: exec_start_def intro: exI[of _ "[]"])
  next
    case (snoc k e)
    then show ?thesis using assms by (auto simp: exec_start_def resume_snoc on_processor_def within_quantum_def)
  qed
  then show "on_processor code c st'" "\<exists>k. st' = set_stack k st" "c \<noteq> Finished" by blast+
qed

lemma PROCER_dispatch_cases:
  assumes "PROCER_dispatch s = Inr (s', r)"
  obtains p q i code c st where "LPL (sts s) = p # q" "images s p = Some i" "codeSegmentCreator (piCode i) = Inr code"
    "exec_start (dispatch_state i (shd s)) = Inr (c, st)" "s' = put_back p st (s\<lparr>procer := Idle, sts := (sts s)\<lparr>LPL := q\<rparr>\<rparr>)"
    "r = \<lparr>cpu_addr = p, cpu_code = code, cpu_control = c, cpu_locals = st\<rparr>"
  using assms
  by (cases "LPL (sts s)") (auto simp: PROCER_dispatch_def load_img_def res_simps split: option.splits)

lemma dispatch_fine_ok:
  assumes ok: "order_ok s" and "procer s = Claimed" and "PROCER_dispatch s = Inr (s', r)"
  shows "fine_ok (s', Some r)"
  using assms(3)
proof (rule PROCER_dispatch_cases)
  fix p q i code c st
  assume lpl: "LPL (sts s) = p # q" and i: "images s p = Some i" and code: "codeSegmentCreator (piCode i) = Inr code"
    and start: "exec_start (dispatch_state i (shd s)) = Inr (c, st)"
    and s': "s' = put_back p st (s\<lparr>procer := Idle, sts := (sts s)\<lparr>LPL := q\<rparr>\<rparr>)"
    and r: "r = \<lparr>cpu_addr = p, cpu_code = code, cpu_control = c, cpu_locals = st\<rparr>"
  have s: "owns s" "sems s" "in_order s" using ok by (simp_all add: order_ok_def)
  have "on_processor code InMain (dispatch_state i (shd s))"
    using s(3) i code by (auto simp: on_processor_def within_quantum_def off_end_def in_order_def parked_def dispatch_state_def)
  note st = start_effect[OF start this]
  from st(2) have same: "piCode (img st) = piCode i" "ioBlockInterrupt st = False" "sh st = (shd s)\<lparr>SUSPEND := False\<rparr>"
    by (auto simp: dispatch_state_def)
  have "in_order (held r s')"
  proof (rule in_order_update[OF s(3) i same(1)])
    show "parked (img st) code'" if "codeSegmentCreator (piCode i) = Inr code'" for code'
      using that code on_processor_parked[OF st(1)] by simp
  qed (simp_all add: s' put_back_def same)
  moreover have "sems (held r s')"
    using s(2) sts_LPL(2)[OF _ lpl] assms(2) by (simp add: sems_def s' put_back_def same)
  moreover have "owns (held r s')"
    using i by (intro owns_keep[OF s(1)]) (auto simp: held_def r placed_def s' put_back_def same sts_LPL(1)[OF lpl])
  moreover have "on_processor code c (seen r (img st) s')"
    using st(1) by (auto simp: on_processor_def within_quantum_def off_end_def exited_def running_def s' put_back_def r
        split: control.splits sum.splits)
  ultimately show ?thesis by (simp add: fine_ok_def order_ok_def s' put_back_def r code same)
qed

lemma PROCER_round_cases:
  assumes "PROCER_round r s = Inr (s', r')"
  obtains i c st where "images s (cpu_addr r) = Some i"
    "exec_round (cpu_code r) (cpu_addr r) (cpu_control r) (seen r i s) = Inr (c, st)"
    "s' = put_back (cpu_addr r) st s" "r' = r\<lparr>cpu_control := c, cpu_locals := st\<rparr>"
  using assms by (auto simp: PROCER_round_def load_img_def res_simps split: option.splits)

lemma sentence_fine_ok:
  assumes ok: "fine_ok (s, Some r)" and "cpu_control r \<noteq> Finished" and "PROCER_round r s = Inr (s', r')"
  shows "fine_ok (s', Some r')"
  using ok
proof (rule fine_okE)
  fix i
  assume i: "procer s = Idle" "order_ok (held r s)" "images s (cpu_addr r) = Some i"
    "codeSegmentCreator (piCode i) = Inr (cpu_code r)" "on_processor (cpu_code r) (cpu_control r) (seen r i s)"
  obtain c st where round: "exec_round (cpu_code r) (cpu_addr r) (cpu_control r) (seen r i s) = Inr (c, st)"
    and s': "s' = put_back (cpu_addr r) st s" and r': "r' = r\<lparr>cpu_control := c, cpu_locals := st\<rparr>"
    using assms(3) i(3) by (auto elim: PROCER_round_cases)
  note st = round_effect[OF round i(5) assms(2)]
  have code: "piCode (img st) = piCode i" using st(2) by (simp add: same_process_def)
  have s: "owns (held r s)" "sems (held r s)" "in_order (held r s)" using i(2) by (simp_all add: order_ok_def)
  have io: "mset (blocked (LPB (sh st)) @ blocked (io_running (held r' s'))) = mset (blocked (LPB (shd s)) @ blocked (io_running (held r s)))
      \<and> (LPB_empty (shd s) = length (LPB (shd s)) \<longrightarrow> LPB_empty (sh st) = length (LPB (sh st)))"
  proof (cases "ioBlockInterrupt (cpu_locals r)")
    case True
    then show ?thesis using st(5) by (simp add: held_def r' s' put_back_def)
  next
    case False
    with st(5) obtain new where new: "LPB (sh st) = LPB (shd s) @ new" "LPB_empty (sh st) = LPB_empty (shd s) + length new"
        "\<forall>x \<in> set new. io_image x = cpu_addr r" "length (blocking new) = (if ioBlockInterrupt st then 1 else 0)"
      by (auto simp: requests_def)
    then have "blocked new = (if ioBlockInterrupt st then [cpu_addr r] else [])"
      by (auto simp: length_Suc_conv blocking_def filter_eq_Cons_iff)
    then show ?thesis using False new by (simp add: held_def r' s' put_back_def)
  qed
  have "in_order (held r' s')"
  proof (rule in_order_update[OF s(3)])
    show "images (held r s) (cpu_addr r) = Some i" using i(3) by simp
    show "parked (img st) code'" if "codeSegmentCreator (piCode i) = Inr code'" for code'
      using that i(4) on_processor_parked[OF st(1)] by simp
  qed (use st(3,4) in \<open>simp_all add: code s' put_back_def\<close>)
  moreover have "sems (held r' s')" using s(2) io by (simp add: sems_def s' put_back_def)
  moreover have "owns (held r' s')"
    using i(3) conjunct1[OF io] by (intro owns_keep[OF s(1)]) (auto simp: placed_def s' put_back_def)
  moreover have "on_processor (cpu_code r) c (seen r' (img st) s')"
    using st(1) by (auto simp: on_processor_def within_quantum_def off_end_def exited_def running_def s' put_back_def r'
        split: control.splits sum.splits)
  ultimately show ?thesis using i by (simp add: fine_ok_def order_ok_def s' put_back_def r' code)
qed

lemma leave_fine_ok:
  assumes ok: "fine_ok (s, Some r)" and "cpu_control r = Finished" and "PROCER_finish rnd r s = Inr s'"
  shows "fine_ok (s', None)"
  using ok
proof (rule fine_okE)
  fix i
  assume i: "procer s = Idle" "order_ok (held r s)" "images s (cpu_addr r) = Some i"
    "codeSegmentCreator (piCode i) = Inr (cpu_code r)" "on_processor (cpu_code r) (cpu_control r) (seen r i s)"
  define p where "p = cpu_addr r"
  define i' where "i' = i\<lparr>Tspn := next_Tspn rnd (ALFA s) (Tspn i) (rafaga (cpu_locals r))\<rparr>"
  have after: "PROCER_after (cpu_code r) p i' (seen r i s) s = Inr s'"
    using assms(3) i(3) by (simp add: PROCER_finish_def load_img_def i'_def p_def)
  have s: "owns (held r s)" "sems (held r s)" "in_order (held r s)" using i(2) by (simp_all add: order_ok_def)
  have dom: "insert p (dom (images s)) = dom (images s)" using i(3) by (auto simp: p_def)
  have st: "exited (cpu_code r) (seen r i s)" "ioBlockInterrupt (seen r i s) \<longrightarrow> off_end (cpu_code r) (seen r i s)"
      "quantumCount (seen r i s) \<le> quantum (sh (seen r i s))" "piPC i' = piPC (img (seen r i s))"
    using i(5) assms(2) by (simp_all add: on_processor_def within_quantum_def i'_def)
  have in_order: "in_order s'" if "images s' = (images s)(p := None) \<or> images s' = (images s)(p \<mapsto> i')"
      "ALG (shd s') = ALG (shd s)" "quantum (shd s') = quantum (shd s)"
  proof (rule in_order_update[OF s(3)])
    show "images (held r s) p = Some i" "piCode i' = piCode i" using i(3) by (simp_all add: p_def i'_def)
    show "parked i' code'" if "codeSegmentCreator (piCode i) = Inr code'" for code'
      using that i(4) on_processor_parked[OF i(5)] by (simp add: parked_def i'_def)
  qed (use that in simp_all)
  show ?thesis
    using after st(4,1,2,3)
  proof (cases rule: PROCER_after_cases)
    case (ended ms b)
    then have "owns s'" by (intro owns_remove[OF s(1)]) (auto simp: placed_def held_def p_def)
    then show ?thesis using in_order s(2) ended by (simp add: fine_ok_def order_ok_def sems_def)
  next
    case (waits ms b)
    then have "owns s'" by (intro owns_keep[OF s(1)]) (simp_all add: placed_def held_def dom)
    then show ?thesis using in_order s(2) waits by (simp add: fine_ok_def order_ok_def sems_def)
  next
    case (suspended ms b)
    then have "owns s'" by (intro owns_keep[OF s(1)]) (simp_all add: placed_def held_def dom p_def[symmetric])
    then show ?thesis using in_order s(2) suspended by (simp add: fine_ok_def order_ok_def sems_def)
  next
    case preempted
    then have "owns s'" by (intro owns_keep[OF s(1)]) (simp_all add: placed_def held_def dom enqueue_processes p_def[symmetric])
    then show ?thesis using in_order s(2) preempted by (simp add: fine_ok_def order_ok_def sems_def enqueue_sems i(1))
  qed
qed

lemma fine_step_ok: "fine_step rnd f f' \<Longrightarrow> strSwitch (ALG (shd (fst f'))) \<in> {1, 2} \<Longrightarrow> fine_ok f \<Longrightarrow> fine_ok f'"
proof (induction rule: fine_step.induct)
  case (other s s' cpu)
  then show ?case using other_fine_ok by simp
next
  case (claims s s')
  then show ?case using claim_ok by (simp add: fine_ok_def)
next
  case (dispatch s s' r)
  then show ?case using dispatch_fine_ok by (simp add: fine_ok_def)
qed (auto intro: sentence_fine_ok leave_fine_ok)

end
