(* ===== verification/PP_Serial.thy ===== *)
theory PP_Serial
  imports C_Strings
begin

text \<open>
  The messages between client and server: \<open>defSerialization.c\<close>, the stream functions and the
  handshake of \<open>server_defs.c\<close> and \<open>client_defs.c\<close>. A message is its type and the buffer its data
  pointer leads to; on the wire it is the type, the total length in 16 bits, an optional priority,
  and the data with its closing NUL, little endian and packed.

  A socket is the bytes still to be received, and for every call of \<open>recv\<close> what the kernel has at
  that time: a number of bytes, an orderly end, or an error; likewise how much each \<open>send\<close> accepts.
  When these run out the call blocks for ever.
\<close>

section \<open>Numbers as bytes\<close>

fun le_bytes :: "nat \<Rightarrow> nat \<Rightarrow> string" where
  "le_bytes 0 n = []"
| "le_bytes (Suc k) n = char_of (n mod 256) # le_bytes k (n div 256)"

fun le_val :: "string \<Rightarrow> nat" where
  "le_val [] = 0"
| "le_val (c # cs) = ord_of c + 256 * le_val cs"

lemma length_le_bytes [simp]: "length (le_bytes k n) = k"
  by (induction k n rule: le_bytes.induct) auto

lemma le_val_bytes: "n < 256 ^ k \<Longrightarrow> le_val (le_bytes k n) = n"
proof (induction k n rule: le_bytes.induct)
  case (2 k n)
  then have "n div 256 < 256 ^ k" by (simp add: less_mult_imp_div_less mult.commute)
  then show ?case using 2 by simp
qed simp

definition bytes_u16 :: "u16 \<Rightarrow> string" where
  "bytes_u16 w = le_bytes 2 (unat w)"

definition u16_of_bytes :: "string \<Rightarrow> u16" where
  "u16_of_bytes b = of_nat (le_val b)"

definition bytes_s32 :: "s32 \<Rightarrow> string" where
  "bytes_s32 w = le_bytes 4 (unat w)"

definition s32_of_bytes :: "string \<Rightarrow> s32" where
  "s32_of_bytes b = of_nat (le_val b)"

lemma u16_round_trip [simp]: "u16_of_bytes (bytes_u16 w) = w"
proof -
  have "unat w < 256 ^ 2" by (rule order_less_le_trans[OF unsigned_less]) simp
  then show ?thesis unfolding u16_of_bytes_def bytes_u16_def by (simp only: le_val_bytes) simp
qed

lemma s32_round_trip [simp]: "s32_of_bytes (bytes_s32 w) = w"
proof -
  have "unat w < 256 ^ 4" by (rule order_less_le_trans[OF unsigned_less]) simp
  then show ?thesis unfolding s32_of_bytes_def bytes_s32_def by (simp only: le_val_bytes) simp
qed

lemma length_bytes [simp]: "length (bytes_u16 w) = 2" "length (bytes_s32 w') = 4"
  by (simp_all add: bytes_u16_def bytes_s32_def)

section \<open>Serialization\<close>

record t_data_stream =
  ds_type :: char
  ds_data :: "char list"

record t_stream =
  st_length :: u16
  st_data :: "char list"

definition strlen :: "char list \<Rightarrow> nat res" where
  "strlen s = scan (\<lambda>c. c = NUL) s"

text \<open>
  The buffer has \<open>length\<close> bytes, a 16-bit number; what is copied into it is \<open>head\<close> and the data with
  its NUL. The copies run in order over the buffer, so they stay inside it if their sum does.
\<close>

definition fill_buffer :: "u16 \<Rightarrow> string \<Rightarrow> t_stream res" where
  "fill_buffer len copied =
     (if length copied \<le> unat len then Inr \<lparr>st_length = of_nat (length copied), st_data = copied\<rparr>
      else Inl UB)"

definition serialization :: "t_data_stream \<Rightarrow> t_stream res" where
  "serialization datos =
     bindE (strlen (ds_data datos)) (\<lambda>n.
     let len = of_nat (1 + 2 + n + 1)
     in fill_buffer len ([ds_type datos] @ bytes_u16 len @ take (n + 1) (ds_data datos)))"

definition serializationPri :: "t_data_stream \<Rightarrow> s32 \<Rightarrow> t_stream res" where
  "serializationPri datos prio =
     bindE (strlen (ds_data datos)) (\<lambda>n.
     let len = of_nat (1 + 2 + 4 + n + 1)
     in fill_buffer len ([ds_type datos] @ bytes_u16 len @ bytes_s32 prio @ take (n + 1) (ds_data datos)))"

text \<open>\<open>memcpy\<close> out of a buffer: reading beyond its end is undefined.\<close>

definition copy_from :: "char list \<Rightarrow> nat \<Rightarrow> nat \<Rightarrow> char list res" where
  "copy_from stream offset n = (if offset + n \<le> length stream then Inr (take n (drop offset stream)) else Inl UB)"

definition deserialization :: "char list \<Rightarrow> t_data_stream res" where
  "deserialization stream =
     bindE (copy_from stream 0 1) (\<lambda>t.
     bindE (copy_from stream 1 2) (\<lambda>l.
     let len = u16_of_bytes l - 1 - 2
     in bindE (copy_from stream 3 (unat len)) (\<lambda>d. Inr \<lparr>ds_type = hd t, ds_data = d\<rparr>)))"

definition deserializationPri :: "char list \<Rightarrow> (t_data_stream \<times> s32) res" where
  "deserializationPri stream =
     bindE (copy_from stream 0 1) (\<lambda>t.
     bindE (copy_from stream 1 2) (\<lambda>l.
     bindE (copy_from stream 3 4) (\<lambda>p.
     let len = u16_of_bytes l - 1 - 2 - 4
     in bindE (copy_from stream 7 (unat len)) (\<lambda>d.
        Inr (\<lparr>ds_type = hd t, ds_data = d\<rparr>, s32_of_bytes p)))))"

section \<open>Sockets\<close>

datatype arrival = Avail nat | Closed | Failed

datatype acceptance = Accept nat | Refuse

record sock =
  rx :: "char list"
  arrivals :: "arrival list"
  tx :: "char list"
  acceptances :: "acceptance list"

text \<open>\<open>None\<close> is the result -1, an empty list the result 0. A peek leaves the bytes where they are.\<close>

definition recv :: "bool \<Rightarrow> nat \<Rightarrow> sock \<Rightarrow> (char list option \<times> sock) res" where
  "recv peek n s =
     (case arrivals s of
        [] \<Rightarrow> Inl NoReturn
      | Failed # as \<Rightarrow> Inr (None, s\<lparr>arrivals := as\<rparr>)
      | Closed # as \<Rightarrow> Inr (Some [], s\<lparr>arrivals := as\<rparr>)
      | Avail k # as \<Rightarrow> let m = min n k
          in Inr (Some (take m (rx s)), s\<lparr>arrivals := as, rx := (if peek then rx s else drop m (rx s))\<rparr>))"

definition send :: "char list \<Rightarrow> sock \<Rightarrow> (nat option \<times> sock) res" where
  "send d s =
     (case acceptances s of
        [] \<Rightarrow> Inl NoReturn
      | Refuse # as \<Rightarrow> Inr (None, s\<lparr>acceptances := as\<rparr>)
      | Accept k # as \<Rightarrow> let m = min k (length d)
          in Inr (Some m, s\<lparr>acceptances := as, tx := tx s @ take m d\<rparr>))"

text \<open>
  The two functions that read a message differ in the last step only. With fewer than the 3 bytes of
  the header the length is not initialised, with fewer bytes than the length the rest of the buffer
  is not. \<open>None\<close> is the result \<open>ERROR\<close>.
\<close>

definition read_message :: "(char list \<Rightarrow> 'm res) \<Rightarrow> sock \<Rightarrow> ('m option \<times> sock) res" where
  "read_message decode s =
     bindE (recv True 3 s) (\<lambda>(header, s1).
       case header of None \<Rightarrow> Inr (None, s1) | Some h \<Rightarrow>
       if h = [] then Inr (None, s1)
       else if length h < 3 then Inl UB
       else let len = unat (u16_of_bytes (drop 1 h)) in
         bindE (recv False len s1) (\<lambda>(stream_in, s2).
           case stream_in of None \<Rightarrow> Inr (None, s2) | Some b \<Rightarrow>
           if b = [] then Inr (None, s2)
           else if length b < len then Inl UB
           else bindE (decode b) (\<lambda>m. Inr (Some m, s2))))"

definition readStream :: "sock \<Rightarrow> (t_data_stream option \<times> sock) res" where
  "readStream = read_message deserialization"

definition readStreamPri :: "sock \<Rightarrow> ((t_data_stream \<times> s32) option \<times> sock) res" where
  "readStreamPri = read_message deserializationPri"

definition send_stream :: "t_stream \<Rightarrow> sock \<Rightarrow> (bool \<times> sock) res" where
  "send_stream stream s =
     bindE (send (take (unat (st_length stream)) (st_data stream)) s) (\<lambda>(r, s').
       case r of None \<Rightarrow> Inr (False, s') | Some n \<Rightarrow> Inr (0 < n, s'))"

definition writeStream :: "t_data_stream \<Rightarrow> sock \<Rightarrow> (bool \<times> sock) res" where
  "writeStream d s = bindE (serialization d) (\<lambda>stream. send_stream stream s)"

definition writeStreamPri :: "t_data_stream \<Rightarrow> s32 \<Rightarrow> sock \<Rightarrow> (bool \<times> sock) res" where
  "writeStreamPri d prio s = bindE (serializationPri d prio) (\<lambda>stream. send_stream stream s)"

text \<open>The handshakes; a connection that is closed leaves \<open>code\<close> uninitialised.\<close>

definition makeHandshake :: "sock \<Rightarrow> (bool \<times> sock) res" where
  "makeHandshake s =
     bindE (recv False 1 s) (\<lambda>(r, s1).
       case r of
         None \<Rightarrow> Inr (False, s1)
       | Some [] \<Rightarrow> Inl UB
       | Some (code # _) \<Rightarrow>
           if code \<noteq> CHR ''#'' then Inr (False, s1)
           else bindE (send ''!'' s1) (\<lambda>(r', s2). Inr (r' \<noteq> None, s2)))"

definition client_makeHandshake :: "sock \<Rightarrow> (bool \<times> sock) res" where
  "client_makeHandshake s =
     bindE (send ''#'' s) (\<lambda>(r, s1).
       if r = None then Inr (False, s1)
       else bindE (recv False 1 s1) (\<lambda>(r', s2).
         case r' of
           None \<Rightarrow> Inr (False, s2)
         | Some [] \<Rightarrow> Inr (False, s2)
         | Some (code # _) \<Rightarrow> Inr (code = CHR ''!'', s2)))"

section \<open>Round trips\<close>

text \<open>A message in order: its data ends with its first NUL.\<close>

definition text_message :: "t_data_stream \<Rightarrow> bool" where
  "text_message m \<longleftrightarrow> (\<exists>t. ds_data m = t @ [NUL] \<and> NUL \<notin> set t)"

lemma strlen_text: "NUL \<notin> set t \<Longrightarrow> strlen (t @ [NUL]) = Inr (length t)"
  by (induction t) (auto simp: strlen_def)

lemma unat_of_small: "n < 65536 \<Longrightarrow> unat (of_nat n :: u16) = n"
  by (simp add: unat_of_nat take_bit_nat_eq_self)

lemma copy_from_append:
  "length a = offset \<Longrightarrow> length b = n \<Longrightarrow> copy_from (a @ b @ c) offset n = Inr b"
  by (auto simp: copy_from_def)

lemma serialization_spec:
  assumes "ds_data m = t @ [NUL]" and "NUL \<notin> set t"
  shows "length t \<le> 65531 \<Longrightarrow> serialization m = Inr \<lparr>st_length = of_nat (length t + 4),
      st_data = [ds_type m] @ bytes_u16 (of_nat (length t + 4)) @ t @ [NUL]\<rparr>"
proof -
  have n: "strlen (ds_data m) = Inr (length t)" using assms by (simp add: strlen_text)
  have e: "(1 + 2 + length t + 1 :: nat) = length t + 4" by simp
  have tk: "take (length t + 1) (ds_data m) = t @ [NUL]" using assms by simp
  have len: "length ([ds_type m] @ bytes_u16 l @ t @ [NUL]) = length t + 4" for l by simp
  have ser: "serialization m = fill_buffer (of_nat (length t + 4))
      ([ds_type m] @ bytes_u16 (of_nat (length t + 4)) @ t @ [NUL])"
    unfolding serialization_def n bindE_Inr Let_def e tk ..
  show "serialization m = Inr \<lparr>st_length = of_nat (length t + 4),
      st_data = [ds_type m] @ bytes_u16 (of_nat (length t + 4)) @ t @ [NUL]\<rparr>" if "length t \<le> 65531"
    unfolding ser fill_buffer_def len using that by (subst unat_of_small) simp_all
qed

lemma serialization_overflow:
  assumes "ds_data m = t @ [NUL]" and "NUL \<notin> set t" and "65531 < length t"
  shows "serialization m = Inl UB"
proof -
  have n: "strlen (ds_data m) = Inr (length t)" using assms by (simp add: strlen_text)
  have "unat (of_nat (1 + 2 + length t + 1) :: u16) < 65536" using unsigned_less[of "of_nat (1 + 2 + length t + 1) :: u16"] by simp
  then show ?thesis using assms(1,3) unfolding serialization_def n by (simp add: fill_buffer_def)
qed

lemma serializationPri_spec:
  assumes "ds_data m = t @ [NUL]" and "NUL \<notin> set t" and "length t \<le> 65527"
  shows "serializationPri m prio = Inr \<lparr>st_length = of_nat (length t + 8),
      st_data = [ds_type m] @ bytes_u16 (of_nat (length t + 8)) @ bytes_s32 prio @ t @ [NUL]\<rparr>"
proof -
  have n: "strlen (ds_data m) = Inr (length t)" using assms by (simp add: strlen_text)
  have e: "(1 + 2 + 4 + length t + 1 :: nat) = length t + 8" by simp
  have tk: "take (length t + 1) (ds_data m) = t @ [NUL]" using assms by simp
  have len: "length ([ds_type m] @ bytes_u16 l @ bytes_s32 prio @ t @ [NUL]) = length t + 8" for l by simp
  show ?thesis
    unfolding serializationPri_def n bindE_Inr Let_def e tk fill_buffer_def len
    using assms(3) by (subst unat_of_small) simp_all
qed

lemma serializationPri_overflow:
  assumes "strlen (ds_data m) = Inr n" and "65527 < n"
  shows "serializationPri m prio = Inl UB"
proof -
  have n: "n < length (ds_data m)" using assms(1) by (auto simp: strlen_def dest: scan_InrD)
  have "unat (of_nat (1 + 2 + 4 + n + 1) :: u16) < 65536" using unsigned_less[of "of_nat (1 + 2 + 4 + n + 1) :: u16"] by simp
  then show ?thesis using assms(2) n unfolding serializationPri_def assms(1) by (simp add: fill_buffer_def)
qed

lemma word_minus: "k \<le> n \<Longrightarrow> n < 65536 \<Longrightarrow> unat (of_nat n - of_nat k :: u16) = n - k"
  by (simp add: unat_sub word_le_nat_alt unat_of_small)

lemma deserialization_message:
  assumes "length d + 3 < 65536"
  shows "deserialization ([c] @ bytes_u16 (of_nat (length d + 3)) @ d) = Inr \<lparr>ds_type = c, ds_data = d\<rparr>"
proof -
  let ?b = "[c] @ bytes_u16 (of_nat (length d + 3)) @ d"
  have 1: "copy_from ?b 0 1 = Inr [c]" using copy_from_append[of "[]" 0 "[c]" 1] by simp
  have 2: "copy_from ?b 1 2 = Inr (bytes_u16 (of_nat (length d + 3)))" by (rule copy_from_append) simp_all
  have "(of_nat (length d + 3) - 1 - 2 :: u16) = of_nat (length d + 3) - of_nat 3" by simp
  then have len: "unat (of_nat (length d + 3) - 1 - 2 :: u16) = length d"
    using word_minus[of 3 "length d + 3"] assms by (simp only:)
  have 3: "copy_from ?b 3 (length d) = Inr d"
    using copy_from_append[of "[c] @ bytes_u16 (of_nat (length d + 3))" 3 d "length d" "[]"] by simp
  show ?thesis
    unfolding deserialization_def 1 bindE_Inr 2 u16_round_trip Let_def len 3 by (rule refl | simp)
qed

lemma deserializationPri_message:
  assumes "length d + 7 < 65536"
  shows "deserializationPri ([c] @ bytes_u16 (of_nat (length d + 7)) @ bytes_s32 p @ d)
    = Inr (\<lparr>ds_type = c, ds_data = d\<rparr>, p)"
proof -
  let ?b = "[c] @ bytes_u16 (of_nat (length d + 7)) @ bytes_s32 p @ d"
  have 1: "copy_from ?b 0 1 = Inr [c]" using copy_from_append[of "[]" 0 "[c]" 1] by simp
  have 2: "copy_from ?b 1 2 = Inr (bytes_u16 (of_nat (length d + 7)))" by (rule copy_from_append) simp_all
  have 3: "copy_from ?b 3 4 = Inr (bytes_s32 p)"
    using copy_from_append[of "[c] @ bytes_u16 (of_nat (length d + 7))" 3 "bytes_s32 p" 4 d] by simp
  have "(of_nat (length d + 7) - 1 - 2 - 4 :: u16) = of_nat (length d + 7) - of_nat 7" by simp
  then have len: "unat (of_nat (length d + 7) - 1 - 2 - 4 :: u16) = length d"
    using word_minus[of 7 "length d + 7"] assms by (simp only:)
  have 4: "copy_from ?b 7 (length d) = Inr d"
    using copy_from_append[of "[c] @ bytes_u16 (of_nat (length d + 7)) @ bytes_s32 p" 7 d "length d" "[]"]
    by simp
  show ?thesis
    unfolding deserializationPri_def 1 bindE_Inr 2 3 u16_round_trip Let_def len 4 s32_round_trip by (rule refl | simp)
qed

section \<open>The interface of a message format\<close>

text \<open>
  What the stream functions need of a format: the encoded message is not empty, its bytes 1 and 2
  hold its length, and decoding gives it back. Then a receiver whose \<open>recv\<close> calls find whole
  messages reads exactly what was sent, message by message.
\<close>

locale message_format =
  fixes valid :: "'m \<Rightarrow> bool"
    and encode :: "'m \<Rightarrow> t_stream res"
    and decode :: "char list \<Rightarrow> 'm res"
  assumes encodes: "valid m \<Longrightarrow> \<exists>b. encode m = Inr b \<and> 3 \<le> length (st_data b) \<and> length (st_data b) < 65536
      \<and> st_length b = of_nat (length (st_data b))
      \<and> take 2 (drop 1 (st_data b)) = bytes_u16 (st_length b) \<and> decode (st_data b) = Inr m"
begin

lemma read_one:
  assumes "valid m" and "encode m = Inr b" and "rx s = st_data b @ later"
    and "arrivals s = Avail k1 # Avail k2 # as" and "3 \<le> k1" and "length (st_data b) \<le> k2"
  shows "read_message decode s = Inr (Some m, s\<lparr>rx := later, arrivals := as\<rparr>)"
proof -
  have b: "3 \<le> length (st_data b)" "length (st_data b) < 65536"
    "st_length b = of_nat (length (st_data b))" "take 2 (drop 1 (st_data b)) = bytes_u16 (st_length b)"
    "decode (st_data b) = Inr m"
    using encodes[OF assms(1)] assms(2) by auto
  have h: "take 3 (st_data b @ later) = take 3 (st_data b)" using b(1) by simp
  have hl: "length (take 3 (st_data b)) = 3" using b(1) by simp
  then have hn: "take 3 (st_data b) \<noteq> []" by (metis length_0_conv zero_neq_numeral)
  have "drop 1 (take 3 (st_data b)) = take 2 (drop 1 (st_data b))" by (simp add: drop_take)
  then have l: "unat (u16_of_bytes (drop 1 (take 3 (st_data b)))) = length (st_data b)"
    using b(2,3,4) by (simp add: unat_of_small)
  have r1: "recv True 3 s = Inr (Some (take 3 (st_data b)), s\<lparr>arrivals := Avail k2 # as\<rparr>)"
    using assms(3-5) h by (simp add: recv_def min_def)
  have r2: "recv False (length (st_data b)) (s\<lparr>arrivals := Avail k2 # as\<rparr>)
      = Inr (Some (st_data b), s\<lparr>rx := later, arrivals := as\<rparr>)"
    using assms(3,6) by (simp add: recv_def min_def)
  have ne: "st_data b \<noteq> []" using b(1) by auto
  show ?thesis
    unfolding read_message_def r1 bindE_Inr prod.case option.case Let_def l r2
    using hn hl ne b(5) by simp
qed

definition wire :: "'m list \<Rightarrow> char list" where
  "wire ms = concat (map (\<lambda>m. case encode m of Inl _ \<Rightarrow> [] | Inr b \<Rightarrow> st_data b) ms)"

lemma read_next:
  assumes "valid m" and "rx s = wire (m # ms) @ later" and "arrivals s = Avail 65535 # Avail 65535 # as"
  shows "read_message decode s = Inr (Some m, s\<lparr>rx := wire ms @ later, arrivals := as\<rparr>)"
proof -
  obtain b where b: "encode m = Inr b" "length (st_data b) < 65536" using encodes[OF assms(1)] by auto
  then show ?thesis using assms by (intro read_one[where ?k1.0 = 65535 and ?k2.0 = 65535]) (auto simp: wire_def)
qed

fun read_all :: "nat \<Rightarrow> sock \<Rightarrow> ('m list \<times> sock) res" where
  "read_all 0 s = Inr ([], s)"
| "read_all (Suc n) s = bindE (read_message decode s) (\<lambda>(m, s').
     case m of None \<Rightarrow> Inr ([], s') | Some x \<Rightarrow> bindE (read_all n s') (\<lambda>(xs, s''). Inr (x # xs, s'')))"

lemma read_sequence:
  "\<forall>m \<in> set ms. valid m \<Longrightarrow> rx s = wire ms @ later \<Longrightarrow> arrivals s = replicate (2 * length ms) (Avail 65535) @ as
   \<Longrightarrow> read_all (length ms) s = Inr (ms, s\<lparr>rx := later, arrivals := as\<rparr>)"
proof (induction ms arbitrary: s)
  case Nil
  then show ?case by (simp add: wire_def)
next
  case (Cons m ms)
  then have "read_message decode s = Inr (Some m, s\<lparr>rx := wire ms @ later,
      arrivals := replicate (2 * length ms) (Avail 65535) @ as\<rparr>)"
    by (intro read_next) auto
  then show ?case using Cons.IH[of "s\<lparr>rx := wire ms @ later,
      arrivals := replicate (2 * length ms) (Avail 65535) @ as\<rparr>"] Cons.prems(1) by simp
qed

end

definition short_message :: "t_data_stream \<Rightarrow> bool" where
  "short_message m \<longleftrightarrow> text_message m \<and> length (ds_data m) \<le> 65532"

definition short_script :: "t_data_stream \<times> s32 \<Rightarrow> bool" where
  "short_script p \<longleftrightarrow> text_message (fst p) \<and> length (ds_data (fst p)) \<le> 65528"

interpretation plain_format: message_format short_message serialization deserialization
proof
  fix m
  assume "short_message m"
  then obtain t where t: "ds_data m = t @ [NUL]" "NUL \<notin> set t" "length t \<le> 65531"
    by (auto simp: short_message_def text_message_def)
  have "deserialization ([ds_type m] @ bytes_u16 (of_nat (length (t @ [NUL]) + 3)) @ (t @ [NUL]))
      = Inr \<lparr>ds_type = ds_type m, ds_data = t @ [NUL]\<rparr>"
    using t by (intro deserialization_message) simp
  then show "\<exists>b. serialization m = Inr b \<and> 3 \<le> length (st_data b) \<and> length (st_data b) < 65536
      \<and> st_length b = of_nat (length (st_data b))
      \<and> take 2 (drop 1 (st_data b)) = bytes_u16 (st_length b) \<and> deserialization (st_data b) = Inr m"
    using t serialization_spec[OF t] by (simp add: add.commute)
qed

interpretation script_format: message_format short_script "\<lambda>(m, p). serializationPri m p" deserializationPri
proof
  fix q :: "t_data_stream \<times> s32"
  assume "short_script q"
  then obtain m p t where t: "q = (m, p)" "ds_data m = t @ [NUL]" "NUL \<notin> set t" "length t \<le> 65527"
    by (cases q) (auto simp: short_script_def text_message_def)
  have "deserializationPri ([ds_type m] @ bytes_u16 (of_nat (length (t @ [NUL]) + 7)) @ bytes_s32 p @ (t @ [NUL]))
      = Inr (\<lparr>ds_type = ds_type m, ds_data = t @ [NUL]\<rparr>, p)"
    using t by (intro deserializationPri_message) simp
  then show "\<exists>b. (\<lambda>(m, p). serializationPri m p) q = Inr b \<and> 3 \<le> length (st_data b)
      \<and> length (st_data b) < 65536 \<and> st_length b = of_nat (length (st_data b))
      \<and> take 2 (drop 1 (st_data b)) = bytes_u16 (st_length b) \<and> deserializationPri (st_data b) = Inr q"
    using t serializationPri_spec[OF t(2-4)] by (simp add: add.commute)
qed

end
