(* ===== verification/PI_Client.thy ===== *)
theory PI_Client
  imports C_Config PP_Serial
begin

text \<open>
  The client \<open>PI\<close>: \<open>obtenerPathDelScript\<close> (\<open>PI_defs.c\<close>) and \<open>main.c\<close>. Arguments and environment are
  lists of strings, which end with a null pointer; the file system, the configuration file and
  what \<open>connect\<close> makes of an address and a port are parameters. A log is the list of its entries, each
  a kind and a message; the console is the list of the lines put on it. \<open>stdin\<close> is what the
  user has typed, and \<open>scanf\<close> at its end returns at once.
\<close>

section \<open>State\<close>

datatype exit_status = EXIT_SUCCESS | EXIT_FAILURE

record client =
  connection :: sock
  client_log :: "(string \<times> string) list"
  console :: "string list"
  stdin :: string
  closes :: nat

definition client_logINFO :: "string \<Rightarrow> client \<Rightarrow> client" where
  "client_logINFO msg c = c\<lparr>client_log := client_log c @ [(''INFO'', msg)]\<rparr>"

definition client_logERROR :: "string \<Rightarrow> client \<Rightarrow> client" where
  "client_logERROR msg c = c\<lparr>client_log := client_log c @ [(''ERROR'', msg)]\<rparr>"

definition puts :: "string \<Rightarrow> client \<Rightarrow> client" where
  "puts msg c = c\<lparr>console := console c @ [msg]\<rparr>"

definition read_key :: "client \<Rightarrow> client" where
  "read_key c = c\<lparr>stdin := tl (stdin c)\<rparr>"

definition close_socket :: "client \<Rightarrow> client" where
  "close_socket c = c\<lparr>closes := closes c + 1\<rparr>"

lemmas client_effects = client_logINFO_def client_logERROR_def puts_def read_key_def close_socket_def

section \<open>The script\<close>

text \<open>
  The first variable that begins with \<open>PWD\<close>, whatever follows. If there is none, or no argument, a
  null pointer is followed; of a variable \<open>PWD\<close> without \<open>=\<close> the copy begins behind its end.
\<close>

definition obtenerPathDelScript :: "string list \<Rightarrow> string list \<Rightarrow> string res" where
  "obtenerPathDelScript argv envp =
     (case find (\<lambda>e. string_starts_with e ''PWD'') envp of
        None \<Rightarrow> Inl UB
      | Some e \<Rightarrow> bindE (arr_get argv 1) (\<lambda>a.
          let size = length e + length a; path = drop 4 e @ ''/'' @ a
          in if length e < 4 \<or> size < length path + 1 then Inl UB else Inr path))"

text \<open>
  \<open>open\<close>, \<open>fstat\<close> and \<open>mmap\<close>: pages have 4096 bytes, the last one is filled up with zeros. No file and
  an empty one cannot be mapped, and what \<open>mmap\<close> returns then is followed.
\<close>

definition mapScript :: "string option \<Rightarrow> string res" where
  "mapScript file =
     (case file of
        None \<Rightarrow> Inl UB
      | Some f \<Rightarrow> if f = [] then Inl UB else Inr (f @ replicate ((4096 - length f mod 4096) mod 4096) NUL))"

section \<open>The session\<close>

datatype next_action = Continue | Break | Exit exit_status

definition data_text :: "t_data_stream \<Rightarrow> string res" where
  "data_text d = bindE (strlen (ds_data d)) (\<lambda>n. Inr (take n (ds_data d)))"

definition reanudar :: t_data_stream where
  "reanudar = \<lparr>ds_type = CHR ''R'', ds_data = ''Reanudar'' @ [NUL]\<rparr>"

definition press_enter :: string where
  "press_enter = ''Proceso Suspendido, presione *enter para reanudarlo.Deber'' @ [CHR 0xC3, CHR 0xA1] @
     '' esperar a que disminuya MMP en caso de estar al m'' @ [CHR 0xC3, CHR 0xA1] @ ''ximo''"

definition finalizo :: string where
  "finalizo = ''Finaliz'' @ [CHR 0xC3, CHR 0xB3] @ '' ejecuci'' @ [CHR 0xC3, CHR 0xB3] @ ''n''"

definition ha_finalizado :: string where
  "ha_finalizado = ''Ha finalizado la ejecuci'' @ [CHR 0xC3, CHR 0xB3] @ ''n''"

definition client_message :: "t_data_stream \<Rightarrow> client \<Rightarrow> (next_action \<times> client) res" where
  "client_message d c =
     (if ds_type d = CHR ''N'' then
        bindE (data_text d) (\<lambda>t. Inr (Continue, puts t (client_logINFO t c)))
      else if ds_type d = CHR ''S'' then
        bindE (data_text d) (\<lambda>t.
        let c1 = read_key (puts press_enter (puts t (client_logINFO t (client_logINFO ''Proceso Suspendido'' c))))
        in bindE (writeStream reanudar (connection c1)) (\<lambda>(sent, s).
           let c2 = c1\<lparr>connection := s\<rparr>
           in if \<not> sent then Inr (Exit EXIT_FAILURE, client_logERROR ''No se ha podido reanudar el proceso'' c2)
              else Inr (Continue, puts ''Reanudado'' (client_logINFO ''Proceso reanudado'' c2))))
      else if ds_type d = CHR ''T'' then
        bindE (data_text d) (\<lambda>t.
        Inr (Break, client_logINFO ha_finalizado (puts finalizo (puts t (client_logINFO t c)))))
      else Inr (Continue, c))"

text \<open>Every round consumes what has arrived, or blocks.\<close>

lemma recv_arrivals: "recv peek n s = Inr (r, s') \<Longrightarrow> length (arrivals s') < length (arrivals s)"
  by (auto simp: recv_def Let_def split: list.splits arrival.splits)

lemma readStream_arrivals:
  assumes "readStream s = Inr (r, s')"
  shows "length (arrivals s') < length (arrivals s)"
proof -
  obtain h s1 where 1: "recv True 3 s = Inr (h, s1)"
    and r: "(case h of None \<Rightarrow> Inr (None, s1) | Some h \<Rightarrow>
       if h = [] then Inr (None, s1)
       else if length h < 3 then Inl UB
       else let len = unat (u16_of_bytes (drop 1 h)) in
         bindE (recv False len s1) (\<lambda>(stream_in, s2).
           case stream_in of None \<Rightarrow> Inr (None, s2) | Some b \<Rightarrow>
           if b = [] then Inr (None, s2)
           else if length b < len then Inl UB
           else bindE (deserialization b) (\<lambda>m. Inr (Some m, s2)))) = Inr (r, s')"
    using assms unfolding readStream_def read_message_def by (auto elim!: bindE_InrE)
  from r have "s' = s1 \<or> length (arrivals s') < length (arrivals s1)"
    by (auto simp: Let_def split: option.splits if_splits elim!: bindE_InrE dest!: recv_arrivals)
  then show ?thesis using recv_arrivals[OF 1] by auto
qed

lemma send_arrivals: "send b s = Inr (r, s') \<Longrightarrow> arrivals s' = arrivals s"
  by (auto simp: send_def Let_def split: list.splits acceptance.splits)

lemma writeStream_arrivals: "writeStream d s = Inr (r, s') \<Longrightarrow> arrivals s' = arrivals s"
  by (auto simp: writeStream_def send_stream_def elim!: bindE_InrE split: option.splits dest!: send_arrivals)

lemma client_message_arrivals:
  "client_message d c = Inr (nx, c') \<Longrightarrow> arrivals (connection c') = arrivals (connection c)"
  by (auto simp: client_message_def client_effects res_simps Let_def split: if_splits
      dest!: writeStream_arrivals)

function client_loop :: "client \<Rightarrow> (exit_status \<times> client) res" where
  "client_loop c =
     bindE (readStream (connection c)) (\<lambda>(data, s).
     let c1 = c\<lparr>connection := s\<rparr>
     in case data of
          None \<Rightarrow> Inr (EXIT_SUCCESS,
            close_socket (client_logERROR ''Error recibiendo datos, o el servidor nos ha desconectado'' c1))
        | Some d \<Rightarrow> bindE (client_message d c1) (\<lambda>(nx, c2).
            case nx of
              Continue \<Rightarrow> client_loop c2
            | Break \<Rightarrow> Inr (EXIT_SUCCESS, c2)
            | Exit e \<Rightarrow> Inr (e, c2)))"
  by pat_completeness auto

termination
  by (relation "measure (\<lambda>c. length (arrivals (connection c)))")
    (auto dest!: readStream_arrivals client_message_arrivals)

declare client_loop.simps [simp del]

section \<open>\<open>main\<close>\<close>

definition not_connected :: sock where
  "not_connected = \<lparr>rx = [], arrivals = [], tx = [], acceptances = []\<rparr>"

definition first_client :: "string \<Rightarrow> client" where
  "first_client typed = \<lparr>connection = not_connected, client_log = [(''INFO'', ''Proceso Interprete iniciado'')],
     console = [], stdin = typed, closes = 0\<rparr>"

definition config_line :: "string option \<Rightarrow> u16 \<Rightarrow> s32 \<Rightarrow> string" where
  "config_line IP PORT prio = ''Configuraci'' @ [CHR 0xC3, CHR 0xB3] @ ''n Le'' @ [CHR 0xC3, CHR 0xAD] @ ''da: PP_IP:''
     @ (case IP of None \<Rightarrow> ''(null)'' | Some ip \<Rightarrow> ip) @ '' PP_Puerto:'' @ show_nat (unat PORT)
     @ '' Prioridad:'' @ show_int (sint prio)"

text \<open>What follows a connection: handshake, script, first answer, session.\<close>

definition first_answer :: "t_data_stream \<Rightarrow> client \<Rightarrow> (exit_status \<times> client) res" where
  "first_answer d c =
     bindE (data_text d) (\<lambda>t.
     let c1 = puts t (client_logINFO t c)
     in if ds_type d = CHR ''F'' then Inr (EXIT_SUCCESS, close_socket c1)
        else bindE (client_loop c1) (\<lambda>(e, c2).
          Inr (e, if e = EXIT_SUCCESS then close_socket c2 else c2)))"

definition client_session :: "string \<Rightarrow> s32 \<Rightarrow> client \<Rightarrow> (exit_status \<times> client) res" where
  "client_session script prio c =
     bindE (client_makeHandshake (connection c)) (\<lambda>(ok, s1).
     let c1 = c\<lparr>connection := s1\<rparr>
     in if \<not> ok then Inr (EXIT_FAILURE, close_socket (client_logERROR ''Error en handshake'' c1))
        else let c2 = client_logINFO ''Handshake OK, conectado con el servidor'' c1
        in bindE (writeStreamPri \<lparr>ds_type = CHR ''N'', ds_data = script\<rparr> prio (connection c2)) (\<lambda>(sent, s2).
           let c3 = c2\<lparr>connection := s2\<rparr>
           in if \<not> sent then
                Inr (EXIT_FAILURE, client_logERROR ''Error enviando datos y script al servidor'' c3)
              else let c4 = client_logINFO ''Script enviado al servidor'' c3
              in bindE (readStream (connection c4)) (\<lambda>(data, s3).
                 let c5 = c4\<lparr>connection := s3\<rparr>
                 in case data of
                      None \<Rightarrow> Inr (EXIT_FAILURE,
                        client_logERROR ''Servidor no ha enviado respuesta luego del envio del script'' c5)
                    | Some d \<Rightarrow> first_answer d c5)))"

text \<open>
  \<open>fs\<close> is the content of the files that can be opened, \<open>net\<close> the socket \<open>create_and_connect\<close> gives
  for an address and a port.
\<close>

definition client_main ::
  "string option \<Rightarrow> (string \<Rightarrow> string option) \<Rightarrow> (string option \<Rightarrow> u16 \<Rightarrow> sock option) \<Rightarrow> string list \<Rightarrow>
   string list \<Rightarrow> string \<Rightarrow> (exit_status \<times> client) res" where
  "client_main pi_config fs net argv envp typed =
     (let c = first_client typed in
      bindE (config_create ''./pi.config'' pi_config) (\<lambda>config.
      bindE (obtenerPathDelScript argv envp) (\<lambda>path.
      bindE (config_get_int_value config ''prioridad_PRI'') (\<lambda>default.
      let prio = (if length argv = 3 then atoi (argv ! 2) else default)
      in if length argv > 3 then
           Inr (EXIT_FAILURE, client_logERROR ''Mal ingreso de parametros al ejecutar el script'' c)
         else bindE (mapScript (fs path)) (\<lambda>script.
           if hd script = CHR 0xFF then
             Inr (EXIT_FAILURE, client_logERROR ''Error al mapear el script a memoria'' c)
           else let IP = config_get_string_value config ''PP_IP''
           in bindE (config_get_int_value config ''PP_Puerto'') (\<lambda>port.
              let PORT = ucast port :: u16; c1 = client_logINFO (config_line IP PORT prio) c
              in case net IP PORT of
                   None \<Rightarrow> Inr (EXIT_FAILURE,
                     client_logERROR ''Error creando descriptor de socket o conectado al servidor'' c1)
                 | Some s \<Rightarrow> client_session script prio (c1\<lparr>connection := s\<rparr>)))))))"

text \<open>
  The thread for signals: for each signal whether it is \<open>SIGINT\<close> and what \<open>finished\<close> is then. It
  ends with the first \<open>SIGINT\<close> after the session, which \<open>main\<close> sends itself.
\<close>

definition debe_esperar :: string where
  "debe_esperar = ''    Debe esperar a que finalice la ejecuci'' @ [CHR 0xC3, CHR 0xB3] @ ''n del script''"

fun client_signal_handler :: "(bool \<times> bool) list \<Rightarrow> string list \<Rightarrow> string list res" where
  "client_signal_handler [] out = Inl NoReturn"
| "client_signal_handler ((sigint, finished) # signals) out =
     (if sigint \<and> finished then Inr out else client_signal_handler signals (out @ [debe_esperar]))"

section \<open>What a session does\<close>

text \<open>The lines a message puts on the console, and what is sent back.\<close>

definition shown :: "t_data_stream \<Rightarrow> string list" where
  "shown d = (let t = cstring (ds_data d) in
     if ds_type d = CHR ''N'' then [t]
     else if ds_type d = CHR ''S'' then [t, press_enter, ''Reanudado'']
     else if ds_type d = CHR ''T'' then [t, finalizo] else [])"

definition resumes :: "t_data_stream list \<Rightarrow> nat" where
  "resumes ms = length (filter (\<lambda>d. ds_type d = CHR ''S'') ms)"

definition reanudar_bytes :: string where
  "reanudar_bytes = CHR ''R'' # bytes_u16 12 @ ''Reanudar'' @ [NUL]"

lemma data_text_message: "text_message d \<Longrightarrow> data_text d = Inr (cstring (ds_data d))"
  by (auto simp: text_message_def data_text_def strlen_text cstring_append_NUL)

lemma serialization_reanudar: "serialization reanudar = Inr \<lparr>st_length = 12, st_data = reanudar_bytes\<rparr>"
  using serialization_spec[of reanudar "''Reanudar''"] by (simp add: reanudar_def reanudar_bytes_def)

lemma write_reanudar:
  assumes "acceptances s = Accept k # acc" and "12 \<le> k"
  shows "writeStream reanudar s = Inr (True, s\<lparr>acceptances := acc, tx := tx s @ reanudar_bytes\<rparr>)"
  using assms
  by (simp add: writeStream_def serialization_reanudar send_stream_def send_def reanudar_bytes_def min_def)

definition logged :: "t_data_stream \<Rightarrow> (string \<times> string) list" where
  "logged d = (let t = cstring (ds_data d) in
     if ds_type d = CHR ''N'' then [(''INFO'', t)]
     else if ds_type d = CHR ''S'' then
       [(''INFO'', ''Proceso Suspendido''), (''INFO'', t), (''INFO'', ''Proceso reanudado'')]
     else if ds_type d = CHR ''T'' then [(''INFO'', t), (''INFO'', ha_finalizado)] else [])"

text \<open>What a list of messages does to the client if all its answers are accepted.\<close>

definition after :: "t_data_stream list \<Rightarrow> client \<Rightarrow> client" where
  "after ms c = c\<lparr>
      connection := (connection c)\<lparr>acceptances := drop (resumes ms) (acceptances (connection c)),
        tx := tx (connection c) @ concat (replicate (resumes ms) reanudar_bytes)\<rparr>,
      console := console c @ concat (map shown ms),
      client_log := client_log c @ concat (map logged ms),
      stdin := drop (resumes ms) (stdin c)\<rparr>"

definition accepts :: "nat \<Rightarrow> client \<Rightarrow> bool" where
  "accepts n c \<longleftrightarrow> (\<exists>acc. acceptances (connection c) = replicate n (Accept 12) @ acc)"

lemma client_message_spec:
  assumes "short_message d" and "accepts (resumes [d]) c"
  shows "client_message d c = Inr (if ds_type d = CHR ''T'' then Break else Continue, after [d] c)"
proof -
  have t: "data_text d = Inr (cstring (ds_data d))" using assms(1) by (simp add: short_message_def data_text_message)
  show ?thesis
  proof (cases "ds_type d = CHR ''S''")
    case True
    then obtain acc where "acceptances (connection c) = Accept 12 # acc"
      using assms(2) by (auto simp: resumes_def accepts_def)
    then show ?thesis using True t
      by (simp add: client_message_def client_effects write_reanudar Let_def)
        (simp add: after_def shown_def logged_def resumes_def drop_Suc)
  next
    case False
    then show ?thesis using t
      by (auto simp: client_message_def client_effects after_def shown_def logged_def resumes_def)
  qed
qed

lemma after_Cons: "after ms (after [d] c) = after (d # ms) c"
  by (simp add: after_def resumes_def add.commute replicate_add)

text \<open>Messages one after the other, the last of which ends the process.\<close>

lemma client_loop_session:
  assumes "\<forall>d \<in> set ms. short_message d \<and> ds_type d \<noteq> CHR ''T''"
    and "short_message l" and "ds_type l = CHR ''T''"
    and "rx (connection c) = plain_format.wire (ms @ [l]) @ later"
    and "arrivals (connection c) = replicate (2 * length (ms @ [l])) (Avail 65535) @ as"
    and "accepts (resumes ms) c"
  shows "client_loop c = Inr (EXIT_SUCCESS,
    (after (ms @ [l]) c)\<lparr>connection := (connection (after (ms @ [l]) c))\<lparr>rx := later, arrivals := as\<rparr>\<rparr>)"
  using assms
proof (induction ms arbitrary: c)
  case Nil
  have "readStream (connection c) = Inr (Some l, (connection c)\<lparr>rx := later, arrivals := as\<rparr>)"
    using Nil plain_format.read_next[of l "connection c" "[]" later as]
    by (simp add: readStream_def plain_format.wire_def numeral_2_eq_2)
  moreover have "client_message l (c\<lparr>connection := (connection c)\<lparr>rx := later, arrivals := as\<rparr>\<rparr>)
      = Inr (Break, after [l] (c\<lparr>connection := (connection c)\<lparr>rx := later, arrivals := as\<rparr>\<rparr>))"
    using client_message_spec[OF Nil(2)] Nil(3) by (simp add: resumes_def accepts_def)
  ultimately show ?case by (simp add: client_loop.simps[of c] after_def)
next
  case (Cons d ms)
  let ?c = "c\<lparr>connection := (connection c)\<lparr>rx := plain_format.wire (ms @ [l]) @ later,
      arrivals := replicate (2 * length (ms @ [l])) (Avail 65535) @ as\<rparr>\<rparr>"
  obtain acc where acc: "acceptances (connection c) = replicate (resumes (d # ms)) (Accept 12) @ acc"
    using Cons.prems(6) by (auto simp: accepts_def)
  have sum: "resumes (d # ms) = resumes [d] + resumes ms" by (simp add: resumes_def)
  have d: "short_message d" "ds_type d \<noteq> CHR ''T''" using Cons.prems(1) by auto
  have "readStream (connection c) = Inr (Some d, connection ?c)"
    using plain_format.read_next[of d "connection c" "ms @ [l]" later] d(1) Cons.prems(4,5)
    by (simp add: readStream_def)
  moreover have "client_message d ?c = Inr (Continue, after [d] ?c)"
    using client_message_spec[of d ?c] d acc by (simp add: accepts_def sum replicate_add)
  ultimately have "client_loop c = client_loop (after [d] ?c)"
    by (simp add: client_loop.simps[of c])
  also have "\<dots> = Inr (EXIT_SUCCESS, (after (ms @ [l]) (after [d] ?c))
      \<lparr>connection := (connection (after (ms @ [l]) (after [d] ?c)))\<lparr>rx := later, arrivals := as\<rparr>\<rparr>)"
    using Cons.prems acc by (intro Cons.IH) (auto simp: after_def accepts_def sum replicate_add)
  finally show ?case by (simp add: after_Cons) (simp add: after_def)
qed

section \<open>The script on its way\<close>

lemma strlen_prefix: "NUL \<notin> set t \<Longrightarrow> strlen (t @ NUL # u) = Inr (length t)"
  by (induction t) (auto simp: strlen_def)

lemma strlen_none: "NUL \<notin> set t \<Longrightarrow> strlen t = Inl UB"
  by (auto simp: strlen_def scan_safe_iff)

text \<open>A file that fills its last page leaves no room for a closing NUL.\<close>

lemma mapped_strlen:
  assumes "mapScript (Some f) = Inr script" and "NUL \<notin> set f"
  shows "length f mod 4096 \<noteq> 0 \<Longrightarrow> strlen script = Inr (length f) \<and> take (length f + 1) script = f @ [NUL]"
    and "length f mod 4096 = 0 \<Longrightarrow> strlen script = Inl UB"
proof -
  have e: "f \<noteq> []" "script = f @ replicate ((4096 - length f mod 4096) mod 4096) NUL"
    using assms(1) by (auto simp: mapScript_def split: if_splits)
  show "strlen script = Inr (length f) \<and> take (length f + 1) script = f @ [NUL]" if "length f mod 4096 \<noteq> 0"
  proof -
    have "0 < (4096 - length f mod 4096) mod 4096" using that by simp
    then obtain k where "script = f @ NUL # replicate k NUL" using e(2) by (metis gr0_implies_Suc replicate_Suc)
    then show ?thesis using assms(2) by (simp add: strlen_prefix)
  qed
  show "strlen script = Inl UB" if "length f mod 4096 = 0"
    using that e assms(2) by (simp add: strlen_none)
qed

lemma mapped_hd: "mapScript (Some f) = Inr script \<Longrightarrow> f \<noteq> [] \<and> hd script = hd f"
  by (auto simp: mapScript_def split: if_splits)

definition script_message :: "string \<Rightarrow> t_data_stream" where
  "script_message f = \<lparr>ds_type = CHR ''N'', ds_data = f @ [NUL]\<rparr>"

lemma send_script:
  assumes "strlen script = Inr (length f)" and "take (length f + 1) script = f @ [NUL]"
    and "NUL \<notin> set f" and "length f \<le> 65527" and "acceptances s = Accept 65535 # acc"
  shows "writeStreamPri \<lparr>ds_type = CHR ''N'', ds_data = script\<rparr> prio s =
    Inr (True, s\<lparr>acceptances := acc, tx := tx s @ script_format.wire [(script_message f, prio)]\<rparr>)"
proof -
  have "serializationPri \<lparr>ds_type = CHR ''N'', ds_data = script\<rparr> prio = serializationPri (script_message f) prio"
    using assms(1-3) by (simp add: serializationPri_def script_message_def strlen_text)
  also have "\<dots> = Inr \<lparr>st_length = of_nat (length f + 8), st_data = CHR ''N'' # bytes_u16 (of_nat (length f + 8))
      @ bytes_s32 prio @ f @ [NUL]\<rparr>" (is "_ = Inr ?b")
    using serializationPri_spec[of "script_message f" f prio] assms(3,4) by (simp add: script_message_def)
  finally have b: "serializationPri \<lparr>ds_type = CHR ''N'', ds_data = script\<rparr> prio = Inr ?b"
    "script_format.wire [(script_message f, prio)] = st_data ?b"
    using \<open>serializationPri (script_message f) prio = Inr ?b\<close> by (simp_all add: script_format.wire_def)
  have l: "unat (of_nat (length f + 8) :: u16) = length f + 8" using assms(4) by (intro unat_of_small) simp
  have "take (unat (st_length ?b)) (st_data ?b) = st_data ?b" by (simp only: t_stream.simps l) simp
  moreover have "length (st_data ?b) = length f + 8" by simp
  ultimately show ?thesis using assms(4,5) unfolding writeStreamPri_def b bindE_Inr send_stream_def
    by (simp add: send_def min_def)
qed

section \<open>The whole conversation\<close>

lemma handshake_accepted:
  assumes "rx s = CHR ''!'' # r" and "arrivals s = Avail 1 # as" and "acceptances s = Accept 1 # acc"
  shows "client_makeHandshake s = Inr (True, s\<lparr>rx := r, arrivals := as, acceptances := acc, tx := tx s @ ''#''\<rparr>)"
  using assms by (simp add: client_makeHandshake_def send_def recv_def)

lemma first_answer_session:
  assumes "short_message d" and "ds_type d \<noteq> CHR ''F''"
    and "\<forall>d \<in> set ms. short_message d \<and> ds_type d \<noteq> CHR ''T''" and "short_message l" and "ds_type l = CHR ''T''"
    and "rx (connection c) = plain_format.wire (ms @ [l]) @ later"
    and "arrivals (connection c) = replicate (2 * length (ms @ [l])) (Avail 65535) @ as"
    and "accepts (resumes ms) c"
  shows "\<exists>c'. first_answer d c = Inr (EXIT_SUCCESS, c') \<and> closes c' = closes c + 1
    \<and> tx (connection c') = tx (connection c) @ concat (replicate (resumes ms) reanudar_bytes)
    \<and> console c' = console c @ cstring (ds_data d) # concat (map shown (ms @ [l]))"
proof -
  let ?c = "puts (cstring (ds_data d)) (client_logINFO (cstring (ds_data d)) c)"
  have t: "data_text d = Inr (cstring (ds_data d))" using assms(1) by (simp add: short_message_def data_text_message)
  have "client_loop ?c = Inr (EXIT_SUCCESS,
    (after (ms @ [l]) ?c)\<lparr>connection := (connection (after (ms @ [l]) ?c))\<lparr>rx := later, arrivals := as\<rparr>\<rparr>)"
    using assms(6-8) by (intro client_loop_session[OF assms(3-5)]) (simp_all add: client_effects accepts_def)
  then show ?thesis using t assms(2,5) unfolding first_answer_def
    by (simp add: close_socket_def after_def resumes_def) (simp add: client_effects)
qed

lemma client_session_spec:
  assumes s: "rx (connection c) = ''!'' @ plain_format.wire (d # ms @ [l]) @ later"
      "arrivals (connection c) = Avail 1 # replicate (2 * length (d # ms @ [l])) (Avail 65535) @ as"
      "acceptances (connection c) = Accept 1 # Accept 65535 # replicate (resumes ms) (Accept 12) @ acc"
      "tx (connection c) = []"
    and d: "short_message d" "ds_type d \<noteq> CHR ''F''"
    and ms: "\<forall>d \<in> set ms. short_message d \<and> ds_type d \<noteq> CHR ''T''"
    and l: "short_message l" "ds_type l = CHR ''T''"
    and f: "strlen script = Inr (length f)" "take (length f + 1) script = f @ [NUL]" "NUL \<notin> set f"
      "length f \<le> 65527"
  shows "\<exists>c'. client_session script prio c = Inr (EXIT_SUCCESS, c') \<and> closes c' = closes c + 1
    \<and> tx (connection c') = ''#'' @ script_format.wire [(script_message f, prio)] @
        plain_format.wire (replicate (resumes ms) reanudar)
    \<and> console c' = console c @ cstring (ds_data d) # concat (map shown (ms @ [l]))"
proof -
  define s1 where "s1 = (connection c)\<lparr>rx := plain_format.wire (d # ms @ [l]) @ later,
    arrivals := Avail 65535 # Avail 65535 # replicate (2 * length (ms @ [l])) (Avail 65535) @ as,
    acceptances := Accept 65535 # replicate (resumes ms) (Accept 12) @ acc, tx := ''#''\<rparr>"
  define s2 where "s2 = s1\<lparr>acceptances := replicate (resumes ms) (Accept 12) @ acc,
    tx := ''#'' @ script_format.wire [(script_message f, prio)]\<rparr>"
  define s3 where "s3 = s2\<lparr>rx := plain_format.wire (ms @ [l]) @ later,
    arrivals := replicate (2 * length (ms @ [l])) (Avail 65535) @ as\<rparr>"
  define c5 where "c5 = (client_logINFO ''Script enviado al servidor''
    (client_logINFO ''Handshake OK, conectado con el servidor'' c))\<lparr>connection := s3\<rparr>"
  have 1: "client_makeHandshake (connection c) = Inr (True, s1)"
    using handshake_accepted s by (simp add: s1_def)
  have 2: "writeStreamPri \<lparr>ds_type = CHR ''N'', ds_data = script\<rparr> prio s1 = Inr (True, s2)"
    using send_script[OF f, of s1] by (simp add: s1_def s2_def)
  have 3: "readStream s2 = Inr (Some d, s3)" unfolding readStream_def
    using plain_format.read_next[OF d(1), of s2 "ms @ [l]" later] by (simp add: s1_def s2_def s3_def)
  have 4: "client_session script prio c = first_answer d c5"
    by (simp add: client_session_def 1 2 3 c5_def client_effects Let_def)
  have w: "plain_format.wire (replicate n reanudar) = concat (replicate n reanudar_bytes)" for n
    by (simp add: plain_format.wire_def serialization_reanudar)
  have "\<exists>c'. first_answer d c5 = Inr (EXIT_SUCCESS, c') \<and> closes c' = closes c5 + 1
    \<and> tx (connection c') = tx (connection c5) @ concat (replicate (resumes ms) reanudar_bytes)
    \<and> console c' = console c5 @ cstring (ds_data d) # concat (map shown (ms @ [l]))"
    by (rule first_answer_session[OF d ms l]) (auto simp: c5_def s3_def s2_def accepts_def)
  then show ?thesis by (simp add: 4 w) (simp add: c5_def s3_def s2_def client_effects)
qed

text \<open>What the server reads of it.\<close>

lemma server_reads:
  assumes "short_script m" and "\<forall>r \<in> set rs. short_message r"
    and "rx s = ''#'' @ script_format.wire [m] @ plain_format.wire rs"
    and "arrivals s = Avail 1 # replicate (2 + 2 * length rs) (Avail 65535) @ as" and "acceptances s = Accept 1 # acc"
  shows "\<exists>s1 s2 s3. makeHandshake s = Inr (True, s1) \<and> tx s1 = tx s @ ''!'' \<and> readStreamPri s1 = Inr (Some m, s2)
    \<and> plain_format.read_all (length rs) s2 = Inr (rs, s3) \<and> rx s3 = []"
proof -
  define s1 where "s1 = s\<lparr>rx := script_format.wire [m] @ plain_format.wire rs,
    arrivals := Avail 65535 # Avail 65535 # replicate (2 * length rs) (Avail 65535) @ as,
    acceptances := acc, tx := tx s @ ''!''\<rparr>"
  define s2 where "s2 = s1\<lparr>rx := plain_format.wire rs, arrivals := replicate (2 * length rs) (Avail 65535) @ as\<rparr>"
  have 1: "makeHandshake s = Inr (True, s1)"
    using assms(3-5) by (simp add: makeHandshake_def recv_def send_def s1_def numeral_2_eq_2)
  have 2: "readStreamPri s1 = Inr (Some m, s2)" unfolding readStreamPri_def
    using script_format.read_next[OF assms(1), of s1 "[]" "plain_format.wire rs"]
    by (simp add: s1_def s2_def script_format.wire_def)
  have 3: "plain_format.read_all (length rs) s2 = Inr (rs, s2\<lparr>rx := [], arrivals := as\<rparr>)"
    using plain_format.read_sequence[OF assms(2), of s2 "[]" as] by (simp add: s2_def)
  show ?thesis using 1 2 3 by (auto simp: s1_def)
qed

end
