(* ===== verification/PP_LTS.thy ===== *)
theory PP_LTS
  imports PP_System_Limits PP_Serial PI_Client
begin

unbundle bit_operations_syntax

text \<open>
  The event loop of \<open>LTSconex\<close> (\<open>LTS.c\<close>) on sockets: \<open>PP_Threads\<close> says what its branches do to the
  state the threads share, this theory adds the descriptors, the bytes that are read and written,
  and which branch an event leads to. Descriptors are numbers; a closed one is \<open>None\<close>, on which \<open>recv\<close>
  and \<open>send\<close> fail. What \<open>accept\<close> returns is an argument: nothing, or a number that is not in use
  with its connection; that such a number is the lowest one, and may have been another client's, is up
  to the kernel.
\<close>

section \<open>State and events\<close>

record lts =
  srv :: system
  socks :: "int \<Rightarrow> sock option"

record epoll_event =
  event_fd :: int
  events :: u32

definition EPOLLIN :: u32 where "EPOLLIN = 0x001"
definition EPOLLOUT :: u32 where "EPOLLOUT = 0x004"
definition EPOLLERR :: u32 where "EPOLLERR = 0x008"
definition EPOLLHUP :: u32 where "EPOLLHUP = 0x010"
definition EPOLLRDHUP :: u32 where "EPOLLRDHUP = 0x2000"

lemmas epoll_masks = EPOLLIN_def EPOLLOUT_def EPOLLERR_def EPOLLHUP_def EPOLLRDHUP_def

definition has :: "epoll_event \<Rightarrow> u32 \<Rightarrow> bool" where
  "has ev bits \<longleftrightarrow> (events ev AND bits) \<noteq> 0"

definition close_fd :: "int \<Rightarrow> lts \<Rightarrow> lts" where
  "close_fd fd l = l\<lparr>socks := (socks l)(fd := None)\<rparr>"

definition set_srv :: "system \<Rightarrow> lts \<Rightarrow> lts" where
  "set_srv s l = l\<lparr>srv := s\<rparr>"

definition stream_of :: "t_msg \<Rightarrow> t_data_stream" where
  "stream_of m = \<lparr>ds_type = msg_type m, ds_data = msg_text m @ [NUL]\<rparr>"

text \<open>\<open>writeStream\<close> on a descriptor, and whether it succeeded.\<close>

definition write_fd :: "int \<Rightarrow> t_msg \<Rightarrow> lts \<Rightarrow> (bool \<times> lts) res" where
  "write_fd fd m l =
     (case socks l fd of
        None \<Rightarrow> bindE (serialization (stream_of m)) (\<lambda>_. Inr (False, l))
      | Some sk \<Rightarrow> bindE (writeStream (stream_of m) sk)
          (\<lambda>(ok, sk'). Inr (ok, l\<lparr>socks := (socks l)(fd := Some sk')\<rparr>)))"

text \<open>The message a branch has added to what clients are sent, if any.\<close>

definition added :: "system \<Rightarrow> system \<Rightarrow> t_msg option" where
  "added s s' = (case drop (length (outbox s)) (outbox s') of [] \<Rightarrow> None | m # _ \<Rightarrow> Some m)"

section \<open>The branches\<close>

text \<open>
  A client that connects. Only a message that is refused has its descriptor closed; the length of
  the script is not looked at then.
\<close>

definition accept_client :: "(int \<times> sock) option \<Rightarrow> lts \<Rightarrow> lts res" where
  "accept_client accepted l =
     (case accepted of
        None \<Rightarrow> Inr l
      | Some (fd, sk) \<Rightarrow>
          bindE (makeHandshake sk) (\<lambda>(ok, sk1).
          if \<not> ok then Inr l
          else bindE (readStreamPri sk1) (\<lambda>(dataIn, sk2).
            let l1 = l\<lparr>socks := (socks l)(fd := Some sk2)\<rparr>
            in case dataIn of
                 None \<Rightarrow> Inr (close_fd fd l1)
               | Some (d, prio) \<Rightarrow>
                   if ds_type d \<noteq> CHR ''N'' then Inr l1
                   else if MPS_sem (srv l1) = 0 then
                     let s' = LTSconex_new fd (ds_type d) [] prio (srv l1)
                     in bindE (write_fd fd (the (added (srv l1) s')) (set_srv s' l1)) (\<lambda>(_, l2). Inr (close_fd fd l2))
                   else bindE (data_text d) (\<lambda>script.
                     let s' = LTSconex_new fd (ds_type d) script prio (srv l1)
                     in bindE (write_fd fd (the (added (srv l1) s')) (set_srv s' l1)) (\<lambda>(_, l2). Inr l2)))))"

text \<open>A message of a connected client, read only if a process may be loaded.\<close>

definition client_message_in :: "int \<Rightarrow> lts \<Rightarrow> lts res" where
  "client_message_in fd l =
     (if MMP_sem (srv l) = 0 then Inr l
      else bindE (case socks l fd of None \<Rightarrow> Inr (None, l)
             | Some sk \<Rightarrow> bindE (readStream sk) (\<lambda>(d, sk'). Inr (d, l\<lparr>socks := (socks l)(fd := Some sk')\<rparr>)))
        (\<lambda>(dataIn, l1).
          case dataIn of
            None \<Rightarrow> bindE (LTSconex_resume fd None (srv l1)) (\<lambda>s'. Inr (close_fd fd (set_srv s' l1)))
          | Some d \<Rightarrow> bindE (LTSconex_resume fd (Some (ds_type d)) (srv l1)) (\<lambda>s'.
              if ds_type d = CHR ''R'' \<and> LPS s' = LPS (srv l1) then Inr (close_fd fd (set_srv s' l1))
              else Inr (set_srv s' l1))))"

text \<open>The socket of a client takes output: the first message for it, if there is one.\<close>

definition client_message_out :: "int \<Rightarrow> lts \<Rightarrow> lts res" where
  "client_message_out fd l =
     bindE (LTSconex_out fd (srv l)) (\<lambda>s'.
     case added (srv l) s' of
       None \<Rightarrow> Inr (set_srv s' l)
     | Some m \<Rightarrow> bindE (write_fd fd m (set_srv s' l)) (\<lambda>(ok, l1).
         if ok then Inr l1 else Inr (close_fd fd l1)))"

definition LTSconex_event :: "int \<Rightarrow> (int \<times> sock) option \<Rightarrow> epoll_event \<Rightarrow> lts \<Rightarrow> lts res" where
  "LTSconex_event serverfd accepted ev l =
     (let clientfd = event_fd ev in
      if has ev EPOLLERR \<or> has ev EPOLLHUP \<or> has ev EPOLLRDHUP then Inr (close_fd clientfd l)
      else if has ev EPOLLIN then
        (if clientfd = serverfd then accept_client accepted l else client_message_in clientfd l)
      else client_message_out clientfd l)"

text \<open>The loop over the events \<open>epoll_wait\<close> reports.\<close>

fun LTSconex_events :: "int \<Rightarrow> ((int \<times> sock) option \<times> epoll_event) list \<Rightarrow> lts \<Rightarrow> lts res" where
  "LTSconex_events serverfd [] l = Inr l"
| "LTSconex_events serverfd ((accepted, ev) # evs) l =
     bindE (LTSconex_event serverfd accepted ev l) (LTSconex_events serverfd evs)"

section \<open>The loop is made of steps of the server\<close>

lemma srv_updates [simp]:
  "srv (set_srv s l) = s" "srv (close_fd fd l) = srv l" "socks (set_srv s l) = socks l"
  "socks (close_fd fd l) = (socks l)(fd := None)"
  by (simp_all add: set_srv_def close_fd_def)

lemma write_fd_srv: "write_fd fd m l = Inr (ok, l') \<Longrightarrow> srv l' = srv l"
  by (auto simp: write_fd_def res_simps split: option.splits)

lemma accept_client_srv:
  assumes "accept_client accepted l = Inr l'"
  shows "srv l' = srv l \<or> (\<exists>fd script prio. srv l' = LTSconex_new fd (CHR ''N'') script prio (srv l))"
  using assms
  by (auto simp: accept_client_def Let_def split: option.splits if_splits prod.splits elim!: bindE_InrE
      dest!: write_fd_srv) blast+

lemma client_message_in_srv:
  assumes "client_message_in fd l = Inr l'"
  shows "srv l' = srv l \<or> (\<exists>dataIn. LTSconex_resume fd dataIn (srv l) = Inr (srv l'))"
  using assms
  by (fastforce simp: client_message_in_def res_simps split: option.splits if_splits)

lemma client_message_out_srv:
  assumes "client_message_out fd l = Inr l'"
  shows "LTSconex_out fd (srv l) = Inr (srv l')"
  using assms
  by (auto simp: client_message_out_def res_simps split: option.splits if_splits dest!: write_fd_srv)

lemma event_step:
  assumes "LTSconex_event serverfd accepted ev l = Inr l'"
  shows "srv l' = srv l \<or> sys_step rnd (srv l) (srv l')"
  using assms accept_client_srv[of accepted l l'] client_message_in_srv[of "event_fd ev" l l']
    client_message_out_srv[of "event_fd ev" l l']
  by (auto simp: LTSconex_event_def Let_def split: if_splits
      intro: sys_step.new_script[of rnd "srv l"] sys_step.message sys_step.flush)

text \<open>The server with its sockets: an event of the loop, or a step of another thread.\<close>

inductive lts_step :: "(rat \<Rightarrow> rat) \<Rightarrow> int \<Rightarrow> lts \<Rightarrow> lts \<Rightarrow> bool" for rnd :: "rat \<Rightarrow> rat" and serverfd :: int where
  event: "LTSconex_event serverfd accepted ev l = Inr l' \<Longrightarrow> lts_step rnd serverfd l l'"
| other: "sys_step rnd (srv l) s' \<Longrightarrow> lts_step rnd serverfd l (l\<lparr>srv := s'\<rparr>)"

lemma lts_simulation:
  "(lts_step rnd serverfd)\<^sup>*\<^sup>* l l' \<Longrightarrow> sys_steps rnd (srv l) (srv l')"
proof (induction rule: rtranclp_induct)
  case (step l1 l2)
  from step.hyps(2) have "srv l2 = srv l1 \<or> sys_step rnd (srv l1) (srv l2)"
    by (cases rule: lts_step.cases) (auto dest: event_step)
  then show ?case using step.IH by auto
qed simp

section \<open>Bytes in order\<close>

definition sendable :: "t_msg \<Rightarrow> bool" where
  "sendable m \<longleftrightarrow> NUL \<notin> set (msg_text m) \<and> length (msg_text m) \<le> 65531"

lemma sendable_short: "sendable m \<Longrightarrow> short_message (stream_of m)"
  by (auto simp: sendable_def short_message_def text_message_def stream_of_def)

lemma writeStream_whole:
  assumes "sendable m" and "acceptances sk = Accept 65535 # acc"
  shows "writeStream (stream_of m) sk = Inr (True, sk\<lparr>acceptances := acc, tx := tx sk @ plain_format.wire [stream_of m]\<rparr>)"
proof -
  have "serialization (stream_of m) = Inr \<lparr>st_length = of_nat (length (msg_text m) + 4),
      st_data = [msg_type m] @ bytes_u16 (of_nat (length (msg_text m) + 4)) @ msg_text m @ [NUL]\<rparr>" (is "_ = Inr ?b")
    using serialization_spec[of "stream_of m" "msg_text m"] assms(1) by (simp add: stream_of_def sendable_def)
  then have b: "serialization (stream_of m) = Inr ?b" "plain_format.wire [stream_of m] = st_data ?b"
    by (simp_all add: plain_format.wire_def)
  have "unat (of_nat (length (msg_text m) + 4) :: u16) = length (msg_text m) + 4"
    using assms(1) by (intro unat_of_small) (simp add: sendable_def)
  then have "take (unat (st_length ?b)) (st_data ?b) = st_data ?b" by (simp only: t_stream.simps) simp
  moreover have "0 < length (st_data ?b) \<and> length (st_data ?b) \<le> 65535" using assms(1) by (simp add: sendable_def)
  ultimately show ?thesis using assms(2) unfolding writeStream_def b bindE_Inr send_stream_def
    by (simp add: send_def min_def)
qed

lemma write_fd_whole:
  assumes "sendable m" and "socks l fd = Some sk" and "acceptances sk = Accept 65535 # acc"
  shows "write_fd fd m l = Inr (True, l\<lparr>socks := (socks l)(fd \<mapsto>
    sk\<lparr>acceptances := acc, tx := tx sk @ plain_format.wire [stream_of m]\<rparr>)\<rparr>)"
  using assms(2) writeStream_whole[OF assms(1,3)] by (simp add: write_fd_def)

text \<open>The answer to a new script: refused, delayed, or loaded.\<close>

definition answer :: "int \<Rightarrow> system \<Rightarrow> t_msg" where
  "answer fd s = (if MPS_sem s = 0 then \<lparr>msg_fd = fd, msg_type = CHR ''F'', msg_text = ''MPS superado''\<rparr>
     else if MMP_sem s = 0 then \<lparr>msg_fd = fd, msg_type = CHR ''N'', msg_text = demorada\<rparr>
     else \<lparr>msg_fd = fd, msg_type = NUL, msg_text = ''Script AnSISOP cargado''\<rparr>)"

lemma LTSconex_new_outbox: "outbox (LTSconex_new fd (CHR ''N'') script prio s) = outbox s @ [answer fd s]"
  by (simp add: LTSconex_new_def answer_def write_client_def Let_def)

lemma sendable_answer: "sendable (answer fd s)"
  by (simp add: sendable_def answer_def demorada_def)

lemma added_new: "added s (LTSconex_new fd (CHR ''N'') script prio s) = Some (answer fd s)"
  by (simp add: added_def LTSconex_new_outbox)

definition greets :: "string \<Rightarrow> s32 \<Rightarrow> sock \<Rightarrow> string \<Rightarrow> arrival list \<Rightarrow> acceptance list \<Rightarrow> bool" where
  "greets f prio sk later as acc \<longleftrightarrow> NUL \<notin> set f \<and> length f \<le> 65527
     \<and> rx sk = ''#'' @ script_format.wire [(script_message f, prio)] @ later
     \<and> arrivals sk = Avail 1 # Avail 65535 # Avail 65535 # as
     \<and> acceptances sk = Accept 1 # Accept 65535 # acc"

lemma accept_script:
  assumes g: "greets f prio sk later as acc" and "0 < MPS_sem (srv l)"
  shows "accept_client (Some (fd, sk)) l = Inr \<lparr>srv = LTSconex_new fd (CHR ''N'') f prio (srv l),
    socks = (socks l)(fd \<mapsto> sk\<lparr>rx := later, arrivals := as, acceptances := acc,
      tx := tx sk @ ''!'' @ plain_format.wire [stream_of (answer fd (srv l))]\<rparr>)\<rparr>"
proof -
  have f: "NUL \<notin> set f" "length f \<le> 65527" and sk: "rx sk = ''#'' @ script_format.wire [(script_message f, prio)] @ later"
    "arrivals sk = Avail 1 # Avail 65535 # Avail 65535 # as" "acceptances sk = Accept 1 # Accept 65535 # acc"
    using g by (simp_all add: greets_def)
  define s1 where "s1 = sk\<lparr>rx := script_format.wire [(script_message f, prio)] @ later,
    arrivals := Avail 65535 # Avail 65535 # as, acceptances := Accept 65535 # acc, tx := tx sk @ ''!''\<rparr>"
  define s2 where "s2 = s1\<lparr>rx := later, arrivals := as\<rparr>"
  have 1: "makeHandshake sk = Inr (True, s1)"
    using sk by (simp add: makeHandshake_def recv_def send_def s1_def)
  have "short_script (script_message f, prio)"
    using f by (auto simp: short_script_def text_message_def script_message_def)
  then have 2: "readStreamPri s1 = Inr (Some (script_message f, prio), s2)" unfolding readStreamPri_def
    using script_format.read_next[of "(script_message f, prio)" s1 "[]" later as]
    by (simp add: s1_def s2_def script_format.wire_def)
  have t: "ds_type (script_message f) = CHR ''N''" "data_text (script_message f) = Inr f"
    using f by (simp_all add: script_message_def data_text_def strlen_text)
  let ?l = "set_srv (LTSconex_new fd (CHR ''N'') f prio (srv l)) (l\<lparr>socks := (socks l)(fd \<mapsto> s2)\<rparr>)"
  have 3: "write_fd fd (answer fd (srv l)) ?l = Inr (True, ?l\<lparr>socks := (socks ?l)(fd \<mapsto>
      s2\<lparr>acceptances := acc, tx := tx s2 @ plain_format.wire [stream_of (answer fd (srv l))]\<rparr>)\<rparr>)"
    by (rule write_fd_whole[OF sendable_answer]) (simp_all add: s2_def s1_def)
  show ?thesis unfolding accept_client_def option.case prod.case 1 bindE_Inr 2 Let_def t
    using assms(2) 3 by (simp add: added_new t set_srv_def s2_def s1_def)
qed

text \<open>The first message for a client goes out, whole.\<close>

lemma out_first:
  assumes "sendingList (shd s) = a @ m # b" and "msg_fd m = fd" and "\<forall>x \<in> set a. msg_fd x \<noteq> fd"
  shows "LTSconex_out fd s = Inr (s\<lparr>shd := (shd s)\<lparr>sendingList := a @ b\<rparr>,
    outbox := outbox s @ [m]\<rparr>)"
proof -
  have "takeWhile (\<lambda>x. msg_fd x \<noteq> fd) (a @ m # b) = a"
    using assms(2,3) by (intro takeWhile_append_stop) simp_all
  then have "list_fd_msg_get (a @ m # b) fd = Inr (Some m, a @ b)"
    by (simp add: list_fd_msg_get_def ls_remove_def Let_def)
  then show ?thesis using assms(1,2) by (cases m) (simp add: LTSconex_out_def write_client_def Let_def)
qed

lemma message_out_first:
  assumes "sendingList (shd (srv l)) = a @ m # b" and "msg_fd m = fd" and "\<forall>x \<in> set a. msg_fd x \<noteq> fd"
    and "sendable m" and "socks l fd = Some sk" and "acceptances sk = Accept 65535 # acc"
  shows "client_message_out fd l = Inr \<lparr>srv = (srv l)\<lparr>shd := (shd (srv l))\<lparr>sendingList := a @ b\<rparr>,
      outbox := outbox (srv l) @ [m]\<rparr>,
    socks = (socks l)(fd \<mapsto> sk\<lparr>acceptances := acc, tx := tx sk @ plain_format.wire [stream_of m]\<rparr>)\<rparr>"
proof -
  let ?s = "(srv l)\<lparr>shd := (shd (srv l))\<lparr>sendingList := a @ b\<rparr>, outbox := outbox (srv l) @ [m]\<rparr>"
  have "write_fd fd m (set_srv ?s l) = Inr (True, (set_srv ?s l)\<lparr>socks := (socks l)(fd \<mapsto>
      sk\<lparr>acceptances := acc, tx := tx sk @ plain_format.wire [stream_of m]\<rparr>)\<rparr>)"
    using write_fd_whole[OF assms(4) _ assms(6), of "set_srv ?s l" fd] assms(5) by simp
  then show ?thesis unfolding client_message_out_def out_first[OF assms(1-3)] bindE_Inr
    by (simp add: added_def set_srv_def)
qed

end
