(* ===== verification/PP_Dump_Spec.thy ===== *)
theory PP_Dump_Spec
  imports PP_Data_Spec
begin

text \<open>
  The dump of an image that is sent to the client when it ends or is suspended: what the data
  section holds and for how many variables its 16-bit offsets are enough, and the stack section,
  which is right for at most one activation.
\<close>

section \<open>The data section\<close>

definition render_var :: "t_data \<Rightarrow> string" where
  "render_var e = [varName e] @ ''='' @ show_int (sint (varValue e)) @ [NL]"

lemma length_render_var: "0 < length (render_var e) \<and> length (render_var e) \<le> 14"
  using length_show_s32[of "varValue e"] by (simp add: render_var_def)

lemma dataMsg_step:
  "dataMsg_loop (e # d) offset tmp_size msg =
     (if varName e = NUL then Inr msg
      else let l = length (render_var e); tmp_size' = tmp_size + of_nat (l + 1);
               old = (if offset = 0 then [] else case msg of None \<Rightarrow> [] | Some m \<Rightarrow> m)
           in if length old + l + 1 \<le> unat offset + unat tmp_size'
              then dataMsg_loop d (offset + tmp_size' - 1) tmp_size' (Some (old @ render_var e))
              else Inl UB)"
  by (simp only: dataMsg_loop.simps Let_def render_var_def)

text \<open>
  After \<open>j\<close> entries \<open>tmp_size\<close> is at most \<open>15 j\<close> and \<open>offset\<close> at most the sum of its values so far;
  90 entries keep both below \<open>2 ^ 16\<close>.
\<close>

lemma dataMsg_loop_ok:
  assumes t: "varName t = NUL"
  shows "\<forall>e \<in> set vs. varName e \<noteq> NUL \<Longrightarrow> j + length vs \<le> 90 \<Longrightarrow> T \<le> 15 * j
    \<Longrightarrow> 2 * P \<le> 15 * (j * (j + 1)) \<Longrightarrow> length acc \<le> P
    \<Longrightarrow> P = 0 \<and> acc = [] \<or> 0 < P \<and> msg = Some acc
    \<Longrightarrow> dataMsg_loop (vs @ [t]) (of_nat P) (of_nat T) msg
        = Inr (if vs = [] then msg else Some (acc @ concat (map render_var vs)))"
proof (induction vs arbitrary: j T P acc msg)
  case Nil
  then show ?case using t by simp
next
  case (Cons e vs)
  define l where "l = length (render_var e)"
  define T' where "T' = T + (l + 1)"
  define P' where "P' = P + T' - 1"
  have l: "0 < l" "l \<le> 14" using length_render_var[of e] by (auto simp: l_def)
  have j: "j < 90" using Cons.prems(2) by simp
  have T': "T' \<le> 15 * (j + 1)" "2 \<le> T'" using Cons.prems(3) l by (simp_all add: T'_def)
  have jj: "j * (j + 1) \<le> 89 * 90" using j by (intro mult_le_mono) auto
  have P: "P < 65536" using Cons.prems(4) jj by linarith
  have P': "2 * P' \<le> 15 * ((j + 1) * (j + 1 + 1))"
    using Cons.prems(4) T' by (simp add: P'_def algebra_simps)
  have uP: "unat (of_nat P :: u16) = P" using P by (simp add: unat_of_nat take_bit_nat_eq_self)
  have uT: "unat (of_nat T' :: u16) = T'" using T' j by (simp add: unat_of_nat take_bit_nat_eq_self)
  have wT: "(of_nat T + of_nat (l + 1) :: u16) = of_nat T'" by (simp add: T'_def)
  have wP: "(of_nat P + of_nat T' - 1 :: u16) = of_nat P'" using T' by (simp add: P'_def of_nat_diff)
  have z: "(of_nat P :: u16) = 0 \<longleftrightarrow> P = 0"
  proof
    assume "(of_nat P :: u16) = 0"
    then have "unat (of_nat P :: u16) = 0" by (simp only: unat_0)
    then show "P = 0" using uP by (simp only:)
  qed simp
  define old where "old = (if (of_nat P :: u16) = 0 then [] else case msg of None \<Rightarrow> [] | Some m \<Rightarrow> m)"
  have old: "old = acc" using Cons.prems(6) z by (auto simp: old_def)
  have cap: "length old + l + 1 \<le> P + T'" using old Cons.prems(5) by (simp add: T'_def)
  have "dataMsg_loop ((e # vs) @ [t]) (of_nat P) (of_nat T) msg
      = dataMsg_loop (vs @ [t]) (of_nat P') (of_nat T') (Some (acc @ render_var e))"
    using Cons.prems(1) cap
    by (simp only: append_Cons dataMsg_step Let_def wT wP uP uT l_def[symmetric] old_def[symmetric] old)
      (simp add: old)
  also have "\<dots> = Inr (if vs = [] then Some (acc @ render_var e)
      else Some ((acc @ render_var e) @ concat (map render_var vs)))"
    using Cons.prems(1,2,5) T' P' l
    by (intro Cons.IH[where j = "j + 1"]) (auto simp: P'_def T'_def l_def[symmetric])
  finally show ?case by simp
qed

lemma dataStructureMsg_spec:
  assumes "wf_data d" and "length (declared (Some d)) \<le> 90"
  shows "dataStructureMsg (Some d) =
    Inr (if butlast d = [] then None else Some (concat (map render_var (butlast d))))"
  using assms(1)
proof (rule wf_dataE)
  fix vs t
  assume d: "d = vs @ [t]" and "varName t = NUL" and "\<forall>e \<in> set vs. varName e \<noteq> NUL"
  then show ?thesis
    using dataMsg_loop_ok[of t vs 0 0 0 "[]" None] assms(2) by (simp add: dataStructureMsg_def declared_def)
qed

section \<open>The stack section\<close>

definition render_frame :: "t_stack \<Rightarrow> string" where
  "render_frame e = show_nat (unat (linecall e) + 1) @ '','' @ functionName e @ [NL]"

lemma NUL_notin_render_frame: "NUL \<notin> set (functionName e) \<Longrightarrow> NUL \<notin> set (render_frame e)"
  using show_nat_digits isdigit_not_special(4) by (auto simp: render_frame_def)

lemma stackMsg_step:
  "stackMsg_loop (e # es) offset tmp_size msg =
     (let l = length (render_frame e); tmp_size' = tmp_size + of_nat (l + 1)
      in if unat tmp_size' \<le> l + 1 \<and> unat offset \<le> length msg
         then stackMsg_loop es (offset + tmp_size' - 1) tmp_size'
                (take (unat offset) msg @ take (unat tmp_size') (render_frame e @ [NUL]))
         else Inl UB)"
  by (simp only: stackMsg_loop.simps Let_def render_frame_def)

lemma stackStructureMsg_one:
  assumes "NUL \<notin> set (functionName e)" and "length (render_frame e) < 65535"
  shows "stackStructureMsg [e] = Inr (render_frame e)"
proof -
  have "unat (of_nat (length (render_frame e) + 1) :: u16) = length (render_frame e) + 1"
    using assms(2) by (simp add: unat_of_nat take_bit_nat_eq_self del: of_nat_add of_nat_Suc)
  then have "stackMsg_loop [e] 0 0 [] = Inr (render_frame e @ [NUL])"
    by (simp only: stackMsg_step Let_def add_0) simp
  then show ?thesis
    using cstring_append_NUL[OF NUL_notin_render_frame[OF assms(1)], of "[]"]
    by (simp add: stackStructureMsg_def)
qed

text \<open>From the second activation on the copy is as long as all lines so far together.\<close>

lemma stackStructureMsg_two:
  assumes "length (render_frame e) + length (render_frame e') < 65534"
  shows "stackStructureMsg (e # e' # es) = Inl UB"
proof -
  have 1: "unat (of_nat (length (render_frame e) + 1) :: u16) = length (render_frame e) + 1"
    using assms by (simp add: unat_of_nat take_bit_nat_eq_self del: of_nat_add of_nat_Suc)
  have "unat (of_nat (length (render_frame e) + 1) + of_nat (length (render_frame e') + 1) :: u16)
      = unat (of_nat (length (render_frame e) + 1 + (length (render_frame e') + 1)) :: u16)"
    by (simp only: of_nat_add)
  also have "\<dots> = length (render_frame e) + 1 + (length (render_frame e') + 1)"
    using assms by (simp add: unat_of_nat take_bit_nat_eq_self del: of_nat_add of_nat_Suc)
  finally have 2: "unat (of_nat (length (render_frame e) + 1) + of_nat (length (render_frame e') + 1) :: u16)
      = length (render_frame e) + 1 + (length (render_frame e') + 1)" .
  have "stackMsg_loop (e # e' # es) 0 0 [] = Inl UB"
    by (simp only: stackMsg_step Let_def add_0 1 2) simp
  then show ?thesis by (simp add: stackStructureMsg_def)
qed

text \<open>The whole dump of an image with a data segment in order and at most one activation.\<close>

definition frames_text :: "t_stack list \<Rightarrow> string" where
  "frames_text stack = (case stack of [] \<Rightarrow> [] | e # _ \<Rightarrow> render_frame e)"

lemma prepareMessage_spec:
  assumes "piData i = Some d" and "wf_data d" and "declared (Some d) \<noteq> []"
    and "length (declared (Some d)) \<le> 90"
    and "piStack i = [] \<or> (\<exists>e. piStack i = [e] \<and> NUL \<notin> set (functionName e)
           \<and> length (render_frame e) < 65535)"
  shows "\<exists>before mid after. prepareMessage i = Inr
     (before @ ''ID='' @ show_int (pid i) @ [NL] @ ''PC='' @ show_int (int (unat (piPC i)) + 1) @ mid
      @ piCode i @ [NL] @ ''-------------------------'' @ [NL, NL] @ ''- Estructura de Datos ----'' @ [NL]
      @ concat (map render_var (butlast d)) @ [NL] @ ''-------------------------'' @ [NL, NL]
      @ ''- Estructura de Stack ----'' @ [NL] @ frames_text (piStack i) @ after)"
proof -
  have "stackStructureMsg (piStack i) = Inr (frames_text (piStack i))"
    using assms(5) stackStructureMsg_one by (auto simp: stackStructureMsg_def frames_text_def)
  moreover have "butlast d \<noteq> []" using assms(3) by (simp add: declared_def)
  then have "dataStructureMsg (piData i) = Inr (Some (concat (map render_var (butlast d))))"
    using dataStructureMsg_spec[OF assms(2,4)] assms(1) by simp
  ultimately show ?thesis
    unfolding prepareMessage_def Let_def
    by (intro exI[of _ "[NL] @ ''------------------------------------------'' @ [NL, NL]"]
        exI[of _ "[NL, NL] @ ''- Estructura de c'' @ [CHR 0xC3, CHR 0xB3] @ ''digo ----'' @ [NL]"]
        exI[of _ "[NL] @ ''------------------------------------------'' @ [NL, NL]"])
      (simp only: bindE_Inr str_or_null_def option.case append_assoc append_Cons append_Nil)
qed

end
