(* ===== verification/PP_System_Safe.thy ===== *)
theory PP_System_Safe
  imports PP_System_Limits PP_Interp_Live PP_Dump_Spec
begin

text \<open>
  The interpreter inside the server: in every state the server can reach, the image of a process
  whose script is well formed fits it (\<open>typed\<close>), whatever other scripts there are and by whichever
  algorithm it is scheduled; so its dispatch has no undefined behaviour but that of its dump.
\<close>

section \<open>What an execution keeps of its image\<close>

interpretation identity: exec_relation env self "\<lambda>st st'. same_process (img st) (img st')"
proof unfold_locales
  show "post True (\<lambda>(st', call). same_process (img st) (img st')) (main_instr code self line st)" for code line st
    using main_instr_effect[of st code self line] by (rule post_mono) (auto simp: effect_def same_process_def)
  show "post True (\<lambda>(st', call). same_process (img st) (img st')) (func_instr self line PC st)" for line PC st
    using func_instr_effect[of st self line PC] by (rule post_mono) (auto simp: effect_def same_process_def)
qed (auto simp: same_process_def)

lemma execution_same_process:
  "processExecution n code self env st = Inr st' \<Longrightarrow> same_process (img st) (img st')"
  by (rule identity.execution)

section \<open>Images fit their scripts\<close>

definition fits :: "t_ProcessImage \<Rightarrow> bool" where
  "fits i \<longleftrightarrow> (\<forall>code V L. codeSegmentCreator (piCode i) = Inr code \<longrightarrow> wf_code code V L \<longrightarrow> image_ok code V L i)"

definition typed :: "system \<Rightarrow> bool" where
  "typed s \<longleftrightarrow> (\<forall>p i. images s p = Some i \<longrightarrow> fits i)"

lemma fits_new: "fits (new_image fd pd script prio tant)"
  by (auto simp: fits_def image_ok_def new_image_def wf_code_def)

lemma fits_Tspn [simp]: "fits (i\<lparr>Tspn := x\<rparr>) = fits i"
  by (simp add: fits_def image_ok_def)

lemma fits_execution:
  assumes "fits i" and "codeSegmentCreator (piCode i) = Inr code"
    and "processExecution n code p env (dispatch_state i sd) = Inr st"
  shows "fits (img st)"
  unfolding fits_def
proof (intro allI impI)
  fix code' V L
  assume c: "codeSegmentCreator (piCode (img st)) = Inr code'" and wf: "wf_code code' V L"
  have "piCode (img st) = piCode i"
    using execution_same_process[OF assms(3)] by (simp add: same_process_def dispatch_state_def)
  then have code: "code' = code" using c assms(2) by simp
  have "image_ok code V L i" using assms(1,2) wf code by (simp add: fits_def)
  then show "image_ok code' V L (img st)"
    using safe_exec.processExecution_post[of code V L "dispatch_state i sd" n p env] assms(3) wf code
    by (simp add: dispatch_state_def)
qed

lemma typed_keep: "typed s \<Longrightarrow> images s' = images s \<Longrightarrow> typed s'"
  by (simp add: typed_def)

lemma typed_upd: "typed s \<Longrightarrow> fits i \<Longrightarrow> images s' = (images s)(p \<mapsto> i) \<Longrightarrow> typed s'"
  by (auto simp: typed_def)

lemma typed_free: "typed s \<Longrightarrow> images s' = (images s)(p := None) \<Longrightarrow> typed s'"
  by (simp add: typed_def)

lemma run_typed:
  assumes "typed s" and "PROCER_run rnd n env s = Inr s'"
  shows "typed s'"
proof -
  from assms(2) obtain p q i code st where *: "LPL (sts s) = p # q" "images s p = Some i"
      "codeSegmentCreator (piCode i) = Inr code" "processExecution n code p env (dispatch_state i (shd s)) = Inr st"
    and after: "PROCER_after code p ((img st)\<lparr>Tspn := next_Tspn rnd (ALFA s) (Tspn (img st)) (rafaga st)\<rparr>)
      st (s\<lparr>procer := Idle, sts := (sts s)\<lparr>LPL := q\<rparr>\<rparr>) = Inr s'"
    by (cases "LPL (sts s)") (auto simp: PROCER_run_def load_img_def res_simps Let_def split: option.splits)
  define i' where "i' = (img st)\<lparr>Tspn := next_Tspn rnd (ALFA s) (Tspn (img st)) (rafaga st)\<rparr>"
  have "fits i" using assms(1) *(2) by (simp add: typed_def)
  then have "fits i'" using fits_execution[OF _ *(3,4)] by (simp add: i'_def)
  moreover have "images s' = (images s)(p \<mapsto> i') \<or> images s' = (images s)(p := None)"
    using after[folded i'_def] by (auto simp: PROCER_after_def Let_def res_simps split: if_splits)
  ultimately show ?thesis using typed_upd[OF assms(1)] typed_free[OF assms(1)] by blast
qed

lemma new_typed: "typed s \<Longrightarrow> typed (LTSconex_new fd t script prio s)"
  by (cases rule: LTSconex_new_cases[of fd t script prio s])
    (auto simp: admit_new_def intro: typed_keep typed_upd[OF _ fits_new])

lemma step_typed:
  assumes "sys_step rnd s s'" and "typed s"
  shows "typed s'"
  using assms(1)
proof (cases rule: sys_step.cases)
  case (new_script fd t script prio)
  then show ?thesis using new_typed[OF assms(2)] by simp
next
  case (message fd dataIn)
  then show ?thesis by (cases rule: resume_cases) (auto intro: typed_keep[OF assms(2)])
next
  case (flush fd)
  then show ?thesis by (cases rule: LTSconex_out_cases) (auto intro: typed_keep[OF assms(2)])
next
  case admit_wait
  then show ?thesis by (auto simp: LTSnew_claim_def split: if_splits intro: typed_keep[OF assms(2)])
next
  case admit
  then show ?thesis by (auto elim!: move_new_eq intro: typed_keep[OF assms(2)])
next
  case claim
  then show ?thesis by (auto simp: PROCER_claim_def split: if_splits intro: typed_keep[OF assms(2)])
next
  case run
  then show ?thesis using run_typed[OF assms(2)] by blast
next
  case io_start
  then show ?thesis by (auto elim!: io_start_eq intro: typed_keep[OF assms(2)])
next
  case io_finish
  then show ?thesis by (auto elim!: io_finish_eq intro: typed_keep[OF assms(2)])
next
  case (signal m' sig)
  then show ?thesis by (cases sig) (auto simp: signal_handler_def intro: typed_keep[OF assms(2)])
qed (auto intro: typed_keep[OF assms(2)])

interpretation typing: sys_invariant rnd typed
  by unfold_locales (rule step_typed)

lemma main_init_typed: "typed (main_init MPS MMP k alg q st tant alfa qs)"
  by (simp add: typed_def main_init_def)

section \<open>Dispatching a well-formed script\<close>

lemma dataStructureMsg_safe:
  assumes "seg_ok d" and "length (declared d) \<le> 90"
  shows "\<exists>m. dataStructureMsg d = Inr m"
proof (cases d)
  case None
  then show ?thesis by (simp add: dataStructureMsg_def)
next
  case (Some e)
  then show ?thesis using dataStructureMsg_spec[of e] assms by (simp add: seg_ok_def)
qed

lemma prepareMessage_safe:
  assumes "seg_ok (piData i)" and "length (declared (piData i)) \<le> 90" and "piStack i = []"
  shows "\<exists>t. prepareMessage i = Inr t"
proof -
  obtain m where "dataStructureMsg (piData i) = Inr m" using dataStructureMsg_safe[OF assms(1,2)] by blast
  then show ?thesis using assms(3) by (simp add: prepareMessage_def stackStructureMsg_def Let_def)
qed

lemma image_seg_ok: "image_ok code V L i \<Longrightarrow> seg_ok (piData i)"
  by (auto simp: image_ok_def seg_ready_def seg_ok_def split: if_splits option.splits)

text \<open>
  The process can only be stopped by undefined behaviour in its dump: with more than 90 variables,
  or suspended inside a call.
\<close>

lemma after_safe:
  assumes "image_ok code V L i" and "parked i code" and "code_line code (piPC i) = Inr line"
  shows "(\<exists>s'. PROCER_after code p i st s = Inr s') \<or> 90 < length (declared (piData i)) \<or> SUSPEND (sh st) \<and> piStack i \<noteq> []"
proof (cases "90 < length (declared (piData i)) \<or> SUSPEND (sh st) \<and> piStack i \<noteq> []")
  case False
  have "line = ''fin_programa'' \<Longrightarrow> piStack i = []" using assms(2,3) by (auto simp: parked_def)
  moreover have "piStack i = [] \<Longrightarrow> \<exists>t. prepareMessage i = Inr t"
    using prepareMessage_safe[OF image_seg_ok[OF assms(1)]] False by simp
  ultimately show ?thesis using False assms(3) by (cases "prepareMessage i") (auto simp: PROCER_after_def Let_def)
qed simp

text \<open>A dispatch under \<open>FIFO\<close> or \<open>RR\<close>.\<close>

lemma dispatch_safe:
  assumes o: "order_ok s" "typed s" and env: "signal_env env"
    and p: "LPL (sts s) = p # l" "images s p = Some i"
    and wf: "codeSegmentCreator (piCode i) = Inr code" "wf_code code V L"
  shows "PROCER_run rnd n env s \<noteq> Inl UB
    \<or> (\<exists>st. processExecution n code p env (dispatch_state i (shd s)) = Inr st
         \<and> (90 < length (declared (piData (img st))) \<or> SUSPEND (sh st) \<and> piStack (img st) \<noteq> []))"
proof -
  have fit: "image_ok code V L (img (dispatch_state i (shd s)))"
    using o(2) p(2) wf by (auto simp: typed_def fits_def dispatch_state_def)
  have post: "post False (\<lambda>st. image_ok code V L (img st) \<and> exited code st)
      (processExecution n code p env (dispatch_state i (shd s)))"
    using safe_exec.processExecution_post[of code V L "dispatch_state i (shd s)" n p env] fit wf(2) by simp
  show ?thesis
  proof (cases "processExecution n code p env (dispatch_state i (shd s))")
    case (Inl e)
    then show ?thesis using post p wf(1) by (simp add: PROCER_run_def load_img_def)
  next
    case (Inr st)
    define i' where "i' = (img st)\<lparr>Tspn := next_Tspn rnd (ALFA s) (Tspn (img st)) (rafaga st)\<rparr>"
    have ok: "image_ok code V L (img st)" "exited code st" using post Inr by simp_all
    obtain line where line: "code_line code (piPC i') = Inr line"
      using ok(2) by (auto simp: exited_def i'_def split: sum.splits)
    have "parked i code" "0 \<le> quantum (shd s)"
      using o(1) p(2) wf(1) by (auto simp: order_ok_def in_order_def)
    then have "parked (img st) code"
      using execution_summary(3)[OF env Inr] by (simp add: dispatch_state_def)
    then have "parked i' code" by (simp add: parked_def i'_def)
    moreover have "image_ok code V L i'" using ok(1) by (simp add: i'_def image_ok_def)
    moreover have run: "PROCER_run rnd n env s = PROCER_after code p i' st (s\<lparr>procer := Idle, sts := (sts s)\<lparr>LPL := l\<rparr>\<rparr>)"
      using p wf(1) Inr by (simp add: PROCER_run_def load_img_def Let_def i'_def)
    ultimately consider s' where "PROCER_run rnd n env s = Inr s'"
      | "90 < length (declared (piData i')) \<or> SUSPEND (sh st) \<and> piStack i' \<noteq> []"
      using after_safe[OF _ _ line] by metis
    then show ?thesis using Inr by cases (auto simp: i'_def)
  qed
qed

end
