(* ===== verification/PI_Props.thy ===== *)
theory PI_Props
  imports PI_Client
begin

text \<open>
  Properties of the client: the conversation with the server from the files it reads to what both
  sides have seen, and what it makes of a script file that is not in order.
\<close>

section \<open>Starting the client\<close>

text \<open>The configuration has what the client needs, and arguments and environment give a path.\<close>

definition client_setup :: "string \<Rightarrow> string list \<Rightarrow> string list \<Rightarrow> string \<Rightarrow> s32 \<Rightarrow> u16 \<Rightarrow> bool" where
  "client_setup conf argv envp p prio port \<longleftrightarrow>
     config_ok conf \<and> length argv \<in> {2, 3} \<and>
     (\<exists>v. lookup_line conf ''prioridad_PRI'' = Some v \<and> prio = (if length argv = 3 then atoi (argv ! 2) else atoi v)) \<and>
     (\<exists>v. lookup_line conf ''PP_Puerto'' = Some v \<and> port = ucast (atoi v)) \<and>
     (\<exists>e. find (\<lambda>e. string_starts_with e ''PWD'') envp = Some e \<and> 4 \<le> length e \<and> p = drop 4 e @ ''/'' @ argv ! 1)"

lemma client_main_start:
  assumes "client_setup conf argv envp p prio port"
  shows "client_main (Some conf) fs net argv envp typed =
    bindE (mapScript (fs p)) (\<lambda>script.
      if hd script = CHR 0xFF then
        Inr (EXIT_FAILURE, client_logERROR ''Error al mapear el script a memoria'' (first_client typed))
      else let c1 = client_logINFO (config_line (lookup_line conf ''PP_IP'') port prio) (first_client typed)
        in case net (lookup_line conf ''PP_IP'') port of
             None \<Rightarrow> Inr (EXIT_FAILURE,
               client_logERROR ''Error creando descriptor de socket o conectado al servidor'' c1)
           | Some s \<Rightarrow> client_session script prio (c1\<lparr>connection := s\<rparr>))"
proof -
  obtain v w e where *: "config_ok conf" "length argv \<in> {2, 3}" "lookup_line conf ''prioridad_PRI'' = Some v"
    "prio = (if length argv = 3 then atoi (argv ! 2) else atoi v)" "lookup_line conf ''PP_Puerto'' = Some w"
    "port = ucast (atoi w)" "find (\<lambda>e. string_starts_with e ''PWD'') envp = Some e" "4 \<le> length e"
    "p = drop 4 e @ ''/'' @ argv ! 1"
    using assms unfolding client_setup_def by blast
  obtain cfg where cfg: "config_create ''./pi.config'' (Some conf) = Inr cfg"
    "config_get_string_value cfg k = lookup_line conf k" for k
    using config_create_spec[OF *(1), of "''./pi.config''"] by auto
  have a: "obtenerPathDelScript argv envp = Inr p"
    using *(2,7-9) by (auto simp: obtenerPathDelScript_def)
  show ?thesis unfolding client_main_def Let_def cfg(1) a bindE_Inr config_get_int_value_def cfg(2) *(3,5) option.case
    using *(2,4,6) by auto
qed

section \<open>The conversation\<close>

text \<open>What the client shows and sends in a session.\<close>

lemma client_bytes:
  assumes start: "client_setup conf argv envp p prio port"
    and script: "fs p = Some f" "f \<noteq> []" "NUL \<notin> set f" "hd f \<noteq> CHR 0xFF" "length f mod 4096 \<noteq> 0" "length f \<le> 65527"
    and answers: "short_message d" "ds_type d \<noteq> CHR ''F''"
      "\<forall>d \<in> set ms. short_message d \<and> ds_type d \<noteq> CHR ''T''" "short_message l" "ds_type l = CHR ''T''"
    and net: "net (lookup_line conf ''PP_IP'') port = Some \<lparr>rx = ''!'' @ plain_format.wire (d # ms @ [l]),
      arrivals = Avail 1 # replicate (2 * length (d # ms @ [l])) (Avail 65535), tx = [],
      acceptances = Accept 1 # Accept 65535 # replicate (resumes ms) (Accept 12)\<rparr>"
  shows "\<exists>c. client_main (Some conf) fs net argv envp typed = Inr (EXIT_SUCCESS, c)
    \<and> console c = cstring (ds_data d) # concat (map shown (ms @ [l])) \<and> closes c = 1
    \<and> tx (connection c) = ''#'' @ script_format.wire [(script_message f, prio)] @
        plain_format.wire (replicate (resumes ms) reanudar)"
proof -
  obtain m where m: "mapScript (Some f) = Inr m" using script(2) by (simp add: mapScript_def)
  let ?c = "client_logINFO (config_line (lookup_line conf ''PP_IP'') port prio) (first_client typed)"
  let ?s = "\<lparr>rx = ''!'' @ plain_format.wire (d # ms @ [l]),
      arrivals = Avail 1 # replicate (2 * length (d # ms @ [l])) (Avail 65535), tx = [],
      acceptances = Accept 1 # Accept 65535 # replicate (resumes ms) (Accept 12)\<rparr>"
  have hd: "hd m \<noteq> CHR 0xFF" using mapped_hd[OF m] script(4) by simp
  have main: "client_main (Some conf) fs net argv envp typed = client_session m prio (?c\<lparr>connection := ?s\<rparr>)"
    unfolding client_main_start[OF start] script(1) m net using hd by (simp add: Let_def)
  obtain c where c: "client_session m prio (?c\<lparr>connection := ?s\<rparr>) = Inr (EXIT_SUCCESS, c)" "closes c = 1"
    "tx (connection c) = ''#'' @ script_format.wire [(script_message f, prio)] @
        plain_format.wire (replicate (resumes ms) reanudar)"
    "console c = cstring (ds_data d) # concat (map shown (ms @ [l]))"
    using client_session_spec[of "?c\<lparr>connection := ?s\<rparr>" d ms l "[]" "[]" "[]" m f prio]
      mapped_strlen(1)[OF m script(3,5)] script(3,6) answers
    by (auto simp: client_logINFO_def first_client_def)
  then show ?thesis using main by auto
qed

text \<open>C13. A session in order: the client connects, the server takes its script with its priority and
  answers, and then sends any messages up to the one that ends the process. The client terminates
  successfully, it has shown every message in its order, and what it has sent is, for the server, the
  handshake, the script without a character more or less, the priority, and one \<open>R\<close> for every
  suspension.\<close>

theorem client_conversation:
  assumes start: "client_setup conf argv envp p prio port"
    and script: "fs p = Some f" "f \<noteq> []" "NUL \<notin> set f" "hd f \<noteq> CHR 0xFF" "length f mod 4096 \<noteq> 0" "length f \<le> 65527"
    and answers: "short_message d" "ds_type d \<noteq> CHR ''F''"
      "\<forall>d \<in> set ms. short_message d \<and> ds_type d \<noteq> CHR ''T''" "short_message l" "ds_type l = CHR ''T''"
    and net: "net (lookup_line conf ''PP_IP'') port = Some \<lparr>rx = ''!'' @ plain_format.wire (d # ms @ [l]),
      arrivals = Avail 1 # replicate (2 * length (d # ms @ [l])) (Avail 65535), tx = [],
      acceptances = Accept 1 # Accept 65535 # replicate (resumes ms) (Accept 12)\<rparr>"
    and server: "arrivals srv = Avail 1 # replicate (2 + 2 * resumes ms) (Avail 65535)" "acceptances srv = [Accept 1]"
  shows "\<exists>c. client_main (Some conf) fs net argv envp typed = Inr (EXIT_SUCCESS, c)
    \<and> console c = cstring (ds_data d) # concat (map shown (ms @ [l])) \<and> closes c = 1
    \<and> (\<exists>s1 s2 s3. makeHandshake (srv\<lparr>rx := tx (connection c)\<rparr>) = Inr (True, s1)
         \<and> readStreamPri s1 = Inr (Some (\<lparr>ds_type = CHR ''N'', ds_data = f @ [NUL]\<rparr>, prio), s2)
         \<and> plain_format.read_all (resumes ms) s2 = Inr (replicate (resumes ms) reanudar, s3) \<and> rx s3 = [])"
proof -
  obtain c where c: "client_main (Some conf) fs net argv envp typed = Inr (EXIT_SUCCESS, c)" "closes c = 1"
    "tx (connection c) = ''#'' @ script_format.wire [(script_message f, prio)] @
        plain_format.wire (replicate (resumes ms) reanudar)"
    "console c = cstring (ds_data d) # concat (map shown (ms @ [l]))"
    using client_bytes[of conf argv envp p prio port fs f d ms l net typed, OF start script answers] net by blast
  have "short_script (script_message f, prio)"
    using script(3,6) by (auto simp: short_script_def text_message_def script_message_def)
  moreover have "\<forall>r \<in> set (replicate (resumes ms) reanudar). short_message r"
    by (auto simp: short_message_def text_message_def reanudar_def)
  ultimately show ?thesis using server_reads[of "(script_message f, prio)" "replicate (resumes ms) reanudar"
      "srv\<lparr>rx := tx (connection c)\<rparr>" "[]" "[]"] server c
    by (auto simp: script_message_def)
qed

definition demo_conf :: string where
  "demo_conf = ''prioridad_PRI=5'' @ [NL] @ ''PP_Puerto=80''"

definition text_of :: "char \<Rightarrow> string \<Rightarrow> t_data_stream" where
  "text_of t msg = \<lparr>ds_type = t, ds_data = msg @ [NUL]\<rparr>"

lemma demo_setup: "client_setup demo_conf [''pi'', ''s''] [''A=1'', ''PWD=/h''] ''/h/s'' 5 80"
proof -
  have l: "config_lines demo_conf = [''prioridad_PRI=5'', ''PP_Puerto=80'']" by code_simp
  have 1: "lookup_line demo_conf ''prioridad_PRI'' = Some ''5''" by code_simp
  have 2: "lookup_line demo_conf ''PP_Puerto'' = Some ''80''" by code_simp
  have 3: "find (\<lambda>e. string_starts_with e ''PWD'') [''A=1'', ''PWD=/h''] = Some ''PWD=/h''"
    by (simp add: string_starts_with_def)
  have 4: "atoi ''5'' = 5" "atoi ''80'' = 80" by code_simp+
  have "config_ok demo_conf" unfolding config_ok_def l by simp
  then show ?thesis using 3 4 unfolding client_setup_def 1 2 by simp
qed

lemma client_conversation_witness:
  "\<exists>net srv c. client_main (Some demo_conf) (\<lambda>p. if p = ''/h/s'' then Some ''a=1'' else None) net
      [''pi'', ''s''] [''A=1'', ''PWD=/h''] [NL] = Inr (EXIT_SUCCESS, c)
    \<and> console c = [''ok'', ''quieto'', press_enter, ''Reanudado'', ''fin'', finalizo]
    \<and> (\<exists>s1 s2. makeHandshake (srv\<lparr>rx := tx (connection c)\<rparr>) = Inr (True, s1)
         \<and> readStreamPri s1 = Inr (Some (\<lparr>ds_type = CHR ''N'', ds_data = ''a=1'' @ [NUL]\<rparr>, 5), s2))"
proof -
  let ?ms = "[text_of (CHR ''S'') ''quieto'']" and ?l = "text_of (CHR ''T'') ''fin'' "
    and ?d = "text_of NUL ''ok''"
  let ?net = "\<lambda>_ _. Some \<lparr>rx = ''!'' @ plain_format.wire (?d # ?ms @ [?l]),
      arrivals = Avail 1 # replicate (2 * length (?d # ?ms @ [?l])) (Avail 65535), tx = [],
      acceptances = Accept 1 # Accept 65535 # replicate (resumes ?ms) (Accept 12)\<rparr>"
  let ?srv = "\<lparr>rx = [], arrivals = Avail 1 # replicate (2 + 2 * resumes ?ms) (Avail 65535), tx = [],
      acceptances = [Accept 1]\<rparr>"
  have m: "short_message ?d" "short_message ?l" "\<forall>d \<in> set ?ms. short_message d \<and> ds_type d \<noteq> CHR ''T''"
    "ds_type ?d \<noteq> CHR ''F''" "ds_type ?l = CHR ''T''"
    by (auto simp: text_of_def short_message_def text_message_def)
  have sh: "cstring (ds_data ?d) # concat (map shown (?ms @ [?l])) = [''ok'', ''quieto'', press_enter, ''Reanudado'', ''fin'', finalizo]"
    by (simp add: text_of_def shown_def cstring_def)
  let ?fs = "\<lambda>p. if p = ''/h/s'' then Some ''a=1'' else None"
  have f: "?fs ''/h/s'' = Some ''a=1''" "''a=1'' \<noteq> []" "NUL \<notin> set ''a=1''" "hd ''a=1'' \<noteq> CHR 0xFF"
    "length ''a=1'' mod 4096 \<noteq> 0" "length ''a=1'' \<le> 65527"
    by simp_all
  have "\<exists>c. client_main (Some demo_conf) ?fs ?net [''pi'', ''s''] [''A=1'', ''PWD=/h''] [NL] = Inr (EXIT_SUCCESS, c)
      \<and> console c = cstring (ds_data ?d) # concat (map shown (?ms @ [?l])) \<and> closes c = 1
      \<and> (\<exists>s1 s2 s3. makeHandshake (?srv\<lparr>rx := tx (connection c)\<rparr>) = Inr (True, s1)
         \<and> readStreamPri s1 = Inr (Some (\<lparr>ds_type = CHR ''N'', ds_data = ''a=1'' @ [NUL]\<rparr>, 5), s2)
         \<and> plain_format.read_all (resumes ?ms) s2 = Inr (replicate (resumes ?ms) reanudar, s3) \<and> rx s3 = [])"
    by (rule client_conversation[of demo_conf "[''pi'', ''s'']" "[''A=1'', ''PWD=/h'']" "''/h/s''" 5 80 ?fs
          "''a=1''" ?d ?ms ?l ?net ?srv "[NL]"]) (rule demo_setup f m refl | simp)+
  then show ?thesis unfolding sh by blast
qed

section \<open>Script files\<close>

text \<open>C29. What the client makes of a script file that is not in order. A missing or empty file: the address
  \<open>mmap\<close> fails with is followed. A first byte 255 is taken for that failure, and the client gives up.
  A file that fills its last page, or one of more than 65527 characters, is read or written beyond
  its buffer as soon as the server has accepted the connection.\<close>

theorem script_file_errors:
  assumes start: "client_setup conf argv envp p prio port"
  shows "(fs p = None \<or> fs p = Some [] \<longrightarrow> client_main (Some conf) fs net argv envp typed = Inl UB)
    \<and> (fs p = Some f \<and> f \<noteq> [] \<and> hd f = CHR 0xFF \<longrightarrow>
         client_main (Some conf) fs net argv envp typed = Inr (EXIT_FAILURE,
           client_logERROR ''Error al mapear el script a memoria'' (first_client typed)))
    \<and> (fs p = Some f \<and> f \<noteq> [] \<and> hd f \<noteq> CHR 0xFF \<and> NUL \<notin> set f \<and> (length f mod 4096 = 0 \<or> 65527 < length f)
         \<and> net (lookup_line conf ''PP_IP'') port = Some s \<and> client_makeHandshake s = Inr (True, s') \<longrightarrow>
         client_main (Some conf) fs net argv envp typed = Inl UB)"
proof (intro conjI impI)
  show "client_main (Some conf) fs net argv envp typed = Inl UB" if "fs p = None \<or> fs p = Some []"
    using that unfolding client_main_start[OF start] by (auto simp: mapScript_def)
  obtain m where m: "mapScript (Some f) = Inr m" if "f \<noteq> []" by (simp add: mapScript_def)
  show "client_main (Some conf) fs net argv envp typed = Inr (EXIT_FAILURE,
      client_logERROR ''Error al mapear el script a memoria'' (first_client typed))"
    if "fs p = Some f \<and> f \<noteq> [] \<and> hd f = CHR 0xFF"
    using that m mapped_hd[OF m] unfolding client_main_start[OF start] by simp
  show "client_main (Some conf) fs net argv envp typed = Inl UB"
    if c: "fs p = Some f \<and> f \<noteq> [] \<and> hd f \<noteq> CHR 0xFF \<and> NUL \<notin> set f \<and> (length f mod 4096 = 0 \<or> 65527 < length f)
      \<and> net (lookup_line conf ''PP_IP'') port = Some s \<and> client_makeHandshake s = Inr (True, s')"
  proof -
    have "serializationPri \<lparr>ds_type = CHR ''N'', ds_data = m\<rparr> prio = Inl UB"
      using mapped_strlen[OF m] c serializationPri_overflow[of "\<lparr>ds_type = CHR ''N'', ds_data = m\<rparr>" "length f"]
      by (cases "length f mod 4096 = 0") (auto simp: serializationPri_def)
    then show ?thesis using c m mapped_hd[OF m] unfolding client_main_start[OF start]
      by (simp add: client_session_def client_effects writeStreamPri_def Let_def)
  qed
qed

lemma script_file_errors_witness:
  "client_main (Some demo_conf) (\<lambda>_. None) (\<lambda>_ _. None) [''pi'', ''s''] [''A=1'', ''PWD=/h''] [] = Inl UB
   \<and> client_main (Some demo_conf) (\<lambda>_. Some (replicate 4096 CHR ''a''))
       (\<lambda>_ _. Some \<lparr>rx = ''!'', arrivals = [Avail 1], tx = [], acceptances = [Accept 1]\<rparr>)
       [''pi'', ''s''] [''A=1'', ''PWD=/h''] [] = Inl UB"
proof -
  have h: "client_makeHandshake \<lparr>rx = ''!'', arrivals = [Avail 1], tx = [], acceptances = [Accept 1]\<rparr>
      = Inr (True, \<lparr>rx = [], arrivals = [], tx = ''#'', acceptances = []\<rparr>)"
    using handshake_accepted[of "\<lparr>rx = ''!'', arrivals = [Avail 1], tx = [], acceptances = [Accept 1]\<rparr>" "[]" "[]" "[]"]
    by simp
  show ?thesis
    using script_file_errors[OF demo_setup, of "\<lambda>_. None"] h
      script_file_errors[OF demo_setup, of "\<lambda>_. Some (replicate 4096 CHR ''a'')" _ _ "replicate 4096 CHR ''a''"]
    by (auto simp: hd_replicate)
qed

end
