(* ===== verification/PP_Served.thy ===== *)
theory PP_Served
  imports PP_LTS PP_System_Safe PI_Props
begin

text \<open>
  From end to end: a client's script on its way through an empty server that runs \<open>FIFO\<close> or \<open>RR\<close>, from the
  connection to the last message, and what the client makes of it.
\<close>

section \<open>An empty server\<close>

lemma empty_server:
  assumes "order_ok s" and "images s = Map.empty"
  shows "procer s = Idle" "LPL (sts s) = []" "LPL_empty (sts s) = 0"
    "\<And>c. c \<in> {5, 6, 7, 8} \<Longrightarrow> source_queue c (sts s) = []" "\<And>c. c \<in> {5, 6, 7, 8} \<Longrightarrow> source_sem c (sts s) = 0"
    "STS_in_empty (sts s) = 0"
proof -
  have o: "owns s" "sems s" using assms(1) by (simp_all add: order_ok_def)
  then have p: "placed s = []" using assms(2) by (simp add: owns_def)
  then have q: "LPN (sts s) = []" "LPR (sts s) = []" "LFIO (sts s) = []" "LFQ (sts s) = []" "LPL (sts s) = []"
    by (simp_all add: placed_def sts_processes_def)
  have "procer s \<noteq> Claimed" using o(2) q(5) by (auto simp: sems_def sts_sems_def)
  then show idle: "procer s = Idle" by (rule procer_phases)
  show "LPL (sts s) = []" by (rule q(5))
  show "LPL_empty (sts s) = 0" "STS_in_empty (sts s) = 0" using o(2) q by (simp_all add: sems_def sts_sems_def)
  show sq: "source_queue c (sts s) = []" if "c \<in> {5, 6, 7, 8}" for c
    using that q by (auto simp: source_get_def)
  show "source_sem c (sts s) = 0" if "c \<in> {5, 6, 7, 8}" for c
    using source_counted[OF o(2) that] sq[OF that] by simp
qed

section \<open>One process alone\<close>

text \<open>The state after the scheduler has moved the new process, and \<open>PROCER\<close> has claimed it.\<close>

definition ready_one :: "int \<Rightarrow> string \<Rightarrow> s32 \<Rightarrow> system \<Rightarrow> system" where
  "ready_one fd f prio s = s\<lparr>MPS_sem := MPS_sem s - 1, MMP_sem := MMP_sem s - 1,
     next_addr := next_addr s + 1, next_pid := next_pid s + 1,
     images := (images s)(next_addr s \<mapsto> new_image fd (next_pid s) f prio (TANT s)),
     sts := (sts s)\<lparr>LPN := [], LPN_empty := 0, STS_in_empty := 0, LPL := [next_addr s], LPL_empty := 0\<rparr>,
     procer := Claimed, outbox := outbox s @ [answer fd s]\<rparr>"

lemma ready_one_steps:
  assumes o: "order_ok s" and e: "images s = Map.empty" and m: "0 < MPS_sem s" "0 < MMP_sem s"
  shows "sys_steps rnd (LTSconex_new fd (CHR ''N'') f prio s) (ready_one fd f prio s)"
proof -
  note empty = empty_server[OF o e]
  have alg: "strSwitch (ALG (shd s)) \<in> {1, 2}" using o by (simp add: order_ok_def in_order_def)
  have q5: "LPN (sts s) = []" "LPN_empty (sts s) = 0" using empty(4,5)[of 5] by (simp_all add: source_get_def)
  define p where "p = next_addr s"
  define s1 where "s1 = LTSconex_new fd (CHR ''N'') f prio s"
  have s1: "s1 = s\<lparr>MPS_sem := MPS_sem s - 1, MMP_sem := MMP_sem s - 1, next_addr := next_addr s + 1,
      next_pid := next_pid s + 1, images := (images s)(p \<mapsto> new_image fd (next_pid s) f prio (TANT s)),
      sts := (sts s)\<lparr>LPN := [p], LPN_empty := 1, STS_in_empty := 1\<rparr>, outbox := outbox s @ [answer fd s]\<rparr>"
    using m q5 empty(6)
    by (simp add: s1_def LTSconex_new_def write_client_def answer_def enqueue_source_def source_get_def source_put_def
        p_def Let_def)
  define a where "a = (sts s)\<lparr>LPN := [], LPN_empty := 0, STS_in_empty := 0, LPL := [p], LPL_empty := 1\<rparr>"
  have take: "STS_take (images s1) 5 (sts s1) = Inr a"
    using empty(2,3) by (simp add: s1 STS_take_def source_get_def source_put_def load_img_def push_LPL_def a_def)
  have 1: "sys_step rnd s1 (s1\<lparr>sts := a\<rparr>)"
    by (rule sys_step.take_one[of s1 5]) (use take alg in \<open>simp_all add: s1 source_get_def\<close>)
  have "PROCER_claim (s1\<lparr>sts := a\<rparr>) = Some (ready_one fd f prio s)"
    using empty(1) by (simp add: PROCER_claim_def s1 a_def ready_one_def p_def)
  then have 2: "sys_step rnd (s1\<lparr>sts := a\<rparr>) (ready_one fd f prio s)" by (rule sys_step.claim)
  show ?thesis using 1 2 unfolding s1_def[symmetric] by auto
qed

text \<open>Its execution up to the last line, and the messages it leaves.\<close>

definition msg_to :: "int \<Rightarrow> char \<Rightarrow> string \<Rightarrow> t_msg" where
  "msg_to fd t x = \<lparr>msg_fd = fd, msg_type = t, msg_text = x\<rparr>"

definition runs_alone ::
  "(rat \<Rightarrow> rat) \<Rightarrow> int \<Rightarrow> string \<Rightarrow> s32 \<Rightarrow> system \<Rightarrow> string list \<Rightarrow> string \<Rightarrow> bool" where
  "runs_alone rnd fd f prio s ts dump \<longleftrightarrow>
     (\<exists>code n st. codeSegmentCreator f = Inr code
      \<and> processExecution n code (next_addr s) (\<lambda>_ sd. sd)
          (dispatch_state (new_image fd (next_pid s) f prio (TANT s)) (shd s)) = Inr st
      \<and> code_line code (piPC (img st)) = Inr ''fin_programa''
      \<and> sendingList (sh st) = sendingList (shd s) @ map (msg_to fd (CHR ''N'')) ts
      \<and> prepareMessage ((img st)\<lparr>Tspn := next_Tspn rnd (ALFA s) (Tspn (img st)) (rafaga st)\<rparr>) = Inr dump)"

lemma run_alone:
  assumes o: "order_ok s" and e: "images s = Map.empty" and m: "0 < MPS_sem s" "0 < MMP_sem s"
    and r: "runs_alone rnd fd f prio s ts dump"
  shows "\<exists>s'. sys_step rnd (ready_one fd f prio s) s' \<and> images s' = Map.empty
    \<and> MPS_sem s' = MPS_sem s \<and> MMP_sem s' = MMP_sem s \<and> outbox s' = outbox s @ [answer fd s]
    \<and> sendingList (shd s') = sendingList (shd s) @ map (msg_to fd (CHR ''N'')) ts @ [msg_to fd (CHR ''T'') dump]"
proof -
  define i where "i = new_image fd (next_pid s) f prio (TANT s)"
  obtain code n st where x: "codeSegmentCreator f = Inr code"
      "processExecution n code (next_addr s) (\<lambda>_ sd. sd) (dispatch_state i (shd s)) = Inr st"
      "code_line code (piPC (img st)) = Inr ''fin_programa''"
      "sendingList (sh st) = sendingList (shd s) @ map (msg_to fd (CHR ''N'')) ts"
      "prepareMessage ((img st)\<lparr>Tspn := next_Tspn rnd (ALFA s) (Tspn (img st)) (rafaga st)\<rparr>) = Inr dump"
    using r unfolding runs_alone_def i_def by blast
  let ?r = "ready_one fd f prio s" and ?p = "next_addr s"
  have fd: "clientfd (img st) = fd"
    using execution_same_process[OF x(2)] by (simp add: same_process_def dispatch_state_def i_def new_image_def)
  have r1: "LPL (sts ?r) = [?p]" "images ?r ?p = Some i" "shd ?r = shd s" "ALFA ?r = ALFA s" "procer ?r = Claimed"
    "piCode i = f" "MPS_sem ?r = MPS_sem s - 1" "MMP_sem ?r = MMP_sem s - 1" "outbox ?r = outbox s @ [answer fd s]"
    "(images ?r)(?p := None) = Map.empty"
    using e by (auto simp: ready_one_def i_def new_image_def)
  obtain s' where s': "PROCER_run rnd n (\<lambda>_ sd. sd) ?r = Inr s'" "images s' = (images ?r)(?p := None)"
    "MPS_sem s' = MPS_sem ?r + 1" "MMP_sem s' = MMP_sem ?r + 1" "outbox s' = outbox ?r"
    "sendingList (shd s') = sendingList (sh st) @ [msg_to fd (CHR ''T'') dump]"
    using x fd r1(1-4,6)
    by (simp add: PROCER_run_def load_img_def PROCER_after_def Let_def send_list_def ls_add_def msg_to_def)
  have "sys_step rnd ?r s'" using r1(5) s'(1) by (intro sys_step.run[where env = "\<lambda>_ sd. sd"]) (simp_all add: signal_env_def)
  then show ?thesis using s' x(4) r1 m by (intro exI[of _ s']) simp
qed

section \<open>The messages of a client\<close>

lemma lts_others: "sys_steps rnd s s' \<Longrightarrow> srv l = s \<Longrightarrow> (lts_step rnd serverfd)\<^sup>*\<^sup>* l (l\<lparr>srv := s'\<rparr>)"
proof (induction rule: rtranclp_induct)
  case (step s1 s2)
  from step.hyps(2) have "lts_step rnd serverfd (l\<lparr>srv := s1\<rparr>) ((l\<lparr>srv := s1\<rparr>)\<lparr>srv := s2\<rparr>)"
    by (intro lts_step.other) simp
  then show ?case using step.IH[OF step.prems] by simp
next
  case base
  then show ?case by (cases l) simp
qed

lemma lts_event: "LTSconex_event serverfd accepted ev l = Inr l' \<Longrightarrow> (lts_step rnd serverfd)\<^sup>*\<^sup>* l l'"
  by (blast intro: lts_step.event)

text \<open>Every event of a socket that takes output sends one message, in their order.\<close>

lemma flush_all:
  assumes "\<forall>m \<in> set ms. sendable m \<and> msg_fd m = fd" and "\<forall>x \<in> set a. msg_fd x \<noteq> fd"
    and "sendingList (shd (srv l)) = a @ ms" and "socks l fd = Some sk"
    and "acceptances sk = replicate (length ms) (Accept 65535) @ acc"
  shows "\<exists>l'. (lts_step rnd serverfd)\<^sup>*\<^sup>* l l' \<and> socks l' = (socks l)(fd \<mapsto>
      sk\<lparr>acceptances := acc, tx := tx sk @ plain_format.wire (map stream_of ms)\<rparr>)
    \<and> images (srv l') = images (srv l) \<and> MPS_sem (srv l') = MPS_sem (srv l) \<and> MMP_sem (srv l') = MMP_sem (srv l)
    \<and> outbox (srv l') = outbox (srv l) @ ms \<and> sendingList (shd (srv l')) = a"
  using assms
proof (induction ms arbitrary: l sk)
  case Nil
  then show ?case by (intro exI[of _ l]) (simp add: plain_format.wire_def fun_upd_idem)
next
  case (Cons m ms)
  let ?ev = "\<lparr>event_fd = fd, events = EPOLLOUT\<rparr>"
  let ?sk = "sk\<lparr>acceptances := replicate (length ms) (Accept 65535) @ acc, tx := tx sk @ plain_format.wire [stream_of m]\<rparr>"
  let ?l = "\<lparr>srv = (srv l)\<lparr>shd := (shd (srv l))\<lparr>sendingList := a @ ms\<rparr>, outbox := outbox (srv l) @ [m]\<rparr>,
    socks = (socks l)(fd \<mapsto> ?sk)\<rparr>"
  have "client_message_out fd l = Inr ?l"
    using Cons.prems by (intro message_out_first) auto
  moreover have "\<not> has ?ev EPOLLERR" "\<not> has ?ev EPOLLHUP" "\<not> has ?ev EPOLLRDHUP" "\<not> has ?ev EPOLLIN"
    by (simp_all add: has_def epoll_masks)
  ultimately have "LTSconex_event serverfd None ?ev l = Inr ?l" by (simp add: LTSconex_event_def)
  note first = lts_event[OF this, of rnd]
  have "\<exists>l'. (lts_step rnd serverfd)\<^sup>*\<^sup>* ?l l' \<and> socks l' = (socks ?l)(fd \<mapsto>
      ?sk\<lparr>acceptances := acc, tx := tx ?sk @ plain_format.wire (map stream_of ms)\<rparr>)
    \<and> images (srv l') = images (srv ?l) \<and> MPS_sem (srv l') = MPS_sem (srv ?l) \<and> MMP_sem (srv l') = MMP_sem (srv ?l)
      \<and> outbox (srv l') = outbox (srv ?l) @ ms \<and> sendingList (shd (srv l')) = a"
    by (rule Cons.IH) (use Cons.prems in simp_all)
  then obtain l' where l': "(lts_step rnd serverfd)\<^sup>*\<^sup>* ?l l'" "socks l' = (socks ?l)(fd \<mapsto>
      ?sk\<lparr>acceptances := acc, tx := tx ?sk @ plain_format.wire (map stream_of ms)\<rparr>)"
    "images (srv l') = images (srv ?l) \<and> MPS_sem (srv l') = MPS_sem (srv ?l) \<and> MMP_sem (srv l') = MMP_sem (srv ?l)
      \<and> outbox (srv l') = outbox (srv ?l) @ ms \<and> sendingList (shd (srv l')) = a"
    by blast
  show ?case using rtranclp_trans[OF first l'(1)] l'(2,3)
    by (intro exI[of _ l']) (simp add: plain_format.wire_def)
qed

section \<open>From the connection to the last message\<close>

lemma served:
  assumes o: "order_ok (srv l)" and e: "images (srv l) = Map.empty" and m: "0 < MPS_sem (srv l)" "0 < MMP_sem (srv l)"
    and r: "runs_alone rnd fd f prio (srv l) ts dump"
    and mine: "\<forall>x \<in> set (sendingList (shd (srv l))). msg_fd x \<noteq> fd"
    and texts: "\<forall>x \<in> set (dump # ts). NUL \<notin> set x \<and> length x \<le> 65531"
    and g: "greets f prio sk [] as (replicate (length ts + 1) (Accept 65535))" and tx: "tx sk = []"
  shows "\<exists>l1 l' sk'. LTSconex_event serverfd (Some (fd, sk)) \<lparr>event_fd = serverfd, events = EPOLLIN\<rparr> l = Inr l1
    \<and> (lts_step rnd serverfd)\<^sup>*\<^sup>* l1 l' \<and> socks l' fd = Some sk' \<and> images (srv l') = Map.empty
    \<and> MPS_sem (srv l') = MPS_sem (srv l) \<and> MMP_sem (srv l') = MMP_sem (srv l)
    \<and> tx sk' = ''!'' @ plain_format.wire (map stream_of
        (answer fd (srv l) # map (msg_to fd (CHR ''N'')) ts @ [msg_to fd (CHR ''T'') dump]))"
proof -
  let ?s = "srv l" and ?ms = "map (msg_to fd (CHR ''N'')) ts @ [msg_to fd (CHR ''T'') dump]"
  define sk1 where "sk1 = sk\<lparr>rx := [], arrivals := as, acceptances := replicate (length ts + 1) (Accept 65535),
      tx := ''!'' @ plain_format.wire [stream_of (answer fd ?s)]\<rparr>"
  define l1 where "l1 = \<lparr>srv = LTSconex_new fd (CHR ''N'') f prio ?s, socks = (socks l)(fd \<mapsto> sk1)\<rparr>"
  have "accept_client (Some (fd, sk)) l = Inr l1"
    using accept_script[OF g m(1), of fd] tx by (simp add: l1_def sk1_def)
  then have 1: "LTSconex_event serverfd (Some (fd, sk)) \<lparr>event_fd = serverfd, events = EPOLLIN\<rparr> l = Inr l1"
    by (simp add: LTSconex_event_def has_def epoll_masks)
  obtain s' where s': "sys_step rnd (ready_one fd f prio ?s) s'" "images s' = Map.empty" "MPS_sem s' = MPS_sem ?s"
    "MMP_sem s' = MMP_sem ?s" "sendingList (shd s') = sendingList (shd ?s) @ ?ms"
    using run_alone[OF o e m r] by auto
  have "sys_steps rnd (srv l1) s'" using ready_one_steps[OF o e m, of rnd fd f prio] s'(1) by (simp add: l1_def)
  from lts_others[OF this refl] have 2: "(lts_step rnd serverfd)\<^sup>*\<^sup>* l1 (l1\<lparr>srv := s'\<rparr>)" .
  have "\<exists>l'. (lts_step rnd serverfd)\<^sup>*\<^sup>* (l1\<lparr>srv := s'\<rparr>) l' \<and> socks l' = (socks (l1\<lparr>srv := s'\<rparr>))(fd \<mapsto>
      sk1\<lparr>acceptances := [], tx := tx sk1 @ plain_format.wire (map stream_of ?ms)\<rparr>)
    \<and> images (srv l') = images (srv (l1\<lparr>srv := s'\<rparr>)) \<and> MPS_sem (srv l') = MPS_sem (srv (l1\<lparr>srv := s'\<rparr>))
    \<and> MMP_sem (srv l') = MMP_sem (srv (l1\<lparr>srv := s'\<rparr>))
    \<and> outbox (srv l') = outbox (srv (l1\<lparr>srv := s'\<rparr>)) @ ?ms \<and> sendingList (shd (srv l')) = sendingList (shd ?s)"
    by (rule flush_all) (use texts mine s' in \<open>auto simp: sendable_def msg_to_def l1_def sk1_def\<close>)
  then obtain l' where 3: "(lts_step rnd serverfd)\<^sup>*\<^sup>* (l1\<lparr>srv := s'\<rparr>) l'"
    "socks l' fd = Some (sk1\<lparr>acceptances := [], tx := tx sk1 @ plain_format.wire (map stream_of ?ms)\<rparr>)"
    "images (srv l') = Map.empty" "MPS_sem (srv l') = MPS_sem ?s" "MMP_sem (srv l') = MMP_sem ?s"
    using s'(2-4) by auto
  have "tx (sk1\<lparr>acceptances := [], tx := tx sk1 @ plain_format.wire (map stream_of ?ms)\<rparr>) = ''!'' @
      plain_format.wire (map stream_of (answer fd ?s # ?ms))"
    by (simp add: sk1_def plain_format.wire_def)
  then show ?thesis using 1 rtranclp_trans[OF 2 3(1)] 3(2-5) by blast
qed

section \<open>What the client makes of it\<close>

lemma shown_said:
  "NUL \<notin> set t \<Longrightarrow> shown (stream_of (msg_to fd (CHR ''N'') t)) = [t]"
  "NUL \<notin> set t \<Longrightarrow> shown (stream_of (msg_to fd (CHR ''T'') t)) = [t, finalizo]"
  by (simp_all add: shown_def stream_of_def msg_to_def cstring_append_NUL)

lemma client_reads_answers:
  assumes start: "client_setup conf argv envp p prio port"
    and script: "fs p = Some f" "f \<noteq> []" "NUL \<notin> set f" "hd f \<noteq> CHR 0xFF" "length f mod 4096 \<noteq> 0" "length f \<le> 65527"
    and limits: "0 < MPS_sem s" "0 < MMP_sem s" and texts: "\<forall>x \<in> set (dump # ts). NUL \<notin> set x \<and> length x \<le> 65531"
    and bytes: "b = ''!'' @ plain_format.wire (map stream_of
      (answer fd s # map (msg_to fd (CHR ''N'')) ts @ [msg_to fd (CHR ''T'') dump]))"
  shows "\<exists>c. client_main (Some conf) fs (\<lambda>_ _. Some \<lparr>rx = b,
        arrivals = Avail 1 # replicate (2 * (length ts + 2)) (Avail 65535), tx = [],
        acceptances = [Accept 1, Accept 65535]\<rparr>) argv envp inp = Inr (EXIT_SUCCESS, c)
    \<and> console c = ''Script AnSISOP cargado'' # ts @ [dump, finalizo]
    \<and> tx (connection c) = ''#'' @ script_format.wire [(script_message f, prio)]"
proof -
  let ?d = "stream_of (answer fd s)" and ?ms = "map (\<lambda>t. stream_of (msg_to fd (CHR ''N'') t)) ts"
    and ?l = "stream_of (msg_to fd (CHR ''T'') dump)"
  have send: "sendable (msg_to fd t x)" if "x \<in> set (dump # ts)" for t x
    using texts that by (auto simp: sendable_def msg_to_def)
  have m: "short_message ?d" "ds_type ?d \<noteq> CHR ''F''" "\<forall>d \<in> set ?ms. short_message d \<and> ds_type d \<noteq> CHR ''T''"
    "short_message ?l" "ds_type ?l = CHR ''T''"
  proof -
    show "short_message ?d" by (rule sendable_short[OF sendable_answer])
    show "ds_type ?d \<noteq> CHR ''F''" using limits by (simp add: stream_of_def answer_def)
    show "\<forall>d \<in> set ?ms. short_message d \<and> ds_type d \<noteq> CHR ''T''"
      by (auto simp: stream_of_def msg_to_def intro!: sendable_short[OF send, unfolded stream_of_def msg_to_def, simplified])
    show "short_message ?l" by (rule sendable_short[OF send]) simp
    show "ds_type ?l = CHR ''T''" by (simp add: stream_of_def msg_to_def)
  qed
  have res: "resumes ?ms = 0" by (simp add: resumes_def stream_of_def msg_to_def filter_empty_conv)
  define net where "net = (\<lambda>(_ :: string option) (_ :: u16). Some \<lparr>rx = b,
    arrivals = Avail 1 # replicate (2 * (length ts + 2)) (Avail 65535), tx = [], acceptances = [Accept 1, Accept 65535]\<rparr>)"
  have "net (lookup_line conf ''PP_IP'') port = Some \<lparr>rx = ''!'' @ plain_format.wire (?d # ?ms @ [?l]),
      arrivals = Avail 1 # replicate (2 * length (?d # ?ms @ [?l])) (Avail 65535), tx = [],
      acceptances = Accept 1 # Accept 65535 # replicate (resumes ?ms) (Accept 12)\<rparr>"
    unfolding net_def bytes res by (simp add: comp_def)
  from client_bytes[of conf argv envp p prio port fs f ?d ?ms ?l net inp, OF start script m this]
  obtain c where c: "client_main (Some conf) fs net argv envp inp = Inr (EXIT_SUCCESS, c)"
    "console c = cstring (ds_data ?d) # concat (map shown (?ms @ [?l]))"
    "tx (connection c) = ''#'' @ script_format.wire [(script_message f, prio)]"
    unfolding res by (auto simp: plain_format.wire_def)
  have "concat (map shown ?ms) = ts" using texts
    by (induction ts) (auto simp: comp_def shown_said)
  moreover have "cstring (ds_data ?d) = ''Script AnSISOP cargado''"
    using limits by (simp add: stream_of_def answer_def cstring_def)
  ultimately have "console c = ''Script AnSISOP cargado'' # ts @ [dump, finalizo]"
    using c(2) texts by (simp add: shown_said)
  then show ?thesis using c(1,3) unfolding net_def by blast
qed

end
