(* ===== verification/PP_Messages.thy ===== *)
theory PP_Messages
  imports PP_System_Limits
begin

text \<open>
  The messages a client is sent, in order: what a process says is appended to the list of messages
  with the descriptor of its client (\<open>says\<close>), and \<open>LTSconex\<close> takes the first one for a descriptor out
  of it. Only the answer to a new script does not go through the list.
\<close>

section \<open>What an execution says\<close>

definition says :: "xstate \<Rightarrow> xstate \<Rightarrow> bool" where
  "says st st' \<longleftrightarrow> (\<exists>new. sendingList (sh st') = sendingList (sh st) @ new
     \<and> (\<forall>m \<in> set new. msg_fd m = clientfd (img st))) \<and> clientfd (img st') = clientfd (img st)"

lemma says_refl [simp]: "says st st"
  by (simp add: says_def)

lemma says_trans: "says st st1 \<Longrightarrow> says st1 st2 \<Longrightarrow> says st st2"
  by (auto simp: says_def)

lemma says_cong:
  "sendingList (sh st2) = sendingList (sh st1) \<Longrightarrow> clientfd (img st2) = clientfd (img st1) \<Longrightarrow> says st st2 = says st st1"
  by (simp add: says_def)

lemma says_parts [simp]:
  "says st (set_data d st1) = says st st1" "says st (set_PC p st1) = says st st1" "says st (set_stack k st1) = says st st1"
  "says st (do_sleep x st1) = says st st1" "says st (charge st1) = says st st1"
  "says st (push_LPB self y b st1) = says st st1" "says st (st1\<lparr>ioBlockInterrupt := c\<rparr>) = says st st1"
  by (rule says_cong; simp add: piece_defs)+

lemma says_send: "says st st1 \<Longrightarrow> says st (send_N t st1)"
  by (auto simp: says_def send_N_def ls_add_def)

lemma store_result_says: "store_result line x st1 = Inr st2 \<Longrightarrow> says st st2 = says st st1"
  using store_result_eq[of line x st1 st2] by auto

lemma jump_says: "jump_if b code line st1 = Inr st2 \<Longrightarrow> says st st2 = says st st1"
  by (auto simp: jump_if_def res_simps split: if_splits)

lemma ins_says:
  "post True (says st) (ins_variables line st)" "post True (says st) (ins_imprimir line st)"
  "post True (says st) (ins_ssc code line st)" "post True (says st) (ins_snc code line st)"
  "post True (says st) (ins_assign line st)" "post True (says st) (ins_io_assign_main self line st)"
  "post True (says st) (ins_io_assign_func self line PC st)" "post True (says st) (ins_io width self line PC st)"
  by (auto simp: ins_variables_def ins_imprimir_def ins_assign_def ins_ssc_def ins_snc_def ins_io_def
      ins_io_assign_main_def ins_io_assign_func_def post_True_iff res_simps Let_def jump_says store_result_says
      intro!: says_send split: if_splits)

lemma main_instr_says: "post True (\<lambda>(st', call). says st st') (main_instr code self line st)"
  by (intro main_instr_post ins_says says_refl)

lemma func_instr_says: "post True (\<lambda>(st', call). says st st') (func_instr self line PC st)"
  by (intro func_instr_post ins_says says_refl)

lemma says_interfere:
  assumes "signal_env env"
  shows "says st (interfere env st1) = says st st1"
proof -
  have "env (tick st1) (sh st1) = (sh st1)\<lparr>SUSPEND := SUSPEND (env (tick st1) (sh st1))\<rparr>"
    using assms by (simp add: signal_env_def)
  then have "sendingList (env (tick st1) (sh st1)) = sendingList (sh st1)"
    by (rule arg_cong[where f = sendingList, THEN trans]) simp
  then show ?thesis by (intro says_cong) simp_all
qed

interpretation speech: exec_relation env self "\<lambda>st st'. signal_env env \<longrightarrow> says st st'"
proof unfold_locales
  show "post True (\<lambda>(st', call). signal_env env \<longrightarrow> says st st') (main_instr code self line st)" for code line st
    using main_instr_says[of st code self line] by (rule post_mono) auto
  show "post True (\<lambda>(st', call). signal_env env \<longrightarrow> says st st') (func_instr self line PC st)" for line PC st
    using func_instr_says[of st self line PC] by (rule post_mono) auto
qed (auto simp: says_interfere intro: says_trans)

lemma execution_says: "signal_env env \<Longrightarrow> processExecution n code self env st = Inr st' \<Longrightarrow> says st st'"
  using speech.execution by blast

section \<open>What a client is sent\<close>

definition for_fd :: "int \<Rightarrow> t_msg list \<Rightarrow> t_msg list" where
  "for_fd fd ms = filter (\<lambda>m. msg_fd m = fd) ms"

abbreviation pending :: "int \<Rightarrow> system \<Rightarrow> t_msg list" where
  "pending fd s \<equiv> for_fd fd (sendingList (shd s))"

abbreviation sent :: "int \<Rightarrow> system \<Rightarrow> t_msg list" where
  "sent fd s \<equiv> for_fd fd (outbox s)"

lemma for_fd_simps [simp]:
  "for_fd fd [] = []" "for_fd fd (a @ b) = for_fd fd a @ for_fd fd b"
  "for_fd fd (m # ms) = (if msg_fd m = fd then m # for_fd fd ms else for_fd fd ms)"
  by (simp_all add: for_fd_def)

text \<open>From one state to another, some messages have left the front of the queue of \<open>fd\<close>, others have come.\<close>

definition in_line :: "int \<Rightarrow> system \<Rightarrow> system \<Rightarrow> bool" where
  "in_line fd s s' \<longleftrightarrow> (\<exists>gone new. sent fd s' = sent fd s @ gone \<and> pending fd s @ new = gone @ pending fd s')"

lemma in_line_same: "sendingList (shd s') = sendingList (shd s) \<Longrightarrow> outbox s' = outbox s \<Longrightarrow> in_line fd s s'"
  by (auto simp: in_line_def)

lemma in_line_trans:
  assumes "in_line fd s s1" and "in_line fd s1 s2"
  shows "in_line fd s s2"
proof -
  obtain g n where 1: "sent fd s1 = sent fd s @ g" "pending fd s @ n = g @ pending fd s1"
    using assms(1) by (auto simp: in_line_def)
  obtain h m where 2: "sent fd s2 = sent fd s1 @ h" "pending fd s1 @ m = h @ pending fd s2"
    using assms(2) by (auto simp: in_line_def)
  have "pending fd s @ (n @ m) = (g @ h) @ pending fd s2" using 1(2) 2(2) by (metis append.assoc)
  then show ?thesis using 1(1) 2(1) unfolding in_line_def by (metis append.assoc)
qed

lemma first_for_fd:
  assumes "list_fd_msg_get ms fd = Inr (m, rest)"
  shows "case m of None \<Rightarrow> rest = ms \<and> for_fd fd ms = []
     | Some x \<Rightarrow> msg_fd x = fd \<and> for_fd fd ms = x # for_fd fd rest \<and> (\<forall>g. g \<noteq> fd \<longrightarrow> for_fd g rest = for_fd g ms)"
proof -
  define i where "i = length (takeWhile (\<lambda>x. msg_fd x \<noteq> fd) ms)"
  have before: "\<forall>x \<in> set (take i ms). msg_fd x \<noteq> fd"
    unfolding i_def takeWhile_eq_take[symmetric] by (auto dest: set_takeWhileD)
  show ?thesis
  proof (cases "i < length ms")
    case True
    then have hit: "msg_fd (ms ! i) = fd" using nth_length_takeWhile[of "\<lambda>x. msg_fd x \<noteq> fd" ms] by (simp add: i_def)
    have "m = Some (ms ! i)" "rest = take i ms @ drop (Suc i) ms"
      using assms True by (auto simp: list_fd_msg_get_def ls_remove_def Let_def i_def[symmetric] split: if_splits)
    moreover have "for_fd g ms = for_fd g (take i ms) @ for_fd g (ms ! i # drop (Suc i) ms)" for g
      unfolding for_fd_simps(2)[symmetric] using id_take_nth_drop[OF True] by simp
    moreover have "for_fd fd (take i ms) = []" using before by (simp add: for_fd_def filter_empty_conv)
    ultimately show ?thesis using hit by simp
  next
    case False
    then have "take i ms = ms" by simp
    then have "for_fd fd ms = []" using before by (simp add: for_fd_def filter_empty_conv)
    then show ?thesis using assms False
      by (auto simp: list_fd_msg_get_def Let_def i_def[symmetric] split: if_splits)
  qed
qed

lemma out_in_line:
  assumes "LTSconex_out g s = Inr s'"
  shows "in_line fd s s'"
proof (cases "sendingList (shd s) = []")
  case False
  then obtain m rest where m: "list_fd_msg_get (sendingList (shd s)) g = Inr (m, rest)"
    and s': "s' = (case m of None \<Rightarrow> s\<lparr>shd := (shd s)\<lparr>sendingList := rest\<rparr>\<rparr>
      | Some x \<Rightarrow> write_client g (msg_type x) (msg_text x) (s\<lparr>shd := (shd s)\<lparr>sendingList := rest\<rparr>\<rparr>))"
    using assms by (fastforce simp: LTSconex_out_def Let_def elim!: bindE_InrE split: option.splits)
  show ?thesis
  proof (cases m)
    case None
    then show ?thesis using first_for_fd[OF m] s' by (intro in_line_same) auto
  next
    case (Some x)
    then have x: "msg_fd x = g" "for_fd g (sendingList (shd s)) = x # for_fd g rest"
      "g \<noteq> fd \<Longrightarrow> for_fd fd rest = for_fd fd (sendingList (shd s))"
      using first_for_fd[OF m] by auto
    have "\<lparr>msg_fd = g, msg_type = msg_type x, msg_text = msg_text x\<rparr> = x" using x(1) by (cases x) simp
    then show ?thesis using x Some s'
      by (cases "g = fd") (auto simp: in_line_def write_client_def)
  qed
qed (use assms in \<open>simp add: LTSconex_out_def in_line_same\<close>)

lemma after_appends:
  assumes "PROCER_after code p i st s0 = Inr s'"
  shows "outbox s' = outbox s0 \<and> (\<exists>new. sendingList (shd s') = sendingList (sh st) @ new)"
proof -
  from assms obtain line where line: "code_line code (piPC i) = Inr line"
    by (auto simp: PROCER_after_def Let_def res_simps)
  note after = assms[unfolded PROCER_after_def Let_def line bindE_Inr]
  consider (fin) "line = ''fin_programa''" | (block) "line \<noteq> ''fin_programa''" "ioBlockInterrupt st"
    | (suspend) "line \<noteq> ''fin_programa''" "\<not> ioBlockInterrupt st" "SUSPEND (sh st)"
    | (other) "line \<noteq> ''fin_programa''" "\<not> ioBlockInterrupt st" "\<not> SUSPEND (sh st)" by blast
  then show ?thesis
  proof cases
    case other
    then show ?thesis using after[symmetric] by (simp split: if_splits)
  qed (use after in \<open>auto simp: send_list_def ls_add_def elim!: bindE_InrE\<close>)
qed

lemma run_in_line:
  assumes env: "signal_env env" and run: "PROCER_run rnd n env s = Inr s'"
  shows "in_line fd s s'"
proof -
  from run obtain p q i code st where *: "LPL (sts s) = p # q" "images s p = Some i"
      "processExecution n code p env (dispatch_state i (shd s)) = Inr st"
    and after: "PROCER_after code p ((img st)\<lparr>Tspn := next_Tspn rnd (ALFA s) (Tspn (img st)) (rafaga st)\<rparr>)
      st (s\<lparr>procer := Idle, sts := (sts s)\<lparr>LPL := q\<rparr>\<rparr>) = Inr s'"
    by (cases "LPL (sts s)") (auto simp: PROCER_run_def load_img_def res_simps Let_def split: option.splits)
  have "\<exists>new. sendingList (sh st) = sendingList (shd s) @ new"
    using execution_says[OF env *(3)] by (auto simp: says_def dispatch_state_def)
  moreover have "outbox s' = outbox s \<and> (\<exists>new. sendingList (shd s') = sendingList (sh st) @ new)"
    using after_appends[OF after] by simp
  ultimately obtain a b where "sendingList (shd s') = sendingList (shd s) @ a @ b" "outbox s' = outbox s" by auto
  then show ?thesis unfolding in_line_def by (intro exI[of _ "[]"] exI[of _ "for_fd fd (a @ b)"]) simp
qed

lemma new_in_line:
  "g \<noteq> fd \<or> t \<noteq> CHR ''N'' \<Longrightarrow> in_line fd s (LTSconex_new g t script prio s)"
  by (auto simp: in_line_def LTSconex_new_def write_client_def Let_def)

text \<open>The steps in which \<open>fd\<close> does not connect.\<close>

definition quiet_step :: "(rat \<Rightarrow> rat) \<Rightarrow> int \<Rightarrow> system \<Rightarrow> system \<Rightarrow> bool" where
  "quiet_step rnd fd s s' \<longleftrightarrow> sys_step rnd s s'
     \<and> (\<forall>script prio. s' \<noteq> LTSconex_new fd (CHR ''N'') script prio s)"

lemma step_in_line:
  assumes "quiet_step rnd fd s s'"
  shows "in_line fd s s'"
proof -
  have step: "sys_step rnd s s'" and quiet: "\<And>script prio. s' \<noteq> LTSconex_new fd (CHR ''N'') script prio s"
    using assms by (simp_all add: quiet_step_def)
  from step show ?thesis
  proof (cases rule: sys_step.cases)
    case (new_script g t script prio)
    then have "g \<noteq> fd \<or> t \<noteq> CHR ''N''" using quiet[of script prio] by auto
    then show ?thesis unfolding new_script by (rule new_in_line)
  next
    case (message g dataIn)
    then show ?thesis by (cases rule: resume_cases) (auto intro: in_line_same)
  next
    case (flush g)
    then show ?thesis by (rule out_in_line)
  next
    case admit_wait
    then show ?thesis by (auto simp: LTSnew_claim_def split: if_splits intro: in_line_same)
  next
    case admit
    then show ?thesis by (auto elim!: move_new_eq intro: in_line_same)
  next
    case claim
    then show ?thesis by (auto simp: PROCER_claim_def split: if_splits intro: in_line_same)
  next
    case run
    then show ?thesis using run_in_line by blast
  next
    case io_start
    then show ?thesis by (auto elim!: io_start_eq intro: in_line_same)
  next
    case io_finish
    then show ?thesis by (auto elim!: io_finish_eq intro: in_line_same)
  next
    case (signal m sig)
    then show ?thesis by (cases sig) (auto simp: signal_handler_def intro: in_line_same)
  qed (auto intro: in_line_same)
qed

lemma steps_in_line: "(quiet_step rnd fd)\<^sup>*\<^sup>* s s' \<Longrightarrow> in_line fd s s'"
  by (induction rule: rtranclp_induct) (auto intro: in_line_same in_line_trans step_in_line)

end
