(* ===== verification/PP_Setup.thy ===== *)
theory PP_Setup
  imports PP_LTS
begin

text \<open>
  How the server and the client get their connections (\<open>server_defs.c\<close>, \<open>client_defs.c\<close>, the beginning of
  \<open>LTSconex\<close>), with the results of the system calls in a record, and how \<open>main\<close> ends.
\<close>

section \<open>Addresses\<close>

record sockaddr_in =
  sin_port :: u16
  sin_addr :: u32

text \<open>The bytes of a number the other way round, since the machine is little-endian.\<close>

definition htons :: "u16 \<Rightarrow> u16" where
  "htons w = push_bit 8 w OR drop_bit 8 w"

definition INADDR_ANY :: u32 where
  "INADDR_ANY = 0"

definition ERROR :: int where
  "ERROR = -1"

record net_calls =
  sys_socket :: int
  sys_setsockopt :: "int \<Rightarrow> int"
  sys_bind :: "int \<Rightarrow> sockaddr_in \<Rightarrow> int"
  sys_listen :: "int \<Rightarrow> int"
  sys_connect :: "int \<Rightarrow> sockaddr_in \<Rightarrow> int"
  sys_epoll_create1 :: int
  inet_addr :: "string \<Rightarrow> u32"

definition address :: "net_calls \<Rightarrow> u16 \<Rightarrow> string option \<Rightarrow> sockaddr_in" where
  "address nc PORT ip = \<lparr>sin_port = htons PORT,
     sin_addr = (case ip of None \<Rightarrow> INADDR_ANY | Some a \<Rightarrow> inet_addr nc a)\<rparr>"

section \<open>Connections\<close>

definition createBindListen :: "net_calls \<Rightarrow> u16 \<Rightarrow> string option \<Rightarrow> int" where
  "createBindListen nc PORT ip =
     (let serverfd = sys_socket nc in
      if serverfd = ERROR then ERROR
      else if sys_setsockopt nc serverfd = ERROR then ERROR
      else if sys_bind nc serverfd (address nc PORT ip) = ERROR then ERROR
      else if sys_listen nc serverfd = ERROR then ERROR
      else serverfd)"

definition create_and_connect :: "net_calls \<Rightarrow> u16 \<Rightarrow> string option \<Rightarrow> int" where
  "create_and_connect nc PORT ip =
     (let sockfd = sys_socket nc in
      if sockfd = ERROR then ERROR
      else if sys_connect nc sockfd (address nc PORT ip) = ERROR then ERROR
      else sockfd)"

text \<open>The descriptors \<open>LTSconex\<close> starts with; \<open>None\<close> is \<open>exit(EXIT_FAILURE)\<close>.\<close>

definition LTSconex_start :: "net_calls \<Rightarrow> s32 \<Rightarrow> (int \<times> int) option" where
  "LTSconex_start nc PORT =
     (let serverfd = createBindListen nc (ucast PORT) None in
      if serverfd = ERROR then None
      else let epfd = sys_epoll_create1 nc in
        if epfd < 0 then None else Some (serverfd, epfd))"

lemma createBindListen_listens:
  "createBindListen nc PORT ip \<noteq> ERROR \<longleftrightarrow> sys_socket nc \<noteq> ERROR \<and> sys_setsockopt nc (sys_socket nc) \<noteq> ERROR
     \<and> sys_bind nc (sys_socket nc) (address nc PORT ip) \<noteq> ERROR \<and> sys_listen nc (sys_socket nc) \<noteq> ERROR"
  by (simp add: createBindListen_def Let_def)

lemma bit_htons: "n < 16 \<Longrightarrow> bit (htons w) n \<longleftrightarrow> bit w (if n < 8 then n + 8 else n - 8)"
  using bit_imp_le_length[of w "n + 8"]
  by (auto simp: htons_def bit_or_iff bit_push_bit_iff bit_drop_bit_eq add.commute)

lemma htons_htons: "htons (htons w) = w"
  by (rule bit_word_eqI) (auto simp: bit_htons)

lemma same_address: "sin_port (address nc m ip) = sin_port (address nc' n ip') \<longleftrightarrow> m = n"
  unfolding address_def sockaddr_in.simps by (metis htons_htons)

text \<open>
  The server that starts has bound all interfaces and its port modulo \<open>2 ^ 16\<close>; a client without an address
  calls the same one exactly if their ports agree modulo \<open>2 ^ 16\<close>.
\<close>

lemma server_address:
  assumes "LTSconex_start nc PORT = Some (serverfd, epfd)"
  shows "serverfd = sys_socket nc" "sys_bind nc serverfd \<lparr>sin_port = htons (ucast PORT), sin_addr = INADDR_ANY\<rparr> \<noteq> ERROR"
    "sys_listen nc serverfd \<noteq> ERROR" "0 \<le> epfd"
  using assms by (auto simp: LTSconex_start_def createBindListen_def address_def Let_def split: if_splits)

lemma client_address:
  assumes "LTSconex_start nc PORT = Some (serverfd, epfd)" and "sys_socket cc \<noteq> ERROR"
    and net: "\<forall>c a. sys_connect cc c a \<noteq> ERROR \<longleftrightarrow> a = address nc (ucast PORT) None"
  shows "create_and_connect cc (ucast port) None \<noteq> ERROR \<longleftrightarrow> (ucast port :: u16) = ucast (PORT :: s32)"
  using assms(2) net same_address[of cc "ucast port" None nc "ucast PORT" None]
  by (auto simp: create_and_connect_def Let_def address_def)

section \<open>The end of \<open>main\<close>\<close>

text \<open>
  When the handler has ended, \<open>main\<close> cancels the threads, so no request is served any more, and
  destroys the queues and the two lists with what is in them; then it exits successfully.
\<close>

definition main_end :: "system \<Rightarrow> system" where
  "main_end s = s\<lparr>io_running := [], LPS := [], LFIFO := [],
     sts := (sts s)\<lparr>LPN := [], LFIO := [], LPR := [], LFQ := [], LPL := []\<rparr>,
     shd := (shd s)\<lparr>sendingList := [], LPB := []\<rparr>\<rparr>"

lemma ended_queues:
  assumes "owns s" and "images s = Map.empty"
  shows "sts (main_end s) = sts s" "LFIFO (main_end s) = LFIFO s" "LPS (main_end s) = LPS s"
    "blocking (LPB (shd s) @ io_running s) = []"
proof -
  have "placed s = []" using assms by (simp add: owns_def)
  then show "sts (main_end s) = sts s" "LFIFO (main_end s) = LFIFO s" "LPS (main_end s) = LPS s"
    "blocking (LPB (shd s) @ io_running s) = []"
    by (simp_all add: main_end_def placed_def sts_processes_def)
qed

end
