(* ===== verification/PP_System_Props.thy ===== *)
theory PP_System_Props
  imports PP_System_Limits
begin

text \<open>
  The properties of the server as a whole: what holds in every state it can reach from its start,
  and, by executions written out step by step, what goes wrong.
\<close>

section \<open>Servers and scripts for the witnesses\<close>

definition server :: "string \<Rightarrow> int \<Rightarrow> system" where
  "server alg q = main_init 3 2 1 alg q 0 1 0 initial_queues"

definition short_text :: string where
  "short_text = ''a'' @ [NL] @ ''fin_programa''"

definition io_text :: string where
  "io_text = ''a'' @ [NL] @ ''io(1,0)'' @ [NL] @ ''fin_programa''"

lemma short_code: "codeSegmentCreator short_text = Inr [''a'', ''fin_programa'']"
proof -
  have "\<not> CHR ''#'' \<in> set (last (split_nl short_text))" by code_simp
  moreover have "length short_text \<le> 65533" by (simp add: short_text_def)
  moreover have "map (\<lambda>l. string_trim (strip_comment l)) (split_nl short_text) = [''a'', ''fin_programa'']" by code_simp
  ultimately show ?thesis by (simp add: codeSegmentCreator_spec)
qed

lemma io_code: "codeSegmentCreator io_text = Inr [''a'', ''io(1,0)'', ''fin_programa'']"
proof -
  have "\<not> CHR ''#'' \<in> set (last (split_nl io_text))" by code_simp
  moreover have "length io_text \<le> 65533" by (simp add: io_text_def)
  moreover have "map (\<lambda>l. string_trim (strip_comment l)) (split_nl io_text) = [''a'', ''io(1,0)'', ''fin_programa'']" by code_simp
  ultimately show ?thesis by (simp add: codeSegmentCreator_spec)
qed

text \<open>A process that has not run yet.\<close>

definition fresh :: "string \<Rightarrow> t_ProcessImage \<Rightarrow> bool" where
  "fresh text i \<longleftrightarrow> piCode i = text \<and> piPC i = 0 \<and> piStack i = [] \<and> piData i = None"

lemma prepare_ex: "piStack i = [] \<Longrightarrow> piData i = None \<Longrightarrow> \<exists>text. prepareMessage i = Inr text"
  by (simp add: prepareMessage_def dataStructureMsg_def stackStructureMsg_def Let_def)

lemma short_run:
  assumes "fresh short_text i" and "0 < quantum sd"
  shows "processExecution (Suc (Suc (Suc n))) [''a'', ''fin_programa''] p (\<lambda>_ s. s) (dispatch_state i sd)
    = Inr ((dispatch_state i sd)\<lparr>img := i\<lparr>piPC := 1\<rparr>, tick := 2\<rparr>)"
  using assms
  by (simp add: processExecution_def stackExecution_def dispatch_state_def fresh_def interfere_def
      code_line_def arr_get_def running_def last_line_inert Let_def)

lemma io_line: "main_instr code p ''io(1,0)'' st = (if length (LPB (sh st)) < ioThreads (sh st)
   then Inr (push_LPB p 1 True st, None) else Inr (send_N (io_error_text (piPC (img st))) st, None))"
proof -
  have "\<not> is_skip ''io(1,0)''" "\<not> string_starts_with ''io(1,0)'' ''variables''"
    "\<not> string_starts_with ''io(1,0)'' ''imprimir''" "\<not> string_starts_with ''io(1,0)'' ''ssc''"
    "\<not> string_starts_with ''io(1,0)'' ''snc''" "cchar ''io(1,0)'' 1 = Inr (CHR ''o'')"
    "string_starts_with ''io(1,0)'' ''io(''" "io_args 3 ''io(1,0)'' = Inr (1, True)"
    by code_simp+
  then show ?thesis by (simp add: main_instr_def ins_io_def plain_def io_available_def)
qed

lemma io_run:
  assumes "fresh io_text i" and "0 < quantum sd" and "length (LPB sd) < ioThreads sd"
  shows "processExecution (Suc (Suc (Suc n))) [''a'', ''io(1,0)'', ''fin_programa''] p (\<lambda>_ s. s) (dispatch_state i sd)
    = Inr (push_LPB p 1 True ((dispatch_state i sd)\<lparr>img := i\<lparr>piPC := 2\<rparr>, tick := 3\<rparr>))"
  using assms
  by (simp add: processExecution_def stackExecution_def dispatch_state_def fresh_def interfere_def
      code_line_def arr_get_def running_def last_line_inert io_line push_LPB_def Let_def)

definition submit :: "int \<Rightarrow> string \<Rightarrow> system \<Rightarrow> system" where
  "submit fd text s = LTSconex_new fd (CHR ''N'') text 0 s"

definition take_new :: "system \<Rightarrow> system" where
  "take_new s = s\<lparr>sts := projr (STS_take (images s) 5 (sts s))\<rparr>"

definition sort_round :: "system \<Rightarrow> system" where
  "sort_round s = s\<lparr>sts := the (projr (STS_round 9 (images s) (ALG (shd s)) (sts s)))\<rparr>"


text \<open>A dispatch of such a process, until it leaves the processor.\<close>

definition same_value :: "rat \<Rightarrow> rat" where
  "same_value x = x"

definition run3 :: "system \<Rightarrow> system res" where
  "run3 s = PROCER_run same_value 3 (\<lambda>_ s. s) s"

lemma run3_step: "procer s = Claimed \<Longrightarrow> run3 s = Inr s' \<Longrightarrow> sys_step same_value s s'"
  unfolding run3_def by (rule run[where env = "\<lambda>_ s. s"]) (simp_all add: signal_env_def)

lemma short_run3:
  assumes "LPL (sts s) = p # q" and "images s p = Some i" and "fresh short_text i" and "0 < quantum (shd s)"
  shows "\<exists>ms. run3 s = Inr (s\<lparr>procer := Idle, sts := (sts s)\<lparr>LPL := q\<rparr>,
    shd := (shd s)\<lparr>SUSPEND := False, sendingList := ms\<rparr>, images := (images s)(p := None),
    MMP_sem := MMP_sem s + 1, MPS_sem := MPS_sem s + 1\<rparr>)"
proof -
  define i' where "i' = i\<lparr>piPC := 1, Tspn := next_Tspn same_value (ALFA s) (Tspn i) 0\<rparr>"
  have f: "piCode i = short_text" "piStack i' = []" "piData i' = None" "piPC i' = 1"
    using assms(3) by (simp_all add: fresh_def i'_def)
  obtain tx where tx: "prepareMessage i' = Inr tx" using prepare_ex[OF f(2,3)] by blast
  have line: "code_line [''a'', ''fin_programa''] (piPC i') = Inr ''fin_programa''"
    by (simp add: f code_line_def arr_get_def)
  note r = short_run[OF assms(3,4), of 0 p]
  show ?thesis
    unfolding run3_def PROCER_run_def numeral_3_eq_3 assms(1) lq_pop_simps option.case prod.case load_img_def assms(2)
      bindE_Inr f(1) short_code r Let_def
    by (rule exI[of _ "sendingList (send_list i' (CHR ''T'') tx (shd s))"])
      (simp add: PROCER_after_def dispatch_state_def i'_def[symmetric] line tx Let_def send_list_def)
qed

lemma io_run3:
  assumes "LPL (sts s) = p # q" and "images s p = Some i" and "fresh io_text i" and "0 < quantum (shd s)"
    and "length (LPB (shd s)) < ioThreads (shd s)"
  shows "\<exists>ms. run3 s = Inr (s\<lparr>procer := Idle, sts := (sts s)\<lparr>LPL := q\<rparr>,
    shd := (shd s)\<lparr>LPB := LPB (shd s) @ [\<lparr>io_image = p, ioTime = 1, flagNonBlocking = True\<rparr>],
      LPB_empty := LPB_empty (shd s) + 1, SUSPEND := False, sendingList := ms\<rparr>,
    images := (images s)(p := None), MMP_sem := MMP_sem s + 1, MPS_sem := MPS_sem s + 1\<rparr>)"
proof -
  define i' where "i' = i\<lparr>piPC := 2, Tspn := next_Tspn same_value (ALFA s) (Tspn i) 0\<rparr>"
  have f: "piCode i = io_text" "piStack i' = []" "piData i' = None" "piPC i' = 2"
    using assms(3) by (simp_all add: fresh_def i'_def)
  obtain tx where tx: "prepareMessage i' = Inr tx" using prepare_ex[OF f(2,3)] by blast
  have line: "code_line [''a'', ''io(1,0)'', ''fin_programa''] (piPC i') = Inr ''fin_programa''"
    by (simp add: f code_line_def arr_get_def)
  note r = io_run[OF assms(3-5), of 0 p]
  show ?thesis
    unfolding run3_def PROCER_run_def numeral_3_eq_3 assms(1) lq_pop_simps option.case prod.case load_img_def assms(2)
      bindE_Inr f(1) io_code r Let_def
    by (rule exI[of _ "sendingList (send_list i' (CHR ''T'') tx (shd s))"])
      (simp add: PROCER_after_def push_LPB_def dispatch_state_def i'_def[symmetric] line tx Let_def send_list_def)
qed

definition claimed :: "system \<Rightarrow> system" where
  "claimed s = s\<lparr>procer := Claimed, sts := (sts s)\<lparr>LPL_empty := LPL_empty (sts s) - 1\<rparr>\<rparr>"

lemma claimed_step: "procer s = Idle \<Longrightarrow> 0 < LPL_empty (sts s) \<Longrightarrow> sys_step rnd s (claimed s)"
  by (rule claim) (simp add: PROCER_claim_def claimed_def)

lemma submit_step: "sys_step rnd s (submit fd text s)"
  unfolding submit_def by (rule new_script)

lemma take_step: "strSwitch (ALG (shd s)) \<in> {1, 2} \<Longrightarrow> 0 < source_sem 5 (sts s) \<Longrightarrow> \<not> isl (STS_take (images s) 5 (sts s))
   \<Longrightarrow> sys_step rnd s (take_new s)"
  unfolding take_new_def by (rule take_one[of _ 5]) (auto simp: isl_def)

lemma sort_step:
  assumes "strSwitch (ALG (shd s)) \<in> {3, 4}" and "0 < STS_in_empty (sts s)"
    and "case STS_round 9 (images s) (ALG (shd s)) (sts s) of Inr (Some _) \<Rightarrow> True | _ \<Rightarrow> False"
  shows "sys_step rnd s (sort_round s)"
  unfolding sort_round_def using assms
  by (intro sort_all[of s 9]) (auto split: sum.splits option.splits)

text \<open>A server under Round Robin that has taken up one script.\<close>

definition one_script :: system where
  "one_script = take_new (submit 7 short_text (server ''RR'' 5))"

lemma one_script_steps: "sys_steps same_value (server ''RR'' 5) one_script"
proof -
  have "strSwitch (ALG (shd (submit 7 short_text (server ''RR'' 5)))) \<in> {1, 2}"
    "0 < source_sem 5 (sts (submit 7 short_text (server ''RR'' 5)))"
    "\<not> isl (STS_take (images (submit 7 short_text (server ''RR'' 5))) 5 (sts (submit 7 short_text (server ''RR'' 5))))"
    by code_simp+
  from take_step[OF this] show ?thesis
    unfolding one_script_def by (meson r_into_rtranclp submit_step rtranclp.rtrancl_into_rtrancl)
qed

lemma one_script_facts:
  "procer one_script = Idle" "LPL (sts one_script) = [0]" "LPL_empty (sts one_script) = 1"
  "images one_script 0 \<noteq> None" "LFIFO one_script = []" "LPS one_script = []" "MMP_sem one_script = 1"
  "MPS_sem one_script = 2"
  by code_simp+

section \<open>What holds in every reachable state\<close>

text \<open>C10. Whatever the algorithm, the semaphore of the system's places counts them: its value and the
  number of processes in the system add up to \<open>MPS\<close>. So \<open>SIGINT\<close> ends the server exactly when no
  process is left in it.\<close>

theorem sigint_ends_empty_server:
  assumes "sys_steps rnd (main_init MPS MMP k alg q st tant alfa qs) s"
  shows "MPS_sem s + card (dom (images s)) = MPS
    \<and> (snd (signal_handler MPS SIGINT s) \<longleftrightarrow> images s = Map.empty)"
proof -
  have "mps_ok MPS s" using places.steps[OF assms main_init_mps] .
  then have "MPS_sem s + card (dom (images s)) = MPS" "finite (dom (images s))" by (simp_all add: mps_ok_def)
  then show ?thesis by (auto simp: signal_handler_def card_eq_0_iff)
qed

lemma sigint_ends_empty_server_witness: "card (dom (images one_script)) = 1 \<and> \<not> snd (signal_handler 3 SIGINT one_script)"
  using sigint_ends_empty_server[OF one_script_steps[unfolded server_def]] one_script_facts(4,8)
  by (auto simp: server_def)

text \<open>Under \<open>FIFO\<close> and \<open>RR\<close> no process is lost and none is queued twice: the processes that wait, are
  ready, blocked on the device (queued or served), suspended or delayed are pairwise different, and
  they are exactly those whose image is allocated.\<close>

theorem every_process_in_one_place:
  assumes "alg = ''FIFO'' \<or> alg = ''RR''" and "0 \<le> q"
    and "sys_steps rnd (main_init MPS MMP k alg q st tant alfa qs) s"
  shows "distinct (placed s) \<and> set (placed s) = dom (images s)"
  using order.steps[OF assms(3) main_init_ok[OF assms(1,2)]] by (simp add: order_ok_def owns_def)

lemma every_process_in_one_place_witness: "set (placed one_script) = dom (images one_script) \<and> 0 \<in> set (placed one_script)"
  using every_process_in_one_place[OF _ _ one_script_steps[unfolded server_def]] one_script_facts(4) by auto

text \<open>Under \<open>FIFO\<close> and \<open>RR\<close> at most \<open>MMP\<close> processes are loaded at any time, that is neither delayed
  nor suspended.\<close>

theorem multiprogramming_is_limited:
  assumes "alg = ''FIFO'' \<or> alg = ''RR''" and "0 \<le> q"
    and "sys_steps rnd (main_init MPS MMP k alg q st tant alfa qs) s"
  shows "card (dom (images s) - set (LFIFO s) - set (LPS s)) + MMP_sem s \<le> MMP"
proof -
  have ok: "order_ok s" "MMP_sem s + loaded s \<le> MMP"
    using loading.steps[OF assms(3), of MMP] main_init_ok[OF assms(1,2)] by simp_all
  then have o: "distinct (placed s)" "dom (images s) = set (placed s)" by (simp_all add: order_ok_def owns_def)
  define rest where "rest = sts_processes (sts s) @ blocked (LPB (shd s)) @ blocked (io_running s)"
  have "dom (images s) - set (LFIFO s) - set (LPS s) = set rest" "distinct rest"
    using o by (auto simp: placed_def rest_def)
  moreover have "length rest = loaded s" by (simp add: rest_def loaded_def)
  ultimately show ?thesis using ok(2) by (simp add: distinct_card)
qed

lemma multiprogramming_is_limited_witness:
  "card (dom (images one_script) - set (LFIFO one_script) - set (LPS one_script)) \<le> 1"
  using multiprogramming_is_limited[OF _ _ one_script_steps[unfolded server_def]] one_script_facts(7) by simp

text \<open>Under \<open>FIFO\<close> and \<open>RR\<close> no thread takes a null pointer or a freed image out of a queue of
  processes it was let at: \<open>PROCER\<close>, \<open>LTSnew\<close>, \<open>STS\<close>; and an I/O thread finds a request.\<close>

theorem pops_find_processes:
  assumes "alg = ''FIFO'' \<or> alg = ''RR''" and "0 \<le> q"
    and "sys_steps rnd (main_init MPS MMP k alg q st tant alfa qs) s"
  shows "(procer s = Claimed \<longrightarrow> (\<exists>p l i. lq_pop (LPL (sts s)) = (Some p, l) \<and> load_img (images s) p = Inr i))
    \<and> (ltsnew_claimed s \<longrightarrow> (\<exists>s'. LTSnew_move s = Inr s'))
    \<and> (\<forall>c \<in> {5, 6, 7, 8}. 0 < source_sem c (sts s) \<longrightarrow> (\<exists>a. STS_take (images s) c (sts s) = Inr a))
    \<and> (0 < LPB_empty (shd s) \<longrightarrow> LPB (shd s) \<noteq> [])"
proof -
  have "order_ok s" using order.steps[OF assms(3) main_init_ok[OF assms(1,2)]] .
  from pops_succeed[OF this] show ?thesis by (fastforce simp: load_img_def)
qed

lemma pops_find_processes_witness:
  "\<exists>p l i. lq_pop (LPL (sts (claimed one_script))) = (Some p, l) \<and> load_img (images (claimed one_script)) p = Inr i"
proof -
  have "sys_steps same_value (server ''RR'' 5) (claimed one_script)"
    using one_script_steps claimed_step[of one_script] one_script_facts(1,3) by (auto intro: rtranclp.rtrancl_into_rtrancl)
  moreover have "procer (claimed one_script) = Claimed" by (simp add: claimed_def)
  ultimately show ?thesis
    using pops_find_processes[of "''RR''" 5 same_value 3 2 1 0 1 0 initial_queues "claimed one_script"]
    by (simp add: server_def)
qed





section \<open>What goes wrong\<close>

text \<open>C21. Under \<open>PRI\<close> the server can crash although every script is in order: a sorting round while
  \<open>PROCER\<close> has claimed a process announces it again, and after the queue is empty \<open>PROCER\<close> follows the
  null pointer it takes out of it.\<close>

theorem sorting_race_crashes:
  "\<exists>s. sys_steps same_value (server ''PRI'' 5) s \<and> procer s = Claimed
     \<and> (\<forall>rnd n env. PROCER_run rnd n env s = Inl UB)"
proof -
  define r1 r2 r3 where "r1 = submit 7 short_text (server ''PRI'' 5)" and "r2 = claimed (sort_round r1)"
    and "r3 = sort_round (submit 8 short_text r2)"
  note defs = r3_def r2_def r1_def
  have sort1: "sys_step same_value r1 (sort_round r1)" unfolding defs by (rule sort_step) code_simp+
  have claim1: "sys_step same_value (sort_round r1) r2" unfolding defs by (rule claimed_step) code_simp+
  have sort2: "sys_step same_value (submit 8 short_text r2) r3" unfolding defs by (rule sort_step) code_simp+
  have to3: "sys_steps same_value (server ''PRI'' 5) r3"
    using submit_step[of same_value "server ''PRI'' 5" 7 short_text, folded r1_def] sort1 claim1 submit_step[of same_value r2 8 short_text] sort2
    by (meson r_into_rtranclp rtranclp_trans)
  have f3: "procer r3 = Claimed" "LPL (sts r3) = [0, 1]" "LPL_empty (sts r3) = 2" "quantum (shd r3) = 5"
    unfolding defs by code_simp+
  have i3: "case images r3 0 of None \<Rightarrow> False | Some i \<Rightarrow> fresh short_text i"
    "case images r3 1 of None \<Rightarrow> False | Some i \<Rightarrow> fresh short_text i"
    unfolding defs by code_simp+
  then obtain i j where im: "images r3 0 = Some i" "fresh short_text i" "images r3 1 = Some j" "fresh short_text j"
    by (auto split: option.splits)
  obtain ms where r4: "run3 r3 = Inr (r3\<lparr>procer := Idle, sts := (sts r3)\<lparr>LPL := [1]\<rparr>,
      shd := (shd r3)\<lparr>SUSPEND := False, sendingList := ms\<rparr>, images := (images r3)(0 := None),
      MMP_sem := MMP_sem r3 + 1, MPS_sem := MPS_sem r3 + 1\<rparr>)" (is "_ = Inr ?r4")
    using short_run3[OF f3(2) im(1,2)] f3(4) by auto
  have to5: "sys_steps same_value (server ''PRI'' 5) (claimed ?r4)"
    using to3 run3_step[OF f3(1) r4] claimed_step[of ?r4 same_value] f3(3) by (auto intro: rtranclp.rtrancl_into_rtrancl)
  obtain ms' where r6: "run3 (claimed ?r4) = Inr ((claimed ?r4)\<lparr>procer := Idle, sts := (sts (claimed ?r4))\<lparr>LPL := []\<rparr>,
      shd := (shd (claimed ?r4))\<lparr>SUSPEND := False, sendingList := ms'\<rparr>, images := (images (claimed ?r4))(1 := None),
      MMP_sem := MMP_sem (claimed ?r4) + 1, MPS_sem := MPS_sem (claimed ?r4) + 1\<rparr>)" (is "_ = Inr ?r6")
    using short_run3[of "claimed ?r4" 1 "[]" j] im(3,4) f3(4) by (auto simp: claimed_def)
  have "sys_steps same_value (server ''PRI'' 5) (claimed ?r6)"
    using to5 run3_step[OF _ r6] claimed_step[of ?r6 same_value] f3(3)
    by (auto simp: claimed_def intro: rtranclp.rtrancl_into_rtrancl)
  moreover have "PROCER_run rnd n env (claimed ?r6) = Inl UB" for rnd n env
    by (simp add: PROCER_run_def claimed_def)
  moreover have "procer (claimed ?r6) = Claimed" by (simp add: claimed_def)
  ultimately show ?thesis by blast
qed

text \<open>C24. A process that asks for non-blocking I/O and ends is freed while its request is queued; the I/O
  thread that takes the request reads the freed image.\<close>

theorem freed_image_is_read:
  "\<exists>s. sys_steps same_value (server ''FIFO'' 5) s \<and> 0 < LPB_empty (shd s) \<and> 0 < ioThreads (shd s)
     \<and> ioThread_start s = Inl UB"
proof -
  define r1 r2 where "r1 = submit 7 io_text (server ''FIFO'' 5)" and "r2 = claimed (take_new r1)"
  have take1: "sys_step same_value r1 (take_new r1)" unfolding r1_def by (rule take_step) code_simp+
  have claim1: "sys_step same_value (take_new r1) r2" unfolding r2_def r1_def by (rule claimed_step) code_simp+
  have to2: "sys_steps same_value (server ''FIFO'' 5) r2"
    using submit_step[of same_value "server ''FIFO'' 5" 7 io_text, folded r1_def] take1 claim1
    by (meson r_into_rtranclp rtranclp_trans)
  have f2: "procer r2 = Claimed" "LPL (sts r2) = [0]" "quantum (shd r2) = 5" "LPB (shd r2) = []" "ioThreads (shd r2) = 1"
    unfolding r2_def r1_def by code_simp+
  have "case images r2 0 of None \<Rightarrow> False | Some i \<Rightarrow> fresh io_text i" unfolding r2_def r1_def by code_simp
  then obtain i where i: "images r2 0 = Some i" "fresh io_text i" by (auto split: option.splits)
  obtain ms where r3: "run3 r2 = Inr (r2\<lparr>procer := Idle, sts := (sts r2)\<lparr>LPL := []\<rparr>,
      shd := (shd r2)\<lparr>LPB := LPB (shd r2) @ [\<lparr>io_image = 0, ioTime = 1, flagNonBlocking = True\<rparr>],
        LPB_empty := LPB_empty (shd r2) + 1, SUSPEND := False, sendingList := ms\<rparr>,
      images := (images r2)(0 := None), MMP_sem := MMP_sem r2 + 1, MPS_sem := MPS_sem r2 + 1\<rparr>)" (is "_ = Inr ?r3")
    using io_run3[OF f2(2) i] f2(3-5) by auto
  have "sys_steps same_value (server ''FIFO'' 5) ?r3"
    using to2 run3_step[OF f2(1) r3] by (rule rtranclp.rtrancl_into_rtrancl)
  moreover have "0 < LPB_empty (shd ?r3) \<and> 0 < ioThreads (shd ?r3) \<and> ioThread_start ?r3 = Inl UB"
    using f2 by (simp add: ioThread_start_def load_img_def)
  ultimately show ?thesis by blast
qed

text \<open>What a message of a connected client does. Without a free place for a loaded process it is left
  for later; a failed read changes nothing; any type but \<open>R\<close> takes a place and never gives it back;
  \<open>R\<close> resumes the first suspended process of the client, changes nothing if the client has none among
  the suspended ones, and with no suspended process at all it follows an uninitialised pointer.\<close>

theorem client_messages:
  assumes "live (images s) (LPS s)" and "0 < MMP_sem s"
  shows "LTSconex_resume fd m (s\<lparr>MMP_sem := 0\<rparr>) = Inr (s\<lparr>MMP_sem := 0\<rparr>)
    \<and> LTSconex_resume fd None s = Inr s
    \<and> (t \<noteq> CHR ''R'' \<longrightarrow> LTSconex_resume fd (Some t) s = Inr (s\<lparr>MMP_sem := MMP_sem s - 1\<rparr>))
    \<and> (LPS s = a @ p # b \<and> clientfd (the (images s p)) = fd \<and> (\<forall>x \<in> set a. clientfd (the (images s x)) \<noteq> fd) \<longrightarrow>
        LTSconex_resume fd (Some (CHR ''R'')) s
          = Inr (s\<lparr>MMP_sem := MMP_sem s - 1, LPS := a @ b, sts := enqueue_source 6 p (sts s)\<rparr>))
    \<and> (LPS s \<noteq> [] \<and> (\<forall>x \<in> set (LPS s). clientfd (the (images s x)) \<noteq> fd) \<longrightarrow>
        LTSconex_resume fd (Some (CHR ''R'')) s = Inr s)
    \<and> (LPS s = [] \<longrightarrow> LTSconex_resume fd (Some (CHR ''R'')) s = Inl UB)"
proof -
  have live: "\<forall>p \<in> set (LPS s). images s p \<noteq> None" using assms(1) by (simp add: live_def)
  have found: "restoreSuspended (images s) (a @ p # b) fd = Inr (Some p, a @ b)"
    if "LPS s = a @ p # b" "clientfd (the (images s p)) = fd" "\<forall>x \<in> set a. clientfd (the (images s x)) \<noteq> fd"
  proof -
    have "takeWhile (\<lambda>x. clientfd (the (images s x)) \<noteq> fd) (a @ p # b) = a"
      using that(2,3) by (intro takeWhile_append_stop) simp_all
    then show ?thesis using live that(1) by (simp add: restoreSuspended_def ls_remove_def)
  qed
  have none: "restoreSuspended (images s) (LPS s) fd = Inr (None, LPS s)"
    if "LPS s \<noteq> []" "\<forall>x \<in> set (LPS s). clientfd (the (images s x)) \<noteq> fd"
  proof -
    have "length (takeWhile (\<lambda>x. clientfd (the (images s x)) \<noteq> fd) (LPS s)) = length (LPS s)"
      using that(2) by (subst takeWhile_all) simp_all
    then show ?thesis using live that(1) by (simp only: restoreSuspended_def Let_def) simp
  qed
  show ?thesis
    using assms(2) found none live
    by (auto simp: LTSconex_resume_def restoreSuspended_def Let_def)
qed

lemma client_messages_witness:
  "LTSconex_resume 7 (Some (CHR ''R'')) one_script = Inl UB
   \<and> LTSconex_resume 7 (Some (CHR ''X'')) one_script = Inr (one_script\<lparr>MMP_sem := 0\<rparr>)"
proof -
  have "live (images one_script) (LPS one_script)" "0 < MMP_sem one_script" using one_script_facts(6,7) by (simp_all add: live_def)
  from client_messages[OF this, of 7 None "CHR ''X''" "[]" 0 "[]"] one_script_facts(6,7) show ?thesis by simp
qed

end
