(* ===== verification/PP_Server_Props.thy ===== *)
theory PP_Server_Props
  imports PP_Served PP_Messages PP_Setup PP_Reload PP_System_Props
begin

text \<open>
  The properties of the server with its sockets, its interpreter and its clients: what it executes
  and sends, and what a client is shown in the end.
\<close>

section \<open>A server with one script that prints\<close>

definition print_text :: string where
  "print_text = ''comienzo_programa'' @ [NL] @ ''variables a'' @ [NL] @ ''a=1'' @ [NL] @ ''imprimir a'' @ [NL] @ ''fin_programa''"

definition print_lines :: "string list" where
  "print_lines = [''comienzo_programa'', ''variables a'', ''a=1'', ''imprimir a'', ''fin_programa'']"

lemma print_code: "codeSegmentCreator print_text = Inr print_lines"
proof -
  have "\<not> CHR ''#'' \<in> set (last (split_nl print_text))" by code_simp
  moreover have "length print_text \<le> 65533" by (simp add: print_text_def)
  moreover have "map (\<lambda>l. string_trim (strip_comment l)) (split_nl print_text) = print_lines" by code_simp
  ultimately show ?thesis by (simp add: codeSegmentCreator_spec)
qed

definition print_run :: "system \<Rightarrow> xstate res" where
  "print_run s = processExecution 9 print_lines
     (next_addr s) (\<lambda>_ sd. sd) (dispatch_state (new_image 7 (next_pid s) print_text 5 (TANT s)) (shd s))"

definition prints_one :: "xstate res \<Rightarrow> bool" where
  "prints_one r \<longleftrightarrow> (case r of Inl _ \<Rightarrow> False
     | Inr st \<Rightarrow> piPC (img st) = 4
      \<and> sendingList (sh st) = [\<lparr>msg_fd = 7, msg_type = CHR ''N'', msg_text = ''IMPRIMIENDO VARIABLE a: 1'' @ [NL]\<rparr>]
      \<and> (case prepareMessage (img st) of Inl _ \<Rightarrow> False | Inr d \<Rightarrow> NUL \<notin> set d \<and> length d \<le> 400))"

lemma prepareMessage_Tspn: "prepareMessage (i\<lparr>Tspn := x\<rparr>) = prepareMessage i"
  by (simp add: prepareMessage_def)

lemma print_alone:
  "\<exists>dump. runs_alone same_value 7 print_text 5 (server ''RR'' 5) [''IMPRIMIENDO VARIABLE a: 1'' @ [NL]] dump
    \<and> NUL \<notin> set dump \<and> length dump \<le> 400"
proof -
  let ?s = "server ''RR'' 5"
  have "prints_one (print_run ?s)" by code_simp
  then obtain st dump where st: "print_run ?s = Inr st" "piPC (img st) = 4"
    "sendingList (sh st) = [\<lparr>msg_fd = 7, msg_type = CHR ''N'', msg_text = ''IMPRIMIENDO VARIABLE a: 1'' @ [NL]\<rparr>]"
    and dump: "prepareMessage (img st) = Inr dump" "NUL \<notin> set dump" "length dump \<le> 400"
    by (auto simp: prints_one_def split: sum.splits)
  have "code_line print_lines (piPC (img st)) = Inr ''fin_programa''" "sendingList (shd ?s) = []"
    unfolding st(2) by code_simp+
  then have "runs_alone same_value 7 print_text 5 ?s [''IMPRIMIENDO VARIABLE a: 1'' @ [NL]] dump"
    unfolding runs_alone_def prepareMessage_Tspn using print_code st dump(1)
    by (intro exI[of _ print_lines] exI[of _ 9] exI[of _ st]) (simp add: print_run_def msg_to_def)
  then show ?thesis using dump by blast
qed

text \<open>The server has taken it up.\<close>

definition printing :: system where
  "printing = take_new (submit 7 print_text (server ''RR'' 5))"

lemma printing_steps: "sys_steps same_value (main_init 3 2 1 ''RR'' 5 0 1 0 initial_queues) printing"
proof -
  let ?s = "submit 7 print_text (server ''RR'' 5)"
  have "strSwitch (ALG (shd ?s)) \<in> {1, 2}" "0 < source_sem 5 (sts ?s)" "\<not> isl (STS_take (images ?s) 5 (sts ?s))"
    by code_simp+
  from take_step[OF this] show ?thesis
    unfolding printing_def server_def[symmetric] by (meson r_into_rtranclp submit_step rtranclp.rtrancl_into_rtrancl)
qed

lemma printing_facts:
  "LPL (sts printing) = [0]" "map_option piCode (images printing 0) = Some print_text" "wf_code print_lines 1 4"
  by code_simp+

text \<open>A connection that brings the script, and a message for its number.\<close>

definition script_sock :: sock where
  "script_sock = \<lparr>rx = ''#'' @ script_format.wire [(script_message print_text, 5)],
     arrivals = [Avail 1, Avail 65535, Avail 65535], tx = [], acceptances = [Accept 1, Accept 65535, Accept 65535]\<rparr>"

lemma script_greets: "greets print_text 5 script_sock [] [] [Accept 65535]"
  by (simp add: greets_def script_sock_def print_text_def)

section \<open>From end to end\<close>



section \<open>What the server executes\<close>

text \<open>C11. Every image fits its script, in every state the server can reach, whatever the algorithm: if the
  script of a process is well formed, then its data segment holds declared variables, its program
  counter points to a line, and every saved activation is one of a function of the script.\<close>

theorem images_fit_their_scripts:
  assumes "sys_steps rnd (main_init MPS MMP k alg q st tant alfa qs) s"
    and "images s p = Some i" and "codeSegmentCreator (piCode i) = Inr code" and "wf_code code V L"
  shows "image_ok code V L i"
  using typing.steps[OF assms(1) main_init_typed] assms(2-4) by (simp add: typed_def fits_def)

lemma images_fit_their_scripts_witness: "\<exists>i. images printing 0 = Some i \<and> image_ok print_lines 1 4 i"
proof -
  obtain i where i: "images printing 0 = Some i" "piCode i = print_text" using printing_facts(2) by auto
  show ?thesis
    using images_fit_their_scripts[OF printing_steps i(1) print_code[folded i(2)] printing_facts(3)] i(1) by blast
qed

text \<open>The server executes well-formed scripts safely. Under \<open>FIFO\<close> and \<open>RR\<close>, in every state it can
  reach, dispatching the first ready process has no undefined behaviour, whatever the scripts of the others,
  unless the process stops with more than 90 variables, or suspended inside a function: then its
  dump cannot be trusted.\<close>

theorem server_executes_safely:
  assumes "alg = ''FIFO'' \<or> alg = ''RR''" and "0 \<le> q" and "sys_steps rnd (main_init MPS MMP k alg q st tant alfa qs) s"
    and "LPL (sts s) = p # l" and "images s p = Some i"
    and "codeSegmentCreator (piCode i) = Inr code" and "wf_code code V L" and "signal_env env"
  shows "PROCER_run rnd n env s \<noteq> Inl UB
    \<or> (\<exists>x. processExecution n code p env (dispatch_state i (shd s)) = Inr x
         \<and> (90 < length (declared (piData (img x))) \<or> SUSPEND (sh x) \<and> piStack (img x) \<noteq> []))"
  using dispatch_safe[OF order.steps[OF assms(3) main_init_ok[OF assms(1,2)]]
      typing.steps[OF assms(3) main_init_typed] assms(8,4-7)] .

lemma server_executes_safely_witness: "PROCER_run same_value 9 (\<lambda>_ sd. sd) printing \<noteq> Inl UB"
proof -
  obtain i where i: "images printing 0 = Some i" "piCode i = print_text" using printing_facts(2) by auto
  have "case processExecution 9 print_lines 0 (\<lambda>_ sd. sd) (dispatch_state (the (images printing 0)) (shd printing)) of
      Inl _ \<Rightarrow> False | Inr x \<Rightarrow> length (declared (piData (img x))) \<le> 90 \<and> \<not> SUSPEND (sh x)"
    by code_simp
  then have "\<not> (\<exists>x. processExecution 9 print_lines 0 (\<lambda>_ sd. sd) (dispatch_state i (shd printing)) = Inr x
      \<and> (90 < length (declared (piData (img x))) \<or> SUSPEND (sh x) \<and> piStack (img x) \<noteq> []))"
    using i(1) by auto
  moreover have "signal_env (\<lambda>_ sd. sd)" by (simp add: signal_env_def)
  ultimately show ?thesis
    using server_executes_safely[OF disjI2[OF refl] _ printing_steps printing_facts(1) i(1) print_code[folded i(2)]
      printing_facts(3), of "\<lambda>_ sd. sd" 9] by auto
qed

section \<open>What the server sends\<close>






text \<open>C26. The number of a closed descriptor is used again. A client hangs up while a message waits for it;
  \<open>LTSconex\<close> closes its descriptor but leaves the message in the list and its process in the system. The
  next client, accepted under the same number, is sent the message of the other one.\<close>

theorem closed_number_is_reused:
  assumes "has hup EPOLLRDHUP" and "event_fd hup = fd" and "fd \<noteq> serverfd" and "0 < MPS_sem (srv l)"
    and "sendingList (shd (srv l)) = a @ m # b" and "msg_fd m = fd" and "\<forall>x \<in> set a. msg_fd x \<noteq> fd" and "sendable m"
    and "greets f prio sk later as (Accept 65535 # acc)"
  shows "\<exists>l'. LTSconex_events serverfd [(None, hup), (Some (fd, sk), \<lparr>event_fd = serverfd, events = EPOLLIN\<rparr>),
       (None, \<lparr>event_fd = fd, events = EPOLLOUT\<rparr>)] l = Inr l'
    \<and> (\<exists>sk'. socks l' fd = Some sk'
         \<and> tx sk' = tx sk @ ''!'' @ plain_format.wire [stream_of (answer fd (srv l)), stream_of m])
    \<and> dom (images (srv l)) \<subseteq> dom (images (srv l'))"
proof -
  let ?s = "LTSconex_new fd (CHR ''N'') f prio (srv l)" and ?in = "\<lparr>event_fd = serverfd, events = EPOLLIN\<rparr>"
    and ?out = "\<lparr>event_fd = fd, events = EPOLLOUT\<rparr>"
  define sk1 where "sk1 = sk\<lparr>rx := later, arrivals := as, acceptances := Accept 65535 # acc,
      tx := tx sk @ ''!'' @ plain_format.wire [stream_of (answer fd (srv l))]\<rparr>"
  define l2 where "l2 = \<lparr>srv = ?s, socks = (socks (close_fd fd l))(fd \<mapsto> sk1)\<rparr>"
  have 1: "LTSconex_event serverfd None hup l = Inr (close_fd fd l)"
    using assms(1,2) by (simp add: LTSconex_event_def)
  have "accept_client (Some (fd, sk)) (close_fd fd l) = Inr l2"
    using accept_script[OF assms(9), of "close_fd fd l" fd] assms(4) by (simp add: l2_def sk1_def)
  then have 2: "LTSconex_event serverfd (Some (fd, sk)) ?in (close_fd fd l) = Inr l2"
    by (simp add: LTSconex_event_def has_def epoll_masks)
  have s: "sendingList (shd (srv l2)) = a @ m # b" "dom (images (srv l)) \<subseteq> dom (images ?s)"
    using assms(5) by (auto simp: l2_def LTSconex_new_def write_client_def Let_def)
  let ?l3 = "\<lparr>srv = (srv l2)\<lparr>shd := (shd (srv l2))\<lparr>sendingList := a @ b\<rparr>, outbox := outbox (srv l2) @ [m]\<rparr>,
    socks = (socks l2)(fd \<mapsto> sk1\<lparr>acceptances := acc, tx := tx sk1 @ plain_format.wire [stream_of m]\<rparr>)\<rparr>"
  have "client_message_out fd l2 = Inr ?l3"
    by (rule message_out_first[OF s(1) assms(6-8)]) (simp_all add: l2_def sk1_def)
  then have 3: "LTSconex_event serverfd None ?out l2 = Inr ?l3"
    by (simp add: LTSconex_event_def has_def epoll_masks)
  have "LTSconex_events serverfd [(None, hup), (Some (fd, sk), ?in), (None, ?out)] l = Inr ?l3"
    by (simp add: 1 2 3)
  then show ?thesis using s(2)
    by (intro exI[of _ ?l3]) (simp add: l2_def sk1_def plain_format.wire_def)
qed

lemma closed_number_is_reused_witness:
  "\<exists>l' sk'. LTSconex_events 4 [(None, \<lparr>event_fd = 7, events = EPOLLRDHUP\<rparr>),
       (Some (7, script_sock), \<lparr>event_fd = 4, events = EPOLLIN\<rparr>), (None, \<lparr>event_fd = 7, events = EPOLLOUT\<rparr>)]
     \<lparr>srv = (server ''RR'' 5)\<lparr>shd := (shd (server ''RR'' 5))\<lparr>sendingList := [msg_to 7 (CHR ''N'') ''ajeno'']\<rparr>\<rparr>,
       socks = \<lambda>_. None\<rparr> = Inr l'
   \<and> socks l' 7 = Some sk' \<and> tx sk' = ''!'' @ plain_format.wire
       [stream_of (msg_to 7 NUL ''Script AnSISOP cargado''), stream_of (msg_to 7 (CHR ''N'') ''ajeno'')]"
proof -
  let ?s = "(server ''RR'' 5)\<lparr>shd := (shd (server ''RR'' 5))\<lparr>sendingList := [msg_to 7 (CHR ''N'') ''ajeno'']\<rparr>\<rparr>"
  have "answer 7 ?s = msg_to 7 NUL ''Script AnSISOP cargado''" by (simp add: answer_def msg_to_def server_def main_init_def)
  then show ?thesis
    using closed_number_is_reused[of "\<lparr>event_fd = 7, events = EPOLLRDHUP\<rparr>" 7 4 "\<lparr>srv = ?s, socks = \<lambda>_. None\<rparr>" "[]"
        "msg_to 7 (CHR ''N'') ''ajeno''" "[]" print_text 5 script_sock "[]" "[]" "[]"] script_greets
    by (auto simp: has_def epoll_masks msg_to_def sendable_def server_def main_init_def script_sock_def)
qed

section \<open>How the server ends\<close>

text \<open>C27. When the handler lets \<open>main\<close> end, under \<open>FIFO\<close> and \<open>RR\<close>, every queue of processes it destroys is empty,
  no image is left, no process holds the processor, and the only requests that are still queued or served are
  non-blocking ones, nobody waits for them.\<close>

theorem shutdown_finds_empty_queues:
  assumes "alg = ''FIFO'' \<or> alg = ''RR''" and "0 \<le> q" and "sys_steps rnd (main_init MPS MMP k alg q st tant alfa qs) s"
    and "snd (signal_handler MPS SIGINT s)"
  shows "images s = Map.empty \<and> procer s = Idle \<and> sts (main_end s) = sts s \<and> LFIFO (main_end s) = LFIFO s
    \<and> LPS (main_end s) = LPS s \<and> blocking (LPB (shd s) @ io_running s) = []"
proof -
  have o: "order_ok s" using order.steps[OF assms(3) main_init_ok[OF assms(1,2)]] .
  have "mps_ok MPS s" using places.steps[OF assms(3) main_init_mps] .
  then have e: "images s = Map.empty" using assms(4) by (auto simp: signal_handler_def mps_ok_def card_eq_0_iff)
  have "owns s" using o by (simp add: order_ok_def)
  from ended_queues[OF this e] empty_server(1)[OF o e] e show ?thesis by blast
qed

lemma shutdown_finds_empty_queues_witness:
  "snd (signal_handler 3 SIGINT (server ''RR'' 5)) \<and> sts (main_end (server ''RR'' 5)) = sts (server ''RR'' 5)"
proof -
  have "snd (signal_handler 3 SIGINT (server ''RR'' 5))" by (simp add: signal_handler_def server_def main_init_def)
  then show ?thesis
    using shutdown_finds_empty_queues[of "''RR''" 5 same_value 3 2 1 0 1 0 initial_queues "server ''RR'' 5"]
    by (simp add: server_def)
qed

text \<open>C28. \<open>PROCER\<close> gives the place of a process back before its last message is sent: the server can reach a
  state in which \<open>SIGINT\<close> ends it although the dump still waits, and \<open>main\<close> destroys the message.\<close>

theorem shutdown_loses_messages:
  "\<exists>s. sys_steps same_value (server ''RR'' 5) s \<and> snd (signal_handler 3 SIGINT s)
     \<and> (\<exists>m \<in> set (pending 7 s). msg_type m = CHR ''T'') \<and> pending 7 (main_end s) = []"
proof -
  let ?s = "server ''RR'' 5"
  have o: "order_ok ?s" "images ?s = Map.empty" "0 < MPS_sem ?s" "0 < MMP_sem ?s"
    using main_init_ok[of "''RR''" 5 3 2 1 0 1 0 initial_queues] by (simp_all add: server_def main_init_def)
  obtain dump where "runs_alone same_value 7 print_text 5 ?s [''IMPRIMIENDO VARIABLE a: 1'' @ [NL]] dump"
    using print_alone by blast
  from run_alone[OF o this] obtain s where s: "sys_step same_value (ready_one 7 print_text 5 ?s) s" "MPS_sem s = MPS_sem ?s"
    "msg_to 7 (CHR ''T'') dump \<in> set (sendingList (shd s))"
    by auto
  have "sys_steps same_value ?s (LTSconex_new 7 (CHR ''N'') print_text 5 ?s)" by (blast intro: sys_step.new_script)
  with ready_one_steps[OF o] s(1) have "sys_steps same_value ?s s" by (meson rtranclp.rtrancl_into_rtrancl rtranclp_trans)
  moreover have "snd (signal_handler 3 SIGINT s)" using s(2) by (simp add: signal_handler_def server_def main_init_def)
  moreover have "\<exists>m \<in> set (pending 7 s). msg_type m = CHR ''T''"
    using s(3) by (intro bexI[of _ "msg_to 7 (CHR ''T'') dump"]) (auto simp: for_fd_def msg_to_def)
  ultimately show ?thesis by (intro exI[of _ s]) (simp add: main_end_def)
qed

section \<open>Reading the configuration again\<close>

definition alg_config :: "string \<Rightarrow> t_config" where
  "alg_config alg = projr (config_create ''./pp.config'' (Some (''ALG='' @ alg)))"

lemma alg_config_get:
  "config_get_string_value (alg_config ''PRI'') ''ALG'' = Some ''PRI''"
  "config_get_string_value (alg_config ''FIFO'') ''ALG'' = Some ''FIFO''"
proof -
  have get: "config_get_string_value (alg_config alg) ''ALG'' = lookup_line (''ALG='' @ alg) ''ALG''"
    if "config_ok (''ALG='' @ alg)" for alg
    using config_create_spec[OF that, of "''./pp.config''"] by (auto simp: alg_config_def)
  have "config_ok (''ALG='' @ ''PRI'')" "config_ok (''ALG='' @ ''FIFO'')"
    "lookup_line (''ALG='' @ ''PRI'') ''ALG'' = Some ''PRI''" "lookup_line (''ALG='' @ ''FIFO'') ''ALG'' = Some ''FIFO''"
    by code_simp+
  then show "config_get_string_value (alg_config ''PRI'') ''ALG'' = Some ''PRI''"
    "config_get_string_value (alg_config ''FIFO'') ''ALG'' = Some ''FIFO''"
    using get by simp_all
qed

text \<open>Reading the configuration again loses no process as long as the algorithm is \<open>FIFO\<close> or \<open>RR\<close>:
  whenever the file is modified, and in whatever order the three parts of reading it fall among the steps of
  the other threads, every process stays in exactly one place and every semaphore still counts its
  queue.\<close>

theorem reloading_keeps_processes:
  assumes "alg = ''FIFO'' \<or> alg = ''RR''" and "0 \<le> q"
    and "(tame_step rnd)\<^sup>*\<^sup>* (main_init MPS MMP k alg q st tant alfa qs) s"
  shows "distinct (placed s) \<and> set (placed s) = dom (images s)
    \<and> (\<forall>c \<in> {5, 6, 7, 8}. source_sem c (sts s) = length (source_queue c (sts s)))
    \<and> LPL_empty (sts s) + (if procer s = Claimed then 1 else 0) = length (LPL (sts s))"
  using tame_steps_ok[OF assms(3) main_init_ok[OF assms(1,2)]]
  by (simp add: order_ok_def owns_def sems_def sts_sems_def)

lemma reloading_keeps_processes_witness:
  "\<exists>s. reload_ALG 1 (alg_config ''FIFO'') (submit 7 print_text (server ''RR'' 5)) = Inr s
     \<and> ALG (shd s) = ''FIFO'' \<and> set (placed s) = {0} \<and> LPL_empty (sts s) = length (LPL (sts s))"
proof -
  let ?s = "submit 7 print_text (server ''RR'' 5)"
  define s where "s = ?s\<lparr>shd := (shd ?s)\<lparr>ALG := ''FIFO''\<rparr>\<rparr>"
  have r: "reload_ALG 1 (alg_config ''FIFO'') ?s = Inr s"
    by (simp add: reload_ALG_def alg_config_get apply_ALG_def s_def)
  have parts: "strSwitch (ALG (shd ?s)) \<in> {1, 2}" "dom (images ?s) = {0}" "procer ?s = Idle"
    by (auto simp: submit_def LTSconex_new_def server_def main_init_def write_client_def Let_def strSwitch_def)
  have "tame_step same_value (server ''RR'' 5) ?s"
    using live_step.other[OF submit_step] parts(1) by (simp add: tame_step_def)
  moreover have "tame_step same_value ?s s"
    using live_step.algorithm[OF r] by (simp add: tame_step_def s_def strSwitch_def)
  ultimately have "(tame_step same_value)\<^sup>*\<^sup>* (server ''RR'' 5) s" by auto
  from reloading_keeps_processes[OF disjI2[OF refl] _ this[unfolded server_def]] r parts(2,3)
  show ?thesis by (intro exI[of _ s]) (simp add: s_def)
qed

text \<open>C22. Changing the algorithm to one that sorts, while processes are ready, strands them: at the moment
  \<open>pp.config\<close> is read again they leave the ready queue for no other place. Whatever happens from then on,
  they are never dispatched, their images stay allocated and their places taken, and no \<open>SIGINT\<close> ends the
  server any more.\<close>

theorem switching_algorithm_strands:
  assumes "alg0 = ''FIFO'' \<or> alg0 = ''RR''" and "0 \<le> q"
    and "sys_steps rnd (main_init MPS MMP k alg0 q st tant alfa qs) s"
    and "procer s = Idle" and "p \<in> set (LPL (sts s))" and "length (LPL (sts s)) \<le> n"
    and "config_get_string_value config ''ALG'' = Some alg" and "alg = ''PRI'' \<or> alg = ''SPN''"
  shows "\<exists>s'. reload_ALG n config s = Inr s' \<and> (\<forall>s''. live_steps rnd s' s'' \<longrightarrow>
      images s'' p \<noteq> None \<and> p \<notin> set (placed s'') \<and> \<not> snd (signal_handler MPS SIGINT s''))"
proof -
  have o: "order_ok s" using order.steps[OF assms(3) main_init_ok[OF assms(1,2)]] .
  have m: "mps_ok MPS s" using places.steps[OF assms(3) main_init_mps] .
  obtain s' where s': "reload_ALG n config s = Inr s'" "images s' = images s" "MPS_sem s' = MPS_sem s"
      "next_addr s' = next_addr s" "stranded p s'"
    using switch_strands[OF o assms(4,5,7,8,6)] by blast
  have "images s'' p \<noteq> None \<and> p \<notin> set (placed s'') \<and> \<not> snd (signal_handler MPS SIGINT s'')"
    if l: "live_steps rnd s' s''" for s''
  proof -
    have "stranded p s''" "mps_ok MPS s''"
      using live_steps_stranded[OF l s'(5)] live_steps_mps[OF l mps_keep[OF m s'(2,4,3)]] by auto
    then show ?thesis by (auto simp: stranded_def mps_ok_def signal_handler_def card_eq_0_iff)
  qed
  then show ?thesis using s'(1) by blast
qed

lemma switching_algorithm_strands_witness:
  "\<exists>s'. reload_ALG 1 (alg_config ''PRI'') one_script = Inr s' \<and> images s' 0 \<noteq> None \<and> 0 \<notin> set (placed s')
     \<and> \<not> snd (signal_handler 3 SIGINT s')"
proof -
  have "0 \<in> set (LPL (sts one_script))" "length (LPL (sts one_script)) \<le> 1" by (simp_all add: one_script_facts(2))
  from switching_algorithm_strands[OF disjI2[OF refl] _ one_script_steps[unfolded server_def] one_script_facts(1) this
      alg_config_get(1)]
  show ?thesis by auto
qed

end
