(* ===== verification/PP_Interleaved_Props.thy ===== *)
theory PP_Interleaved_Props
  imports PP_Interleaved PP_Server_Props
begin

text \<open>
  What holds at every moment of every interleaving of the server's threads, with \<open>PROCER\<close> anywhere in
  a script: the limits, where every process is, and that no sentence of a well-formed script is undefined.
\<close>

section \<open>The limits\<close>

lemma known_address: "m p = Some i \<Longrightarrow> insert p (dom m) = dom m"
  by blast



definition core_held :: "system \<times> dispatched option \<Rightarrow> system" where
  "core_held f = (case f of (s, None) \<Rightarrow> s | (s, Some r) \<Rightarrow> held r s)"

lemma core_held_simps [simp]: "core_held (s, None) = s" "core_held (s, Some r) = held r s"
  by (simp_all add: core_held_def)

lemma fine_order: "fine_ok f \<Longrightarrow> order_ok (core_held f)"
  by (cases f, cases "snd f") (auto simp: fine_ok_def elim: fine_okE)

lemma core_held_step:
  assumes "live_step rnd s s'" and "procer s' = procer s"
  shows "live_step rnd (core_held (s, cpu)) (core_held (s', cpu))"
  using assms held_step by (cases cpu) auto

lemma mmp_core [simp]: "mmp_ok m (core_held (s, cpu)) = mmp_ok m s"
  by (cases cpu) (simp_all add: mmp_ok_def held_def)


lemma live_mmp:
  assumes "live_step rnd s s'" and "order_ok s" and "mmp_ok m s"
  shows "mmp_ok m s'"
  using assms(1)
proof (cases rule: live_step.cases)
  case other
  then show ?thesis using step_loaded[OF other assms(2)] step_ok[OF other assms(2)] assms(2,3)
    by (simp add: order_ok_def mmp_loaded)
next
  case algorithm
  then show ?thesis by (rule reload_eqs) (use assms(3) in \<open>simp add: mmp_ok_def\<close>)
next
  case priorities
  then show ?thesis by (rule priorities_eq) (use assms(3) in \<open>simp add: mmp_ok_def\<close>)
next
  case time
  then show ?thesis by (rule time_eq) (use assms(3) in \<open>simp add: mmp_ok_def\<close>)
qed

lemma mmp_change:
  assumes "mmp_ok m s" and "finite (dom (images s))" and "images s p = Some i" and "PROCER_after code p i' st s = Inr s'"
  shows "mmp_ok m s'"
proof -
  have "Suc (card (dom (images s) - {p})) = card (dom (images s))"
    using assms(2,3) by (intro card_Suc_Diff1) auto
  then show ?thesis using assms(1) known_address[of "images s" p, OF assms(3)]
    by (cases rule: PROCER_after_counts[OF assms(4)]) (simp_all add: mmp_ok_def)
qed

lemma fine_step_mmp: "fine_step rnd f f' \<Longrightarrow> fine_ok f \<Longrightarrow> mmp_ok m (fst f) \<Longrightarrow> mmp_ok m (fst f')"
proof (induction rule: fine_step.induct)
  case (other s s' cpu)
  then show ?case using live_mmp[OF core_held_step[OF other(1,2)] fine_order[OF other(3)]] by simp
next
  case (claims s s')
  then show ?case using live_mmp[OF live_step.other[OF sys_step.claim[of s s' rnd]]] by (simp add: fine_ok_def)
next
  case (dispatch s s' r)
  from dispatch(2) show ?case
    by (rule PROCER_dispatch_cases) (use dispatch in \<open>auto simp: put_back_def mmp_ok_def known_address\<close>)
next
  case (sentence r s s' r')
  from sentence(2) show ?case
    by (rule PROCER_round_cases) (use sentence in \<open>auto simp: put_back_def mmp_ok_def known_address\<close>)
next
  case (leave r s s')
  from leave(2) obtain i i' where i: "images s (cpu_addr r) = Some i" "PROCER_after (cpu_code r) (cpu_addr r) i' (seen r i s) s = Inr s'"
    by (auto simp: PROCER_finish_def load_img_def split: option.splits)
  have "finite (dom (images s))"
    using fine_order[OF leave(3)] by (auto simp: order_ok_def owns_def dest: sym intro: finite_subset[of _ "set (placed (held r s))"])
  then show ?case using mmp_change[OF _ _ i] leave(4) by simp
qed

section \<open>Sentences of well-formed scripts\<close>

definition fine_typed :: "system \<times> dispatched option \<Rightarrow> bool" where
  "fine_typed f \<longleftrightarrow> typed (fst f) \<and> (\<forall>r i V L. snd f = Some r \<longrightarrow> images (fst f) (cpu_addr r) = Some i \<longrightarrow> wf_code (cpu_code r) V L
     \<longrightarrow> at_control (\<lambda>st. image_ok (cpu_code r) V L (img st)) (func_ok (cpu_code r) V L) (cpu_control r) (seen r i (fst f)))"

lemma at_control_image:
  "at_control (\<lambda>st. image_ok code V L (img st)) (func_ok code V L) c st \<Longrightarrow> image_ok code V L (img st)"
  by (cases c) (auto simp: func_ok_def image_main)

lemma at_control_img:
  "img st' = img st \<Longrightarrow> at_control (\<lambda>st. image_ok code V L (img st)) (func_ok code V L) c st'
    = at_control (\<lambda>st. image_ok code V L (img st)) (func_ok code V L) c st"
  by (cases c) (simp_all add: func_ok_def main_ok_def ready_def)

lemma safe_round:
  assumes "wf_code code V L" and "at_control (\<lambda>st. image_ok code V L (img st)) (func_ok code V L) c st" and "c \<noteq> Finished"
  shows "post False (\<lambda>(c', st'). at_control (\<lambda>st. image_ok code V L (img st)) (func_ok code V L) c' st') (exec_round code self c st)"
  using exec_invariant.round_post[OF safety_invariant[OF assms(1)] assms(2,3), of self]
  by (rule post_mono) auto

lemma safe_start:
  assumes "wf_code code V L" and "image_ok code V L (img st)"
  shows "post False (\<lambda>(c, st'). at_control (\<lambda>st. image_ok code V L (img st)) (func_ok code V L) c st') (exec_start st)"
  using exec_invariant.exec_start_post[OF safety_invariant[OF assms(1)] assms(2)]
  by (rule post_mono) auto

lemma fits_at_control:
  assumes "codeSegmentCreator (piCode (img st)) = Inr code"
    and "\<And>V L. wf_code code V L \<Longrightarrow> at_control (\<lambda>st. image_ok code V L (img st)) (func_ok code V L) c st"
  shows "fits (img st)"
  unfolding fits_def using assms at_control_image by fastforce

lemma live_typed:
  assumes "live_step rnd s s'" and "typed s"
  shows "typed s'"
  using assms(1)
proof (cases rule: live_step.cases)
  case other
  then show ?thesis using step_typed assms(2) by blast
next
  case algorithm
  then show ?thesis by (rule reload_eqs) (simp add: typed_keep[OF assms(2)])
next
  case priorities
  then show ?thesis by (rule priorities_eq) (simp add: typed_keep[OF assms(2)])
next
  case time
  then show ?thesis by (rule time_eq) (simp add: typed_keep[OF assms(2)])
qed

lemma other_typed:
  assumes "live_step rnd s s'" and "procer s' = procer s" and "fine_ok (s, cpu)" and "fine_typed (s, cpu)"
  shows "fine_typed (s', cpu)"
proof (cases cpu)
  case None
  then show ?thesis using assms live_typed by (simp add: fine_typed_def)
next
  case (Some r)
  obtain i where i: "order_ok (held r s)" "images s (cpu_addr r) = Some i"
    using assms(3) by (auto simp: Some elim: fine_okE)
  then have "cpu_addr r \<noteq> next_addr s" by (auto simp: order_ok_def owns_def)
  then have "images s' (cpu_addr r) = Some i" using other_keeps[OF assms(1,2)] i(2) by (auto simp: kept_def)
  moreover have "typed s'" using assms live_typed by (simp add: fine_typed_def)
  ultimately show ?thesis
    using assms(4) i(2) at_control_img[of "seen r i s'" "seen r i s"] by (auto simp: fine_typed_def Some)
qed

lemma fine_step_typed: "fine_step rnd f f' \<Longrightarrow> fine_ok f \<Longrightarrow> fine_typed f \<Longrightarrow> fine_typed f'"
proof (induction rule: fine_step.induct)
  case (other s s' cpu)
  then show ?case using other_typed by blast
next
  case (claims s s')
  then show ?case using step_typed[OF sys_step.claim[of s s' rnd]] by (simp add: fine_typed_def)
next
  case (dispatch s s' r)
  from dispatch(2) show ?case
  proof (rule PROCER_dispatch_cases)
    fix p q i code c st
    assume i: "images s p = Some i" and code: "codeSegmentCreator (piCode i) = Inr code"
      and start: "exec_start (dispatch_state i (shd s)) = Inr (c, st)"
      and s': "s' = put_back p st (s\<lparr>procer := Idle, sts := (sts s)\<lparr>LPL := q\<rparr>\<rparr>)"
      and r: "r = \<lparr>cpu_addr = p, cpu_code = code, cpu_control = c, cpu_locals = st\<rparr>"
    have typed: "typed s" using dispatch(4) by (simp add: fine_typed_def)
    have at: "at_control (\<lambda>st. image_ok code V L (img st)) (func_ok code V L) c st" if "wf_code code V L" for V L
      using safe_start[OF that, of "dispatch_state i (shd s)"] start typed i code that
      by (auto simp: typed_def fits_def dispatch_state_def)
    have "piCode (img st) = piCode i" using start
      by (auto simp: exec_start_def resume_stack_def res_simps dispatch_state_def split: if_splits option.splits)
    then have "fits (img st)" using code by (intro fits_at_control[OF _ at]) simp
    then have "typed s'" using typed_upd[OF typed, of "img st" s' p] by (simp add: s' put_back_def)
    moreover have "at_control (\<lambda>st. image_ok code V L (img st)) (func_ok code V L) c (seen r (img st) s')"
      if "wf_code code V L" for V L by (subst at_control_img[of _ st]) (use at[OF that] in simp_all)
    moreover have "images s' p = Some (img st)" by (simp add: s' put_back_def)
    ultimately show ?thesis by (simp add: fine_typed_def r)
  qed
next
  case (sentence r s s' r')
  from sentence(2) show ?case
  proof (rule PROCER_round_cases)
    fix i c st
    assume i: "images s (cpu_addr r) = Some i"
      and round: "exec_round (cpu_code r) (cpu_addr r) (cpu_control r) (seen r i s) = Inr (c, st)"
      and s': "s' = put_back (cpu_addr r) st s" and r': "r' = r\<lparr>cpu_control := c, cpu_locals := st\<rparr>"
    have on: "on_processor (cpu_code r) (cpu_control r) (seen r i s)" "codeSegmentCreator (piCode i) = Inr (cpu_code r)"
      using sentence(3) i by (auto elim: fine_okE)
    have at: "at_control (\<lambda>st. image_ok (cpu_code r) V L (img st)) (func_ok (cpu_code r) V L) c st" if "wf_code (cpu_code r) V L" for V L
      using safe_round[OF that _ sentence(1), of "seen r i s" "cpu_addr r"] round sentence(4) i that by (simp add: fine_typed_def)
    have "piCode (img st) = piCode i" using round_effect(2)[OF round on(1) sentence(1)] by (simp add: same_process_def)
    then have "fits (img st)" using on(2) by (intro fits_at_control[OF _ at]) simp
    moreover have "typed s" using sentence(4) by (simp add: fine_typed_def)
    ultimately have "typed s'" using typed_upd[of s "img st" s' "cpu_addr r"] by (simp add: s' put_back_def)
    moreover have "at_control (\<lambda>st. image_ok (cpu_code r) V L (img st)) (func_ok (cpu_code r) V L) c (seen r' (img st) s')"
      if "wf_code (cpu_code r) V L" for V L by (subst at_control_img[of _ st]) (use at[OF that] in simp_all)
    moreover have "images s' (cpu_addr r) = Some (img st)" by (simp add: s' put_back_def)
    ultimately show ?thesis by (simp add: fine_typed_def r')
  qed
next
  case (leave r s s')
  from leave(2) obtain i where i: "images s (cpu_addr r) = Some i" "PROCER_after (cpu_code r) (cpu_addr r)
      (i\<lparr>Tspn := next_Tspn rnd (ALFA s) (Tspn i) (rafaga (cpu_locals r))\<rparr>) (seen r i s) s = Inr s'"
    by (auto simp: PROCER_finish_def load_img_def split: option.splits)
  have "typed s" "fits i" using leave(4) i(1) by (auto simp: fine_typed_def typed_def)
  then have "typed s'"
    by (cases rule: PROCER_after_counts[OF i(2)]) (auto simp: typed_def)
  then show ?case by (simp add: fine_typed_def)
qed

text \<open>The next thing \<open>PROCER\<close> does with a well-formed script is defined and ends, up to the dump.\<close>

lemma next_safe:
  assumes "fine_ok (s, Some r)" and "fine_typed (s, Some r)" and wf: "wf_code (cpu_code r) V L"
  shows "if cpu_control r \<noteq> Finished
    then (\<exists>x. PROCER_round r s = Inr x)
      \<or> PROCER_round r s = Inl Deadlock \<and> cpu_control r = InMain \<and> length (LPB (shd s)) < ioThreads (shd s)
    else (\<exists>s'. PROCER_finish rnd r s = Inr s') \<or> (\<exists>i. images s (cpu_addr r) = Some i
      \<and> (90 < length (declared (piData i)) \<or> SUSPEND (shd s) \<and> piStack i \<noteq> []))"
  using assms(1)
proof (rule fine_okE)
  fix i
  assume i: "images s (cpu_addr r) = Some i" and on: "on_processor (cpu_code r) (cpu_control r) (seen r i s)"
  have at: "at_control (\<lambda>st. image_ok (cpu_code r) V L (img st)) (func_ok (cpu_code r) V L) (cpu_control r) (seen r i s)"
    using assms(2) i wf by (simp add: fine_typed_def)
  show ?thesis
  proof (cases "cpu_control r = Finished")
    case False
    let ?m = "exec_round (cpu_code r) (cpu_addr r) (cpu_control r) (seen r i s)"
    have "safe ?m" by (rule post_False_safe[OF safe_round[OF wf at False]])
    moreover have "faults (if cpu_control r = InMain \<and> io_available (seen r i s) then {UB, Deadlock} else {UB}) ?m"
      by (rule faults_round) auto
    ultimately show ?thesis using False i
      by (cases ?m) (auto simp: PROCER_round_def load_img_def io_available_def split: if_splits)
  next
    case True
    define i' where "i' = i\<lparr>Tspn := next_Tspn rnd (ALFA s) (Tspn i) (rafaga (cpu_locals r))\<rparr>"
    obtain line where "code_line (cpu_code r) (piPC i') = Inr line"
      using on True by (auto simp: on_processor_def exited_def i'_def split: sum.splits)
    moreover have "parked i' (cpu_code r)" using on_processor_parked[OF on] by (simp add: parked_def i'_def)
    moreover have "image_ok (cpu_code r) V L i'" using at_control_image[OF at] by (simp add: image_ok_def i'_def)
    ultimately show ?thesis using after_safe[of "cpu_code r" V L i' line "cpu_addr r" "seen r i s" s] True i
      by (auto simp: PROCER_finish_def load_img_def i'_def)
  qed
qed

text \<open>Every moment of every interleaving.\<close>

lemma tame_fines_ok:
  assumes "tame_fines rnd f f'" and "fine_ok f"
  shows "fine_ok f'" "mmp_ok m (fst f) \<Longrightarrow> mmp_ok m (fst f')" "fine_typed f \<Longrightarrow> fine_typed f'"
proof -
  have "fine_ok f' \<and> (mmp_ok m (fst f) \<longrightarrow> mmp_ok m (fst f')) \<and> (fine_typed f \<longrightarrow> fine_typed f')"
    using assms by (induction rule: rtranclp_induct) (auto simp: tame_fine_def intro: fine_step_ok fine_step_mmp fine_step_typed)
  then show "fine_ok f'" "mmp_ok m (fst f) \<Longrightarrow> mmp_ok m (fst f')" "fine_typed f \<Longrightarrow> fine_typed f'" by blast+
qed


section \<open>A script on its way through the processor\<close>

text \<open>The server that has claimed a script, dispatched it and read \<open>pp.config\<close> again.\<close>

lemma tame_if: "fine_step rnd f f' \<Longrightarrow> ALG (shd (fst f')) = ''RR'' \<or> ALG (shd (fst f')) = ''FIFO'' \<Longrightarrow> tame_fine rnd f f'"
  by (auto simp: tame_fine_def strSwitch_def)

lemma quiet_parts [simp]:
  "procer (take_new s) = procer s" "shd (take_new s) = shd s"
  "procer (submit fd script s) = procer s" "shd (submit fd script s) = shd s"
  "shd (claimed s) = shd s" "procer (claimed s) = Claimed" "images (claimed s) = images s"
  by (simp_all add: take_new_def submit_def LTSconex_new_def claimed_def Let_def write_client_def)

lemma server_parts [simp]: "ALG (shd (server ''RR'' 5)) = ''RR''" "procer (server ''RR'' 5) = Idle"
  by (simp_all add: server_def main_init_def)

lemma tame_other:
  "sys_step rnd s s' \<Longrightarrow> procer s' = procer s \<Longrightarrow> ALG (shd s') = ''RR'' \<Longrightarrow> tame_fine rnd (s, None) (s', None)"
  by (intro tame_if fine_step.other live_step.other) simp_all

lemma claimed_interleaved:
  assumes "take_new (submit 7 script (server ''RR'' 5)) = s" and "LPL_empty (sts s) = 1"
    and "\<not> isl (STS_take (images (submit 7 script (server ''RR'' 5))) 5 (sts (submit 7 script (server ''RR'' 5))))"
    and "0 < source_sem 5 (sts (submit 7 script (server ''RR'' 5)))"
  shows "tame_fines same_value (server ''RR'' 5, None) (claimed s, None)"
proof -
  let ?s1 = "submit 7 script (server ''RR'' 5)"
  have "tame_fine same_value (server ''RR'' 5, None) (?s1, None)" by (rule tame_other[OF submit_step]) simp_all
  moreover have "sys_step same_value ?s1 s" unfolding assms(1)[symmetric]
    by (rule take_step) (use assms(3,4) in \<open>simp_all add: strSwitch_def\<close>)
  then have "tame_fine same_value (?s1, None) (s, None)" by (rule tame_other) (simp_all add: assms(1)[symmetric])
  moreover have "tame_fine same_value (s, None) (claimed s, None)"
    using assms(2) by (intro tame_if claims) (simp_all add: PROCER_claim_def claimed_def assms(1)[symmetric])
  ultimately show ?thesis by simp
qed

lemma claimed_printing: "tame_fines same_value (server ''RR'' 5, None) (claimed printing, None)"
proof (rule claimed_interleaved)
  show "take_new (submit 7 print_text (server ''RR'' 5)) = printing" by (simp add: printing_def)
qed code_simp+

lemma printing_reloaded:
  obtains s r where "tame_fines same_value (main_init 3 2 1 ''RR'' 5 0 1 0 initial_queues, None) (s, Some r)"
    "cpu_addr r = 0" "cpu_code r = print_lines" "cpu_control r = InMain" "ALG (shd s) = ''FIFO''" "LPL (sts s) = []"
    "ioBlockInterrupt (cpu_locals r) = False"
proof -
  have facts: "LPL (sts (claimed printing)) = [0]" "ALG (shd (claimed printing)) = ''RR''"
    using printing_facts(1) by (simp_all add: claimed_def printing_def)
  obtain i where i: "images printing 0 = Some i" "piCode i = print_text" using printing_facts(2) by auto
  have "map_option piStack (images printing 0) = Some []" by code_simp
  then have "piStack i = []" using i by simp
  then have "exec_start (dispatch_state i sd) = Inr (InMain, dispatch_state i sd)" for sd
    by (simp add: exec_start_def dispatch_state_def)
  then have "\<exists>s r. PROCER_dispatch (claimed printing) = Inr (s, r) \<and> cpu_addr r = 0 \<and> cpu_code r = print_lines
      \<and> cpu_control r = InMain \<and> LPL (sts s) = [] \<and> ioBlockInterrupt (cpu_locals r) = False \<and> ALG (shd s) = ''RR''"
    using i facts print_code by (simp add: PROCER_dispatch_def load_img_def put_back_def dispatch_state_def)
  then obtain s r where s: "PROCER_dispatch (claimed printing) = Inr (s, r)" "cpu_addr r = 0" "cpu_code r = print_lines"
      "cpu_control r = InMain" "LPL (sts s) = []" "ioBlockInterrupt (cpu_locals r) = False" "ALG (shd s) = ''RR''" by blast
  have "tame_fine same_value (claimed printing, None) (s, Some r)"
    using s by (intro tame_if fine_step.dispatch) simp_all
  moreover define s' where "s' = s\<lparr>shd := (shd s)\<lparr>ALG := ''FIFO''\<rparr>\<rparr>"
  have "reload_ALG 1 (alg_config ''FIFO'') s = Inr s'"
    by (simp add: reload_ALG_def alg_config_get apply_ALG_def s'_def)
  then have "tame_fine same_value (s, Some r) (s', Some r)"
    by (intro tame_if fine_step.other live_step.algorithm) (simp_all add: s'_def)
  ultimately have "tame_fines same_value (main_init 3 2 1 ''RR'' 5 0 1 0 initial_queues, None) (s', Some r)"
    using claimed_printing unfolding server_def by (meson rtranclp.rtrancl_into_rtrancl)
  moreover have "LPL (sts s') = []" "ALG (shd s') = ''FIFO''" using s(5) by (simp_all add: s'_def)
  ultimately show ?thesis using that s by blast
qed


section \<open>The properties\<close>

lemma start_ok:
  assumes "alg = ''FIFO'' \<or> alg = ''RR''" and "0 \<le> q"
  shows "fine_ok (main_init MPS MMP k alg q st tant alfa qs, None)" "mmp_ok MMP (main_init MPS MMP k alg q st tant alfa qs)"
    "fine_typed (main_init MPS MMP k alg q st tant alfa qs, None)"
  using main_init_ok[OF assms] main_init_typed by (simp_all add: fine_ok_def fine_typed_def mmp_ok_def main_init_def)

text \<open>C3. Under \<open>FIFO\<close> and \<open>RR\<close>, whichever of them the configuration names whenever it is read again, no
  process is lost and none is queued twice, at any moment, also between two sentences of a script: the processes that wait, are ready, blocked on the device, suspended or delayed
  are pairwise different, and with the one on the processor they are exactly those whose image is
  allocated. The one on the processor is in a queue only once it has asked for the device.\<close>

theorem every_process_in_one_place_always:
  assumes "alg = ''FIFO'' \<or> alg = ''RR''" and "0 \<le> q"
    and "tame_fines rnd (main_init MPS MMP k alg q st tant alfa qs, None) (s, cpu)"
  shows "distinct (placed s) \<and> (case cpu of
      None \<Rightarrow> dom (images s) = set (placed s)
    | Some r \<Rightarrow> dom (images s) = insert (cpu_addr r) (set (placed s))
        \<and> (cpu_addr r \<in> set (placed s) \<longleftrightarrow> ioBlockInterrupt (cpu_locals r)))"
proof (cases cpu)
  case None
  then show ?thesis using tame_fines_ok(1)[OF assms(3) start_ok(1)[OF assms(1,2)]]
    by (simp add: fine_ok_def order_ok_def owns_def)
next
  case (Some r)
  obtain i where "order_ok (held r s)" "images s (cpu_addr r) = Some i"
    using tame_fines_ok(1)[OF assms(3) start_ok(1)[OF assms(1,2)]] by (auto simp: Some elim: fine_okE)
  then have o: "distinct (placed (held r s))" "dom (images s) = set (placed (held r s))" "cpu_addr r \<in> dom (images s)"
    by (auto simp: order_ok_def owns_def)
  have m: "mset (placed (held r s)) = mset ((if ioBlockInterrupt (cpu_locals r) then [] else [cpu_addr r]) @ placed s)"
    by (simp add: placed_def held_def)
  from mset_eq_setD[OF m] mset_eq_imp_distinct_iff[OF m] o show ?thesis by (auto simp: Some split: if_splits)
qed

lemma every_process_in_one_place_always_witness:
  "\<exists>s r. tame_fines same_value (main_init 3 2 1 ''RR'' 5 0 1 0 initial_queues, None) (s, Some r)
     \<and> ALG (shd s) = ''FIFO'' \<and> cpu_addr r = 0 \<and> cpu_addr r \<notin> set (placed s) \<and> cpu_addr r \<in> dom (images s)"
proof -
  obtain s r where s: "tame_fines same_value (main_init 3 2 1 ''RR'' 5 0 1 0 initial_queues, None) (s, Some r)"
    "ALG (shd s) = ''FIFO''" "cpu_addr r = 0" "ioBlockInterrupt (cpu_locals r) = False"
    by (rule printing_reloaded)
  have "cpu_addr r \<notin> set (placed s) \<and> cpu_addr r \<in> dom (images s)"
    using every_process_in_one_place_always[OF disjI2[OF refl] _ s(1)] s(4) by simp
  with s(1-3) show ?thesis by blast
qed







text \<open>C2. Well-formed scripts do not get stuck. Under \<open>FIFO\<close> and \<open>RR\<close>, whatever scripts the others
  have and in whatever order the threads have run, also between the sentences of this script: the next sentence
  \<open>PROCER\<close> executes is defined and ends, but for the one that locks a mutex twice (in the main program,
  with an I/O thread free). So does the end of the execution, unless the process stops with more than 90
  variables, or suspended inside a function: then its dump cannot be trusted.\<close>

theorem every_sentence_is_safe:
  assumes "alg = ''FIFO'' \<or> alg = ''RR''" and "0 \<le> q"
    and "tame_fines rnd (main_init MPS MMP k alg q st tant alfa qs, None) (s, Some r)" and "wf_code (cpu_code r) V L"
  shows "if cpu_control r \<noteq> Finished
    then (\<exists>x. PROCER_round r s = Inr x)
      \<or> PROCER_round r s = Inl Deadlock \<and> cpu_control r = InMain \<and> length (LPB (shd s)) < ioThreads (shd s)
    else (\<exists>s'. PROCER_finish rnd r s = Inr s') \<or> (\<exists>i. images s (cpu_addr r) = Some i
      \<and> (90 < length (declared (piData i)) \<or> SUSPEND (shd s) \<and> piStack i \<noteq> []))"
  using next_safe[OF tame_fines_ok(1,3)[OF assms(3) start_ok(1)[OF assms(1,2)]] assms(4)] start_ok(3)[OF assms(1,2)] by blast

lemma every_sentence_is_safe_witness:
  "\<exists>s r. tame_fines same_value (main_init 3 2 1 ''RR'' 5 0 1 0 initial_queues, None) (s, Some r)
     \<and> cpu_code r = print_lines \<and> PROCER_round r s \<noteq> Inl UB"
proof -
  obtain s r where s: "tame_fines same_value (main_init 3 2 1 ''RR'' 5 0 1 0 initial_queues, None) (s, Some r)"
    "cpu_code r = print_lines" "cpu_control r = InMain"
    by (rule printing_reloaded)
  have "PROCER_round r s \<noteq> Inl UB"
    using every_sentence_is_safe[OF disjI2[OF refl] _ s(1), of 1 4] printing_facts(3) s(2,3) by auto
  with s(1,2) show ?thesis by blast
qed





end
