(* ===== verification/PP_Interleaved_Race.thy ===== *)
theory PP_Interleaved_Race
  imports PP_Interleaved_Props
begin

text \<open>
  A race that shows only between two sentences: under \<open>SPN\<close> a process that waits for the device can be
  sorted into the ready queue before \<open>PROCER\<close> has updated its estimate. The execution is written out
  state by state.
\<close>

section \<open>The execution\<close>

text \<open>A script that asks for the device, on a server that sorts by the estimates.\<close>

definition device_text :: string where
  "device_text = ''a'' @ [NL] @ ''io(1,1)'' @ [NL] @ ''fin_programa''"

definition device_lines :: "string list" where
  "device_lines = [''a'', ''io(1,1)'', ''fin_programa'']"

lemma device_code: "codeSegmentCreator device_text = Inr device_lines"
proof -
  have "\<not> CHR ''#'' \<in> set (last (split_nl device_text))" by code_simp
  moreover have "length device_text \<le> 65533" by (simp add: device_text_def)
  moreover have "map (\<lambda>l. string_trim (strip_comment l)) (split_nl device_text) = device_lines" by code_simp
  ultimately show ?thesis by (simp add: codeSegmentCreator_spec)
qed

text \<open>It is dispatched; its second sentence asks for the device.\<close>

definition device_claimed :: system where
  "device_claimed = claimed (sort_round (submit 7 device_text (server ''SPN'' 5)))"

definition on_cpu :: "control \<Rightarrow> xstate \<Rightarrow> dispatched" where
  "on_cpu c st = \<lparr>cpu_addr = 0, cpu_code = device_lines, cpu_control = c, cpu_locals = st\<rparr>"

definition device_start :: "system \<times> dispatched" where
  "device_start = (let s = device_claimed; st = dispatch_state (the (images s 0)) (shd s)
     in (put_back 0 st (s\<lparr>procer := Idle, sts := (sts s)\<lparr>LPL := []\<rparr>\<rparr>), on_cpu InMain st))"

definition device_asked :: "system \<times> dispatched" where
  "device_asked = projr (PROCER_round (snd device_start) (fst device_start))"

text \<open>
  While \<open>PROCER\<close> has not gone on, another script arrives and is sorted, an I/O thread serves the request,
  and the process is sorted as well; then \<open>PROCER\<close> finds that it has to leave the processor.
\<close>

definition device_second :: system where
  "device_second = sort_round (submit 8 short_text (fst device_asked))"

definition device_waits :: system where
  "device_waits = projr (ioThread_finish 0 (projr (ioThread_start device_second)))"

definition device_served :: system where
  "device_served = sort_round device_waits"

definition device_left :: "system \<times> dispatched" where
  "device_left = projr (PROCER_round (snd device_asked) device_served)"

lemma device_dispatched: "PROCER_dispatch device_claimed = Inr device_start"
proof -
  have "LPL (sts device_claimed) = [0]" by code_simp
  moreover have "case images device_claimed 0 of None \<Rightarrow> False | Some i \<Rightarrow> piCode i = device_text \<and> piStack i = []" by code_simp
  then obtain i where "images device_claimed 0 = Some i" "piCode i = device_text" "piStack i = []" by (auto split: option.splits)
  ultimately show ?thesis
    by (simp add: PROCER_dispatch_def load_img_def device_code device_start_def on_cpu_def exec_start_def dispatch_state_def Let_def)
qed

lemma device_rounds:
  "PROCER_round (snd device_start) (fst device_start) = Inr device_asked"
  "PROCER_round (snd device_asked) device_served = Inr device_left"
proof -
  have "\<not> isl (PROCER_round (snd device_start) (fst device_start))" by code_simp
  then show "PROCER_round (snd device_start) (fst device_start) = Inr device_asked" by (simp add: device_asked_def)
  have "\<not> isl (PROCER_round (snd device_asked) device_served)" by code_simp
  then show "PROCER_round (snd device_asked) device_served = Inr device_left" by (simp add: device_left_def)
qed

lemma device_sorts1: "sys_step same_value (submit 8 short_text (fst device_asked)) device_second"
  unfolding device_second_def by (rule sort_step) code_simp+

lemma device_sorts2: "sys_step same_value device_waits device_served"
  unfolding device_served_def by (rule sort_step) code_simp+

lemma device_procer:
  "procer (fst device_asked) = Idle" "procer device_second = Idle" "procer (projr (ioThread_start device_second)) = Idle"
  "procer device_waits = Idle" "procer device_served = Idle"
  by code_simp+

lemma device_others: "fine_steps same_value (fst device_asked, cpu) (device_served, cpu)"
proof -
  define s1 where "s1 = projr (ioThread_start device_second)"
  have quiet: "fine_step same_value (s, cpu) (s', cpu)" if "sys_step same_value s s'" "procer s = Idle" "procer s' = Idle" for s s'
    using that by (auto intro: fine_step.other live_step.other)
  have "\<not> isl (ioThread_start device_second)" "0 < LPB_empty (shd device_second)" "0 < ioThreads (shd device_second)"
    by code_simp+
  then have "sys_step same_value device_second s1" by (intro sys_step.io_start) (simp_all add: s1_def)
  then have start: "fine_step same_value (device_second, cpu) (s1, cpu)" by (rule quiet) (simp_all add: device_procer s1_def)
  have "\<not> isl (ioThread_finish 0 (projr (ioThread_start device_second)))" by code_simp
  then have "ioThread_finish 0 s1 = Inr device_waits" by (simp add: s1_def device_waits_def)
  then have "sys_step same_value s1 device_waits" by (rule sys_step.io_finish)
  then have fin: "fine_step same_value (s1, cpu) (device_waits, cpu)" by (rule quiet) (simp_all add: device_procer s1_def)
  have "fine_step same_value (fst device_asked, cpu) (submit 8 short_text (fst device_asked), cpu)"
    by (rule quiet[OF submit_step]) (simp_all add: device_procer)
  moreover have "fine_step same_value (submit 8 short_text (fst device_asked), cpu) (device_second, cpu)"
    "fine_step same_value (device_waits, cpu) (device_served, cpu)"
    by (rule quiet[OF device_sorts1] quiet[OF device_sorts2]; simp add: device_procer)+
  ultimately show ?thesis using start fin by (meson r_into_rtranclp rtranclp.rtrancl_into_rtrancl)
qed

lemma device_end:
  "LPL (sts (fst device_left)) = [1, 0]" "cpu_control (snd device_left) = Finished" "cpu_addr (snd device_left) = 0"
  "cpu_code (snd device_left) = device_lines" "map_option Tspn (images (fst device_left) 0) = Some 1"
  "map_option piPC (images (fst device_left) 0) = Some 1" "map_option Tspn (images (fst device_left) 1) = Some 1"
  "rafaga (cpu_locals (snd device_left)) = 0" "ALFA (fst device_left) = 0" "ioBlockInterrupt (cpu_locals (snd device_left))"
  by code_simp+

section \<open>The property\<close>

definition estimate :: "system \<Rightarrow> addr \<Rightarrow> rat" where
  "estimate s p = (case images s p of None \<Rightarrow> 0 | Some i \<Rightarrow> Tspn i)"

lemma device_claims: "fine_steps same_value (server ''SPN'' 5, None) (device_claimed, None)"
proof -
  let ?s = "submit 7 device_text (server ''SPN'' 5)"
  have procer: "procer (server ''SPN'' 5) = Idle" "procer ?s = Idle" "procer (sort_round ?s) = Idle" "0 < LPL_empty (sts (sort_round ?s))"
    by code_simp+
  have sort: "sys_step same_value ?s (sort_round ?s)" by (rule sort_step) code_simp+
  have "fine_step same_value (server ''SPN'' 5, None) (?s, None)"
    by (intro fine_step.other live_step.other submit_step) (simp add: procer)
  moreover have "fine_step same_value (?s, None) (sort_round ?s, None)"
    using procer by (intro fine_step.other live_step.other sort) simp
  moreover have "fine_step same_value (sort_round ?s, None) (device_claimed, None)"
    using procer by (intro claims) (simp add: PROCER_claim_def claimed_def device_claimed_def)
  ultimately show ?thesis by (meson r_into_rtranclp rtranclp.rtrancl_into_rtrancl)
qed

text \<open>C25. Under \<open>SPN\<close> a process can be sorted by a stale estimate: \<open>PROCER\<close> updates the estimate of a process
  that asked for the device after its request is queued. An I/O thread and the scheduler may be faster, and
  then the update leaves the ready queue out of order.\<close>

theorem sorted_by_stale_estimate:
  "\<exists>s r s'. fine_steps same_value (server ''SPN'' 5, None) (s, Some r) \<and> PROCER_finish same_value r s = Inr s'
     \<and> cpu_addr r \<in> set (LPL (sts s)) \<and> LPL (sts s') = LPL (sts s)
     \<and> sorted (map (estimate s) (LPL (sts s))) \<and> \<not> sorted (map (estimate s') (LPL (sts s')))"
proof -
  have "procer device_claimed = Claimed" by (simp add: device_claimed_def)
  then have "fine_step same_value (device_claimed, None) (fst device_start, Some (snd device_start))"
    using device_dispatched by (intro fine_step.dispatch) simp_all
  moreover have "cpu_control (snd device_start) \<noteq> Finished" by (simp add: device_start_def on_cpu_def Let_def)
  then have "fine_step same_value (fst device_start, Some (snd device_start)) (fst device_asked, Some (snd device_asked))"
    using device_rounds(1) by (intro fine_step.sentence) simp_all
  moreover have "cpu_control (snd device_asked) = InMain" by code_simp
  then have "fine_step same_value (device_served, Some (snd device_asked)) (fst device_left, Some (snd device_left))"
    using device_rounds(2) by (intro fine_step.sentence) simp_all
  ultimately have steps: "fine_steps same_value (server ''SPN'' 5, None) (fst device_left, Some (snd device_left))"
    using device_claims device_others by (meson rtranclp.rtrancl_into_rtrancl rtranclp_trans)
  let ?s = "fst device_left" and ?r = "snd device_left"
  obtain i j where i: "images ?s 0 = Some i" "Tspn i = 1" "piPC i = 1" and j: "images ?s 1 = Some j" "Tspn j = 1"
    using device_end(5-7) by auto
  have line: "code_line device_lines 1 = Inr ''io(1,1)''" by code_simp
  define s' where "s' = ?s\<lparr>images := (images ?s)(0 \<mapsto> i\<lparr>Tspn := 0\<rparr>), shd := (shd ?s)\<lparr>SUSPEND := False\<rparr>\<rparr>"
  have "PROCER_finish same_value ?r ?s = Inr s'"
    using i line device_end(2-4,8-10)
    by (simp add: PROCER_finish_def load_img_def PROCER_after_def next_Tspn_def same_value_def s'_def Let_def)
  moreover have "sorted (map (estimate ?s) (LPL (sts ?s)))" "\<not> sorted (map (estimate s') (LPL (sts s')))" "LPL (sts s') = LPL (sts ?s)"
    using i j by (simp_all add: device_end(1) estimate_def s'_def)
  ultimately show ?thesis using steps device_end(1,3) by (intro exI[of _ ?s] exI[of _ ?r] exI[of _ s']) simp
qed

end
