(* ===== verification/Spec2Isabelle.thy ===== *)
theory Spec2Isabelle
  imports C_Queue C_Bitarray C_Log PP_Configure PP_STS_Files PP_Interleaved_Race
begin

text \<open>
  A model of the process server \<open>PP\<close> and its client \<open>PI\<close> (\<open>src/PROCER\<close>), which run scripts in the small
  language AnSISOP, and of the C library \<open>commons\<close> they are built on.

  \<^bold>\<open>The program.\<close> A client connects to the server, sends a script and prints what it is sent. In the
  server \<open>LTSconex\<close> (\<open>PP/src/LTS.c\<close>) admits the script if the limits \<open>MPS\<close> (processes in the system)
  and \<open>MMP\<close> (processes loaded) allow it; what exceeds \<open>MMP\<close> waits in \<open>LFIFO\<close> for \<open>LTSnew\<close>. A loaded
  process waits in one of four queues (new, resumed, end of quantum, end of I/O), from which \<open>STS\<close>
  (\<open>STS.c\<close>) moves it to the ready queue \<open>LPL\<close> by one of four algorithms. \<open>PROCER\<close> (\<open>PROCER.c\<close>) takes it
  out and lets \<open>processExecution\<close> (\<open>procer_defs.c\<close>) interpret its lines until it ends, its quantum is
  used up, it waits for the device, or \<open>SIGUSR1\<close> suspends it. The threads of \<open>io.c\<close> serve the device.
  \<open>configure.c\<close> reads \<open>pp.config\<close> at the start and whenever it changes. The threads share queues,
  each with a mutex and a semaphore that counts it, which \<open>main.c\<close> creates.

  \<^bold>\<open>Theories.\<close> Definitions keep the names of the functions they translate.
    \<^item> \<open>PP_Prelude\<close>: outcomes (\<open>'a res\<close>, with undefined behaviour, deadlock and failure to return as
      values), arrays, facts on lists.
    \<^item> \<open>C_Strings\<close> (\<open>commons/string.c\<close>, \<open>atoi\<close>, \<open>strtok_r\<close>), \<open>C_List\<close> and \<open>C_List_Spec\<close>
      (\<open>collections/list.c\<close> on a heap of nodes, and its refinement of Isabelle's lists), \<open>C_Queue\<close>
      (\<open>queue.c\<close>), \<open>C_Dictionary\<close> (\<open>dictionary.c\<close>), \<open>C_Config\<close> (\<open>config.c\<close>), \<open>C_Bitarray\<close>
      (\<open>bitarray.c\<close>), \<open>C_Log\<close> (\<open>log.c\<close>, \<open>temporal.c\<close>, \<open>error.c\<close>). The server's models use the lists and
      queues in their abstract form, which the refinements justify.
    \<^item> \<open>PP_Data\<close>, \<open>PP_Data_Spec\<close>, \<open>PP_Dump_Spec\<close>: the process image, its data and code segments, its
      stack and the text of its dump (\<open>procer_defs.c\<close>, from \<open>stackExecution\<close> on).
    \<^item> \<open>PP_Interp\<close>: the interpreter. \<open>PP_Interp_Rules\<close> gives the rule for its invariants (the locale
      \<open>exec_invariant\<close>), \<open>PP_Interp_Spec\<close> the quantum, safety and the saved stack, \<open>PP_Interp_Live\<close>
      expressions, fuel and Round Robin, \<open>PP_Interp_Effect\<close> what an execution does to shared state.
    \<^item> \<open>PP_STS\<close>, \<open>PP_STS_Spec\<close>: the scheduler, its sorting (locale \<open>bubble_sort\<close>) and the queue priorities.
    \<^item> \<open>PP_Configure\<close>: \<open>configure.c\<close> with the events of \<open>pp.config\<close>. \<open>PP_Serial\<close>: messages, sockets and
      handshakes. \<open>PP_Logs\<close>: \<open>logs_def.c\<close> of both programs; \<open>PP_STS_Files\<close>: the files the scheduler
      opens for it.
    \<^item> \<open>PI_Client\<close>: the client, from its files to its exit status; \<open>PI_Props\<close>: its conversation with the
      server.
    \<^item> \<open>PP_Threads\<close>: the other threads on the record \<open>system\<close>; \<open>PP_System\<close>: the steps of the server;
      \<open>PP_System_Inv\<close>, \<open>PP_System_Limits\<close>: its invariants; \<open>PP_System_Safe\<close>: the images always fit their
      scripts; \<open>PP_Messages\<close>: the order of what is sent; \<open>PP_Reload\<close>: the configuration thread among the
      others; \<open>PP_System_Props\<close>: properties of the server.
    \<^item> \<open>PP_LTS\<close>: the event loop of \<open>LTSconex\<close> on sockets (record \<open>lts\<close>), whose events are steps of the
      server; \<open>PP_Setup\<close>: \<open>server_defs.c\<close> and \<open>client_defs.c\<close> up to a connection, and the end of
      \<open>main\<close>; \<open>PP_Served\<close>: one script from the client's file through an empty server back to its console;
      \<open>PP_Server_Props\<close>: the properties of all that.
    \<^item> \<open>PP_Rounds\<close>: the interpreter round by round, with the rule for invariants of rounds; \<open>PP_Interleaved\<close>:
      \<open>PROCER\<close> taken apart into dispatch, rounds and end, among the steps of the other threads
      (\<open>fine_step\<close>); \<open>PP_Interleaved_Props\<close>: what holds at every moment of every interleaving;
      \<open>PP_Interleaved_Race\<close>: a race between two sentences.
  This theory holds the other properties, by component, with a concrete instance after each that has
  a hypothesis.

  \<^bold>\<open>Correspondence.\<close> A C pointer to data that is not shared is the data; images, which several threads
  reach, are addresses into \<open>images\<close>, where a freed one is \<open>None\<close>. Following a null or freed pointer,
  reading a value that was never written and leaving an array is \<open>Inl UB\<close>. \<open>int\<close> and \<open>uint16_t\<close> are words
  where the code computes with them; process and file numbers, and the value of a semaphore, are not
  bounded. \<open>double\<close> is a rational, its rounding a parameter (\<open>rnd\<close>) where the code computes with it.
  Mutexes are the atomicity of the definitions they enclose. Log lines have no effect on the state
  and are left out, but a null pointer in their arguments is followed.

  \<^bold>\<open>Interleaving.\<close> The interpreter runs against an arbitrary function \<open>env\<close> that changes the shared
  structures before every sentence (\<open>PP_Interp\<close>). In \<open>PP_System\<close> a step is what one thread does
  between two points where it may block (for \<open>LTSconex\<close>, one event of its loop), except that the
  execution of a process from dispatch to leaving is one step, in which signals arrive at every
  sentence, and a sorting round is one step. The ordering \<open>FIFO\<close> is taken apart into moves of single
  processes; the invariants under \<open>FIFO\<close> and \<open>RR\<close> hold for every order of these moves. In
  \<open>PP_Interleaved\<close> the execution is taken apart as well: a \<open>fine_step\<close> is the dispatch, one round of a loop
  of the interpreter, the end of an execution, or a step of any other thread, the one that reads the
  configuration among them, in any order. The image of
  the running process and the shared structures are in the store between two rounds, as the C code has
  them. The steps of \<open>PP_System\<close> are such interleavings (\<open>server_runs_interleave\<close>, as far as their signals
  only set \<open>SUSPEND\<close>), and the invariants, the limits and the safety of scripts hold along all of them, as
  long as the configuration names \<open>FIFO\<close> or \<open>RR\<close> whenever it is read (\<open>tame_fine\<close>). The three parts of
  reading it are steps of their own (\<open>live_step\<close> in \<open>PP_Reload\<close>).

  \<^bold>\<open>Fuel.\<close> Loops of a script need not end, so the interpreter takes fuel, one unit per loop round and
  call; \<open>outcome_independent_of_fuel\<close> says that more fuel changes nothing and \<open>round_robin_preempts\<close>
  how much is enough. The sorting loops take as many passes as there are elements, the queue
  priorities four.

  \<^bold>\<open>Not modelled.\<close> The kernel's side of the socket, epoll and inotify calls (what they deliver is a
  parameter: the events of \<open>LTSconex_events\<close>, the numbers \<open>accept\<close> returns, the bytes that have arrived, the results in
  \<open>net_calls\<close>), creating and cancelling threads, the time of day (a parameter where it is printed),
  \<open>printf\<close> formats other than the ones used, freeing of memory other than images. The client's copies of
  \<open>serialization\<close>, \<open>deserialization\<close>, \<open>readStream\<close> and \<open>writeStream\<close> are the server's, word for
  word. The calls that write log lines are left out of the server's steps, and in the client a log is the list of its messages.
\<close>

section \<open>Scripts and states for the witnesses\<close>

definition demo_script :: "string list" where
  "demo_script = [''comienzo_programa'', ''variables a,b'', ''a=3'', ''f()'', ''imprimir b'',
     ''fin_programa'',
     ''comienzo_funcion f'', ''g()'', ''imprimir b'', ''fin_funcion f'',
     ''comienzo_funcion g'', ''a=1'', ''h()'', ''b=7'', ''fin_funcion g'',
     ''comienzo_funcion h'', ''a=2'', ''fin_funcion h'']"

definition loop_script :: "string list" where
  "loop_script = [''comienzo_programa'', ''variables a'', ''otra:'', ''a=1'', ''snc,a,otra'', ''fin_programa'']"

definition demo_image :: t_ProcessImage where
  "demo_image = \<lparr>clientfd = 7, pid = 11, priority = 0, piPC = 0, piCode = [], piData = None,
     piStack = [], Tspn = 0\<rparr>"

definition demo_start :: "int \<Rightarrow> xstate" where
  "demo_start q = \<lparr>img = demo_image,
     sh = \<lparr>sendingList = [], LPB = [], LPB_empty = 0, ioThreads = 1, SUSPEND = False, ALG = ''RR'',
       quantum = q, SENT_TIME = 1\<rparr>,
     ioBlockInterrupt = False, quantumCount = 0, rafaga = 0, tick = 0, slept = []\<rparr>"

abbreviation alone :: environment where
  "alone \<equiv> \<lambda>_ s. s"



section \<open>The interpreter\<close>

text \<open>C1. Executing a well-formed script from any image that fits it never has undefined
  behaviour, whatever the other threads do between its sentences; when it stops, the image still
  fits the script and the reason is the last line, a suspension, a blocking I/O or the quantum.\<close>

theorem execution_is_safe:
  assumes "wf_code code V L" and "image_ok code V L (img st)"
  shows "safe (processExecution n code self env st)
    \<and> (\<forall>st'. processExecution n code self env st = Inr st'
         \<longrightarrow> image_ok code V L (img st') \<and> exited code st')"
  using safe_exec.processExecution_post[of code V L st n self env] assms
  by (auto dest: post_False_safe)

lemma execution_is_safe_witness:
  "safe (processExecution 9 demo_script 0 alone (demo_start 5))"
proof -
  have wf: "wf_code demo_script 1 5" by code_simp
  have im: "image_ok demo_script 1 5 (img (demo_start 5))" by code_simp
  show ?thesis using execution_is_safe[OF wf im] by blast
qed



text \<open>C8. A process never uses more than its quantum, and when it leaves the processor without
  having ended, been suspended or blocked, it has used exactly its quantum: the cases \<open>PROCER\<close>
  distinguishes afterwards cover every process.\<close>

theorem quantum_is_respected:
  assumes "keeps_quantum env" and "quantumCount st \<le> quantum (sh st)"
    and "processExecution n code self env st = Inr st'"
  shows "quantumCount st' \<le> quantum (sh st')
    \<and> (code_line code (piPC (img st')) = Inr ''fin_programa'' \<or> SUSPEND (sh st')
       \<or> ioBlockInterrupt st' \<or> quantumCount st' = quantum (sh st'))"
  using quantum_exec.processExecution_post[of env st code n self] assms
  by (auto simp: within_quantum_def exited_def running_def split: sum.splits)

lemma quantum_is_respected_witness:
  "quantumCount (case processExecution 20 demo_script 0 alone (demo_start 2) of Inr st' \<Rightarrow> st') \<le> 2"
proof -
  obtain st' where st': "processExecution 20 demo_script 0 alone (demo_start 2) = Inr st'"
    and q: "quantum (sh st') = 2"
  proof -
    have "case processExecution 20 demo_script 0 alone (demo_start 2) of
        Inl _ \<Rightarrow> False | Inr st' \<Rightarrow> quantum (sh st') = 2" by code_simp
    then show ?thesis using that by (cases "processExecution 20 demo_script 0 alone (demo_start 2)") auto
  qed
  have "quantumCount st' \<le> quantum (sh st')"
    using quantum_is_respected[OF _ _ st']
    by (simp add: keeps_quantum_def demo_start_def)
  then show ?thesis using st' q by simp
qed




text \<open>The outcome of an execution does not depend on the fuel, once there is enough of it.\<close>

theorem outcome_independent_of_fuel:
  assumes "processExecution n code self env st \<noteq> Inl NoReturn" and "n \<le> m"
  shows "processExecution m code self env st = processExecution n code self env st"
  using processExecution_fuel[OF assms(2), of code self env st] assms(1) by (simp add: fuel_le_def)

lemma outcome_independent_of_fuel_witness:
  "processExecution 100 loop_script 0 alone (demo_start 1)
     = processExecution 20 loop_script 0 alone (demo_start 1)"
proof (rule outcome_independent_of_fuel)
  have "\<not> (case processExecution 20 loop_script 0 alone (demo_start 1) of
      Inl NoReturn \<Rightarrow> True | _ \<Rightarrow> False)" by code_simp
  then show "processExecution 20 loop_script 0 alone (demo_start 1) \<noteq> Inl NoReturn" by auto
qed simp

text \<open>C31. An assignment stores in its variable the sum of the signed terms of its right-hand side,
  modulo \<open>2 ^ 32\<close>, leaves every other variable alone and sleeps once.\<close>

theorem assignment_stores_sum:
  assumes "ready st" and "terms_ok ((CHR ''='', a) # ts)" and "rest = [] \<or> hd rest = CHR '';''"
    and "v \<in> set (declared (piData (img st)))"
  shows "\<exists>st'. ins_assign (v # render_terms ((CHR ''='', a) # ts) @ rest) st = Inr st'
     \<and> readData (piData (img st')) v = Inr (sum_terms (piData (img st)) ((CHR ''='', a) # ts))
     \<and> (\<forall>u. u \<noteq> v \<longrightarrow> readData (piData (img st')) u = readData (piData (img st)) u)
     \<and> slept st' = slept st @ [sentence_time rest st]"
  using assms by (rule ins_assign_value)

definition demo_data :: "t_data list option" where
  "demo_data = Some [\<lparr>varName = CHR ''a'', varValue = 5\<rparr>, \<lparr>varName = CHR ''b'', varValue = 3\<rparr>,
     \<lparr>varName = NUL, varValue = 0\<rparr>]"

lemma assignment_stores_sum_witness:
  "\<exists>st'. ins_assign ''a=12-b+2;3'' (set_data demo_data (demo_start 9)) = Inr st'
     \<and> readData (piData (img st')) (CHR ''a'') = Inr 11"
proof -
  let ?ts = "[(CHR ''-'', ''b''), (CHR ''+'', ''2'')]" and ?st = "set_data demo_data (demo_start 9)"
  have "ready ?st" by code_simp
  moreover have "terms_ok ((CHR ''='', ''12'') # ?ts)" by code_simp
  moreover have "CHR ''a'' \<in> set (declared (piData (img ?st)))" by code_simp
  ultimately obtain st' where "ins_assign (CHR ''a'' # render_terms ((CHR ''='', ''12'') # ?ts) @ '';3'') ?st
      = Inr st'" "readData (piData (img st')) (CHR ''a'')
      = Inr (sum_terms (piData (img ?st)) ((CHR ''='', ''12'') # ?ts))"
    using assignment_stores_sum[of ?st "''12''" ?ts "'';3''" "CHR ''a''"] by auto
  moreover have "CHR ''a'' # render_terms ((CHR ''='', ''12'') # ?ts) @ '';3'' = ''a=12-b+2;3''" by code_simp
  moreover have "sum_terms (piData (img ?st)) ((CHR ''='', ''12'') # ?ts) = 11" by code_simp
  ultimately show ?thesis by auto
qed



section \<open>The data segment and the code segment\<close>

text \<open>C37. A script of at most 65533 characters becomes its lines, each cut at its comment and trimmed;
  if the last line has a comment and no newline after it, the scan reads beyond the script.\<close>

theorem script_is_cut_into_lines:
  assumes "length script \<le> 65533"
  shows "codeSegmentCreator script =
     (if CHR ''#'' \<in> set (last (split_nl script)) then Inl UB
      else Inr (map (\<lambda>l. string_trim (strip_comment l)) (split_nl script)))"
  using assms by (rule codeSegmentCreator_spec)

lemma script_is_cut_into_lines_witness:
  "codeSegmentCreator (''  a=1 #x'' @ [NL] @ ''b=2'') = Inr [''a=1'', ''b=2'']"
proof -
  let ?s = "''  a=1 #x'' @ [NL] @ ''b=2''"
  have "\<not> CHR ''#'' \<in> set (last (split_nl ?s))" by code_simp
  moreover have "map (\<lambda>l. string_trim (strip_comment l)) (split_nl ?s) = [''a=1'', ''b=2'']" by code_simp
  ultimately show ?thesis using script_is_cut_into_lines[of ?s] by simp
qed

text \<open>\<open>addVariables\<close> appends the names of a list to the data segment with the value 0, and
  keeps the names and values that were there, as long as the 16-bit count has room.\<close>

theorem variables_are_declared:
  assumes "seg_ok data" and "var_list_ok v"
    and "length (declared data) + length (var_names v) < 65535"
  shows "\<exists>d'. addVariables data v = Inr (Some d') \<and> wf_data d'
    \<and> declared (Some d') = declared data @ var_names v
    \<and> (\<forall>u. var_env (Some d') u = (case var_env data u of Some x \<Rightarrow> Some x
           | None \<Rightarrow> if u \<in> set (var_names v) then Some 0 else None))"
  using assms by (rule addVariables_spec)

lemma variables_are_declared_witness:
  "\<exists>d'. addVariables demo_data ''c,d'' = Inr (Some d') \<and> declared (Some d') = ''abcd''"
proof -
  have "seg_ok demo_data" by code_simp
  moreover have "var_list_ok ''c,d''" by code_simp
  moreover have "declared demo_data = ''ab''" "var_names ''c,d'' = ''cd''" by code_simp+
  ultimately show ?thesis using variables_are_declared[of demo_data "''c,d''"] by auto
qed

text \<open>Reading after writing: a declared variable has the value written last, and nothing else
  changes; writing an undeclared name changes nothing.\<close>

theorem data_read_after_write:
  assumes "seg_ready d" and "writeData d v x = Inr d'"
  shows "readData d' u = (if u = v \<and> v \<in> set (declared d) then Inr x else readData d u)
    \<and> declared d' = declared d"
  using ds.read_after_write[OF assms, of u] writeData_declared[OF assms] by (simp add: dom_var_env)

lemma data_read_after_write_witness:
  "\<exists>d'. writeData demo_data (CHR ''b'') 9 = Inr d' \<and> readData d' (CHR ''b'') = Inr 9
     \<and> readData d' (CHR ''a'') = Inr 5"
proof -
  have r: "seg_ready demo_data" by code_simp
  then obtain d' where w: "writeData demo_data (CHR ''b'') 9 = Inr d'" using ds.write_total by blast
  have "CHR ''b'' \<in> set (declared demo_data)" "readData demo_data (CHR ''a'') = Inr 5" by code_simp+
  then show ?thesis using data_read_after_write[OF r w] w by simp
qed

text \<open>The dump sent to the client shows the number, the program counter, the code, one line per
  variable and the activation of an image with at most 90 variables and one activation.\<close>

theorem dump_shows_image:
  assumes "piData i = Some d" and "wf_data d" and "declared (Some d) \<noteq> []"
    and "length (declared (Some d)) \<le> 90"
    and "piStack i = [] \<or> (\<exists>e. piStack i = [e] \<and> NUL \<notin> set (functionName e)
           \<and> length (render_frame e) < 65535)"
  shows "\<exists>before mid after. prepareMessage i = Inr
     (before @ ''ID='' @ show_int (pid i) @ [NL] @ ''PC='' @ show_int (int (unat (piPC i)) + 1) @ mid
      @ piCode i @ [NL] @ ''-------------------------'' @ [NL, NL] @ ''- Estructura de Datos ----'' @ [NL]
      @ concat (map render_var (butlast d)) @ [NL] @ ''-------------------------'' @ [NL, NL]
      @ ''- Estructura de Stack ----'' @ [NL] @ frames_text (piStack i) @ after)"
  using assms by (rule prepareMessage_spec)

lemma dump_shows_image_witness:
  "\<exists>t. prepareMessage (demo_image\<lparr>piData := demo_data\<rparr>) = Inr t"
proof -
  obtain d where d: "demo_data = Some d" by (simp add: demo_data_def)
  have "wf_data (the demo_data)" "declared demo_data = ''ab''" by code_simp+
  then have "wf_data d" "declared (Some d) = ''ab''" unfolding d by simp_all
  then show ?thesis
    using dump_shows_image[of "demo_image\<lparr>piData := demo_data\<rparr>" d] d
    by (elim meta_impE) (simp_all add: demo_image_def, (elim exE, intro exI)?)
qed

text \<open>With two activations or more the stack section is undefined: \<open>tmp_size\<close> is never reset,
  so the second copy reads beyond the end of its line.\<close>

theorem stack_dump_overreads:
  assumes "length (render_frame e) + length (render_frame e') < 65534"
  shows "stackStructureMsg (e # e' # es) = Inl UB"
  using assms by (rule stackStructureMsg_two)

lemma stack_dump_overreads_witness:
  "stackStructureMsg [\<lparr>functionName = ''f'', stPC = 7, linecall = 3\<rparr>,
     \<lparr>functionName = ''g'', stPC = 11, linecall = 7\<rparr>] = Inl UB"
  by (rule stack_dump_overreads) (simp add: render_frame_def show_nat.simps)

section \<open>The scheduler\<close>

definition demo_mem :: memory where
  "demo_mem p = (if p < 10 then Some (demo_image\<lparr>pid := int p, priority := word_of_nat (9 - p)\<rparr>) else None)"

definition demo_queues :: "t_queuesArray list" where
  "demo_queues = [\<lparr>qpriority = 1, qname = ''PLFQ''\<rparr>, \<lparr>qpriority = 2, qname = ''PLPN''\<rparr>,
     \<lparr>qpriority = 3, qname = ''PLFIO''\<rparr>, \<lparr>qpriority = 4, qname = ''PLPR''\<rparr>]"

definition demo_sts :: "addr list \<Rightarrow> nat \<Rightarrow> t_STSargs" where
  "demo_sts lpl k = \<lparr>LPN = [1, 2], LPR = [], LFIO = [3], LFQ = [4], LPL = lpl, LPN_empty = 2,
     LPR_empty = 0, LFIO_empty = 1, LFQ_empty = 1, LPL_empty = k, STS_in_empty = 4,
     queuesArray = demo_queues\<rparr>"

text \<open>C17. Under FIFO and Round Robin a round of the scheduler appends the waiting processes to the
  ready queue, queue by queue in the order of their priorities, and announces each of them.\<close>

theorem fifo_round:
  assumes "alg \<in> {''FIFO'', ''RR''}" and "announced mem s" and "four_queues (queuesArray s)"
  shows "STS_round n mem alg s = Inr (Some ((emptied s)\<lparr>LPL := LPL s @ all_waiting s,
     LPL_empty := LPL_empty s + length (all_waiting s),
     STS_in_empty := STS_in_empty s - length (all_waiting s)\<rparr>))"
  using assms(1) ordenarFIFO_spec[OF assms(2,3)] by (auto simp: STS_round_def strSwitch_def)

lemma fifo_round_witness:
  "\<exists>s'. STS_round 0 demo_mem ''RR'' (demo_sts [0] 1) = Inr (Some s') \<and> LPL s' = [0, 4, 1, 2, 3]"
proof -
  have "announced demo_mem (demo_sts [0] 1)"
    by (simp add: announced_def source_get_def demo_sts_def demo_mem_def)
  moreover have "four_queues (queuesArray (demo_sts [0] 1))"
    by (simp add: four_queues_def demo_sts_def demo_queues_def add_mset_commute)
  moreover have "all_waiting (demo_sts [0] 1) = [4, 1, 2, 3]" "LPL (demo_sts [0] 1) = [0]" by code_simp+
  ultimately show ?thesis using fifo_round[of "''RR''" demo_mem "demo_sts [0] 1" 0] by simp
qed



text \<open>Ordering the ready queue with nothing to insert, as \<open>configurationReader\<close> does when the
  algorithm changes, loses every ready process: \<open>list_add_in_index\<close> adds nothing to an empty list.\<close>

theorem reordering_loses_ready:
  assumes "live mem (LPL s)" and "LPL_empty s = length (LPL s)" and "length (LPL s) \<le> n" and "0 < n"
  shows "orderInsertPrioList n mem [] s = Inr (s\<lparr>LPL := [], LPL_empty := 0\<rparr>)
    \<and> orderInsertSPNList n mem [] s = Inr (s\<lparr>LPL := [], LPL_empty := 0\<rparr>)"
  using orderInsertList_spec[OF assms(1) live_Nil _ assms(4) refl refl, where key = "\<lambda>i. sint (priority i)"]
    orderInsertList_spec[OF assms(1) live_Nil _ assms(4) refl refl, where key = Tspn] assms(2,3)
  by (simp add: orderInsertPrioList_def orderInsertSPNList_def taken_all)

lemma reordering_loses_ready_witness:
  "\<exists>s'. orderInsertPrioList 3 demo_mem [] (demo_sts [0, 5] 2) = Inr s' \<and> LPL s' = []"
  using reordering_loses_ready[of demo_mem "demo_sts [0, 5] 2" 3]
  by (simp add: demo_sts_def demo_mem_def)

text \<open>When \<open>PROCER\<close> has taken its unit of \<open>LPL_empty\<close> and not yet its process, ordering still
  takes every process and announces all of them again: one announcement too many.\<close>

theorem claimed_process_announced_twice:
  assumes "live mem (LPL s)" and "live mem ps" and "ps \<noteq> []" and "Suc (LPL_empty s) = length (LPL s)"
    and "length (LPL s) + length ps \<le> n"
  shows "\<exists>s'. orderInsertPrioList n mem ps s = Inr s' \<and> LPL_empty s' = length (LPL s')
    \<and> length (LPL s') = length (LPL s) + length ps"
  using orderInsertList_spec[OF assms(1,2,5) _ refl refl, of "\<lambda>i. sint (priority i)"] assms(3-5)
  by (simp add: orderInsertPrioList_def taken_all)

lemma claimed_process_announced_twice_witness:
  "\<exists>s'. orderInsertPrioList 3 demo_mem [4] (demo_sts [0, 5] 1) = Inr s' \<and> LPL_empty s' = 3"
  using claimed_process_announced_twice[of demo_mem "demo_sts [0, 5] 1" "[4]" 3]
  by (auto simp: demo_sts_def demo_mem_def)

text \<open>\<open>reorderQueuesArrayPriority\<close> sorts the four queues by priority, and keeps the order of
  equal ones, within four passes.\<close>

theorem queue_priorities_sorted:
  assumes "length qs = 4" and "4 \<le> n"
  shows "reorderQueuesArrayPriority n qs = Inr (sort_key (\<lambda>q. sint (qpriority q)) qs)"
  using assms by (rule reorderQueuesArrayPriority_sorts)

lemma queue_priorities_sorted_witness:
  "reorderQueuesArrayPriority 4 (rev demo_queues) = Inr demo_queues"
proof -
  have "length (rev demo_queues) = 4" by code_simp
  moreover have "sort_key (\<lambda>q. sint (qpriority q)) (rev demo_queues) = demo_queues" by code_simp
  ultimately show ?thesis using queue_priorities_sorted by simp
qed

section \<open>The collections and strings of \<open>commons\<close>\<close>

text \<open>A list of two nodes in the heap, built by the code.\<close>

definition two_nodes :: "nat heap" where
  "two_nodes = \<lparr>cells = [0 \<mapsto> \<lparr>ldata = 10, lnext = Some 1\<rparr>, 1 \<mapsto> \<lparr>ldata = 20, lnext = None\<rparr>], brk = 2\<rparr>"

definition two_list :: t_list where
  "two_list = \<lparr>head = Some 0, elements_count = 2\<rparr>"

lemma two_list_at: "list_at two_nodes two_list [0, 1] [10, 20]"
  by (simp add: list_at_def two_nodes_def two_list_def)

text \<open>The updates of the linked list refine the abstract ones: appending, inserting before a
  position (only inside the list), replacing; the rest of the heap stays as it was.\<close>

theorem list_updates_refine:
  assumes "list_at h l as xs"
  shows "(\<exists>l' h' as'. list_add l x h = Inr (int (length xs), l', h')
       \<and> list_at h' l' as' (ls_add xs x) \<and> frame (set as) h h')
    \<and> (\<exists>l' h' as'. list_add_in_index l i x h = Inr (l', h')
       \<and> list_at h' l' as' (ls_add_in_index xs i x) \<and> frame (set as) h h')
    \<and> (\<exists>h'. list_replace l i x h = Inr (ls_get xs i, h')
       \<and> list_at h' l as (ls_replace xs i x) \<and> frame (set as) h h')"
proof (intro conjI)
  show "\<exists>l' h' as'. list_add l x h = Inr (int (length xs), l', h')
       \<and> list_at h' l' as' (ls_add xs x) \<and> frame (set as) h h'"
    using list_add_at[OF assms, of x] by blast
  show "\<exists>l' h' as'. list_add_in_index l i x h = Inr (l', h')
       \<and> list_at h' l' as' (ls_add_in_index xs i x) \<and> frame (set as) h h'"
  proof (cases "0 \<le> i \<and> i < int (length xs)")
    case True
    then show ?thesis using list_add_in_index_at[OF assms] by blast
  next
    case False
    then show ?thesis using list_add_in_index_out[OF assms, of i x] assms by fastforce
  qed
  show "\<exists>h'. list_replace l i x h = Inr (ls_get xs i, h')
       \<and> list_at h' l as (ls_replace xs i x) \<and> frame (set as) h h'"
    using list_replace_at[OF assms] by blast
qed

lemma list_updates_refine_witness:
  "\<exists>l' h' as'. list_add_in_index two_list 1 15 two_nodes = Inr (l', h') \<and> list_at h' l' as' [10, 15, 20]"
  using list_updates_refine[OF two_list_at, of 15 1] by (auto simp: ls_add_in_index_def)

text \<open>C33. Removing the element at a position: the empty list gives a null pointer, a position
  outside is undefined behaviour, and inside the element comes out and its node is unlinked.\<close>

theorem list_remove_refines_abstract:
  assumes "list_at h l as xs"
  shows "case ls_remove xs i of
      Inl e \<Rightarrow> list_remove l i h = Inl e
    | Inr (x, xs') \<Rightarrow> \<exists>l' h' as'. list_remove l i h = Inr (x, l', h') \<and> list_at h' l' as' xs'
        \<and> set as' \<subseteq> set as \<and> frame (set as) h h'"
  using assms by (rule list_remove_refines)

lemma list_remove_refines_abstract_witness:
  "\<exists>l' h' as'. list_remove two_list 0 two_nodes = Inr (Some 10, l', h') \<and> list_at h' l' as' [20]"
  using list_remove_refines_abstract[OF two_list_at, of 0] by auto

text \<open>Searching by a condition finds the first element that satisfies it, or nothing, and
  removing by a condition removes that one only.\<close>

theorem list_search_refines:
  assumes "list_at h l as xs"
  shows "list_find l c h = Inr (find c xs)
    \<and> (\<exists>l' h' as'. list_remove_by_condition l c h = Inr (find c xs, l', h')
       \<and> list_at h' l' as' (takeWhile (\<lambda>x. \<not> c x) xs @ tl (dropWhile (\<lambda>x. \<not> c x) xs))
       \<and> frame (set as) h h')"
  using list_find_at[OF assms] list_remove_by_condition_at[OF assms, of c]
  by (auto simp: find_pos_takeWhile find_pos_dropWhile)

lemma list_search_refines_witness:
  "\<exists>l' h' as'. list_remove_by_condition two_list (\<lambda>x. 15 < x) two_nodes = Inr (Some 20, l', h')
     \<and> list_at h' l' as' [10]"
  using list_search_refines[OF two_list_at, of "\<lambda>x. 15 < x"] by auto

text \<open>The queue is first in, first out: what is pushed into an empty queue comes out in the same
  order, and then the queue is empty.\<close>

theorem queue_is_fifo:
  assumes "queue_at h q []"
  shows "\<exists>q1 h1 q2 h2. push_all queue_push q ys h = Inr (q1, h1) \<and> queue_size q1 = int (length ys)
     \<and> pop_n queue_pop (length ys) q1 h1 = Inr (map Some ys, q2, h2)
     \<and> queue_pop q2 h2 = Inr (None, q2, h2)"
  using assms by (rule cq.first_in_first_out)

lemma queue_is_fifo_witness:
  "\<exists>q1 h1 q2 h2. push_all queue_push queue_create [3, 1, 2 :: nat] two_nodes = Inr (q1, h1)
     \<and> pop_n queue_pop 3 q1 h1 = Inr ([Some 3, Some 1, Some 2], q2, h2)"
proof -
  have "queue_at two_nodes queue_create []"
    unfolding queue_at_def queue_create_def by (intro exI[of _ "[]"]) simp
  from queue_is_fifo[OF this, of "[3, 1, 2]"] show ?thesis by (auto simp: numeral_3_eq_3)
qed

text \<open>\<open>list_filter\<close>, \<open>list_map\<close> and \<open>list_add_all\<close> leave their argument alone and build the filtered,
  mapped or concatenated list in nodes of their own.\<close>

theorem list_traversals_refine:
  assumes "list_at h l as xs"
  shows "(\<exists>l' h'. list_filter l c h = Inr (l', h') \<and> beside h' l' as (filter c xs) \<and> list_at h' l as xs)
    \<and> (\<exists>l' h'. list_map l f h = Inr (l', h') \<and> beside h' l' as (map f xs) \<and> list_at h' l as xs)
    \<and> (beside h l2 as ys \<longrightarrow>
        (\<exists>l' h'. list_add_all l2 l h = Inr (l', h') \<and> beside h' l' as (ys @ xs) \<and> list_at h' l as xs))"
  using list_filter_at[OF assms] list_map_at[OF assms] list_add_all_at[OF assms] by blast

lemma list_traversals_refine_witness:
  "\<exists>l' h'. list_add_all list_create two_list two_nodes = Inr (l', h') \<and> beside h' l' [0, 1] [10, 20]"
  using list_traversals_refine[OF two_list_at] beside_create[of two_nodes "[0, 1]"]
  by (metis append_Nil)

text \<open>\<open>string_trim\<close> removes blanks from the front and white space from the end, and nothing else.\<close>

theorem trim_removes_spaces:
  "(\<exists>l r. s = l @ string_trim s @ r \<and> (\<forall>c \<in> set l. isblank c) \<and> (\<forall>c \<in> set r. isspace c))
   \<and> (string_trim s = [] \<or> \<not> isblank (hd (string_trim s)) \<and> \<not> isspace (last (string_trim s)))"
  using string_trim_parts[of s] hd_string_trim[of s] last_string_trim[of s] by blast

lemma trim_removes_spaces_witness: "\<not> isspace (last (string_trim '' ab  ''))"
proof -
  have "string_trim '' ab  '' \<noteq> []" by code_simp
  then show ?thesis using trim_removes_spaces[of "'' ab  ''"] by blast
qed

text \<open>\<open>string_split\<close> delivers non-empty tokens without separators which together are the text
  without its separators.\<close>

theorem split_delivers_tokens:
  "(\<forall>tok \<in> set (string_split t sep). tok \<noteq> [] \<and> set tok \<inter> set sep = {})
   \<and> concat (string_split t sep) = filter (\<lambda>c. c \<notin> set sep) t"
  using string_split_tokens concat_string_split by blast

lemma split_delivers_tokens_witness: "concat (string_split ''a,,b'' '','') = ''ab''"
proof -
  have "filter (\<lambda>c. c \<notin> set '','') ''a,,b'' = ''ab''" by code_simp
  then show ?thesis using split_delivers_tokens[of "''a,,b''" "'',''"] by simp
qed

section \<open>Messages\<close>

text \<open>C30. What \<open>writeStream\<close> and \<open>writeStreamPri\<close> send, \<open>readStream\<close> and \<open>readStreamPri\<close> read: if the
  sender's socket takes the whole message and the receiver's \<open>recv\<close> calls find it whole, the same
  message (and priority) comes out and what follows it on the wire is left for the next call.\<close>

theorem stream_round_trip:
  assumes m: "short_message m" "short_script (m', p)"
    and snd: "acceptances s = Accept n # as" "65535 \<le> n"
  shows "(\<exists>b. writeStream m s = Inr (True, s\<lparr>acceptances := as, tx := tx s @ b\<rparr>)
       \<and> (\<forall>r later n1 n2 as'. rx r = b @ later \<and> arrivals r = Avail n1 # Avail n2 # as' \<and> 3 \<le> n1 \<and> 65535 \<le> n2
            \<longrightarrow> readStream r = Inr (Some m, r\<lparr>rx := later, arrivals := as'\<rparr>)))
    \<and> (\<exists>b. writeStreamPri m' p s = Inr (True, s\<lparr>acceptances := as, tx := tx s @ b\<rparr>)
       \<and> (\<forall>r later n1 n2 as'. rx r = b @ later \<and> arrivals r = Avail n1 # Avail n2 # as' \<and> 3 \<le> n1 \<and> 65535 \<le> n2
            \<longrightarrow> readStreamPri r = Inr (Some (m', p), r\<lparr>rx := later, arrivals := as'\<rparr>)))"
proof (intro conjI)
  have sends: "send_stream b s = Inr (True, s\<lparr>acceptances := as, tx := tx s @ st_data b\<rparr>)"
    if "3 \<le> length (st_data b)" "length (st_data b) < 65536" "st_length b = of_nat (length (st_data b))" for b
  proof -
    have "st_data b \<noteq> []" using that(1) by auto
    then show ?thesis using that snd by (simp add: send_stream_def send_def unat_of_small)
  qed
  obtain b where b: "serialization m = Inr b" "3 \<le> length (st_data b)" "length (st_data b) < 65536"
      "st_length b = of_nat (length (st_data b))"
    using plain_format.encodes[OF m(1)] by blast
  show "\<exists>b. writeStream m s = Inr (True, s\<lparr>acceptances := as, tx := tx s @ b\<rparr>)
       \<and> (\<forall>r later n1 n2 as'. rx r = b @ later \<and> arrivals r = Avail n1 # Avail n2 # as' \<and> 3 \<le> n1 \<and> 65535 \<le> n2
            \<longrightarrow> readStream r = Inr (Some m, r\<lparr>rx := later, arrivals := as'\<rparr>))"
    using plain_format.read_one[OF m(1) b(1)] b sends[OF b(2-4)]
    by (intro exI[of _ "st_data b"]) (auto simp: writeStream_def readStream_def)
  obtain c where c: "serializationPri m' p = Inr c" "3 \<le> length (st_data c)" "length (st_data c) < 65536"
      "st_length c = of_nat (length (st_data c))"
    using script_format.encodes[OF m(2)] by auto
  show "\<exists>b. writeStreamPri m' p s = Inr (True, s\<lparr>acceptances := as, tx := tx s @ b\<rparr>)
       \<and> (\<forall>r later n1 n2 as'. rx r = b @ later \<and> arrivals r = Avail n1 # Avail n2 # as' \<and> 3 \<le> n1 \<and> 65535 \<le> n2
            \<longrightarrow> readStreamPri r = Inr (Some (m', p), r\<lparr>rx := later, arrivals := as'\<rparr>))"
    using script_format.read_one[OF m(2), of c] c sends[OF c(2-4)]
    by (intro exI[of _ "st_data c"]) (auto simp: writeStreamPri_def readStreamPri_def)
qed

definition hello :: t_data_stream where
  "hello = \<lparr>ds_type = CHR ''N'', ds_data = ''hola'' @ [NUL]\<rparr>"

lemma stream_round_trip_witness:
  "\<exists>b. writeStream hello \<lparr>rx = [], arrivals = [], tx = [], acceptances = [Accept 65535]\<rparr>
       = Inr (True, \<lparr>rx = [], arrivals = [], tx = b, acceptances = []\<rparr>)
     \<and> readStream \<lparr>rx = b, arrivals = [Avail 3, Avail 65535], tx = [], acceptances = []\<rparr>
       = Inr (Some hello, \<lparr>rx = [], arrivals = [], tx = [], acceptances = []\<rparr>)"
proof -
  have "text_message hello" unfolding text_message_def hello_def by (intro exI[of _ "''hola''"]) simp
  then have "short_message hello" "short_script (hello, 3)" by (simp_all add: short_message_def short_script_def hello_def)
  from stream_round_trip[OF this, of "\<lparr>rx = [], arrivals = [], tx = [], acceptances = [Accept 65535]\<rparr>" 65535 "[]"]
  obtain b where "writeStream hello \<lparr>rx = [], arrivals = [], tx = [], acceptances = [Accept 65535]\<rparr>
       = Inr (True, \<lparr>rx = [], arrivals = [], tx = b, acceptances = []\<rparr>)"
    "\<forall>r later n1 n2 as'. rx r = b @ later \<and> arrivals r = Avail n1 # Avail n2 # as' \<and> 3 \<le> n1 \<and> 65535 \<le> n2
            \<longrightarrow> readStream r = Inr (Some hello, r\<lparr>rx := later, arrivals := as'\<rparr>)"
    by auto
  note b = this
  have "readStream \<lparr>rx = b, arrivals = [Avail 3, Avail 65535], tx = [], acceptances = []\<rparr>
       = Inr (Some hello, \<lparr>rx = [], arrivals = [], tx = [], acceptances = []\<rparr>)"
    using b(2)[rule_format, of "\<lparr>rx = b, arrivals = [Avail 3, Avail 65535], tx = [], acceptances = []\<rparr>" "[]" 3 65535 "[]"]
    by simp
  with b(1) show ?thesis by blast
qed

text \<open>The 16-bit length of a message: a text of at most 65531 characters is sent with its length, a
  longer one overflows the buffer, which has the truncated length.\<close>

theorem message_length_limit:
  assumes "ds_data m = t @ [NUL]" and "NUL \<notin> set t"
  shows "(length t \<le> 65531 \<longrightarrow> (\<exists>b. serialization m = Inr b \<and> unat (st_length b) = length t + 4
       \<and> length (st_data b) = length t + 4))
    \<and> (65531 < length t \<longrightarrow> serialization m = Inl UB)"
proof (intro conjI impI)
  assume len: "length t \<le> 65531"
  then have "unat (of_nat (length t + 4) :: u16) = length t + 4" by (intro unat_of_small) simp
  then show "\<exists>b. serialization m = Inr b \<and> unat (st_length b) = length t + 4 \<and> length (st_data b) = length t + 4"
    using serialization_spec[OF assms len] by simp
qed (rule serialization_overflow[OF assms])

lemma message_length_limit_witness:
  "serialization \<lparr>ds_type = CHR ''N'', ds_data = replicate 65532 (CHR ''a'') @ [NUL]\<rparr> = Inl UB"
  using message_length_limit[of "\<lparr>ds_type = CHR ''N'', ds_data = replicate 65532 (CHR ''a'') @ [NUL]\<rparr>"
      "replicate 65532 (CHR ''a'')"] by simp

section \<open>Dictionaries and configurations\<close>



text \<open>\<open>dictionary_iterator\<close> does not return if two elements share a chain: it calls the closure on the
  first of them for ever.\<close>

theorem iterator_does_not_end:
  assumes "c \<in> set (table d)" and "1 < length c" and "\<And>k e st. \<exists>st'. closure k e st = Inr st'"
  shows "dictionary_iterator n d closure st = Inl NoReturn"
  using iterate_table_stuck[of closure "table d" n st] assms unfolding dictionary_iterator_def by blast

lemma iterator_does_not_end_witness:
  "dictionary_iterator 9 \<lparr>table = [[dictionary_create_element ''a'' 5 (Some ()), dictionary_create_element ''b'' 6 None]],
     table_max_size = 1, table_current_size = 1, elements_amount = 2\<rparr> (\<lambda>k e st. Inr (st + 1)) (0 :: nat) = Inl NoReturn"
  by (rule iterator_does_not_end) auto

text \<open>C39. A configuration file whose lines are comments or have a character besides \<open>=\<close> is read, and a
  key has the value of the first line with a key of its hash; a line of \<open>=\<close> only crashes.\<close>

theorem configuration_file_is_read:
  "(config_ok content \<longrightarrow> (\<exists>cfg. config_create p (Some content) = Inr cfg
       \<and> (\<forall>k. config_get_string_value cfg k = lookup_line content k)))
   \<and> (line \<in> set (string_split (cstring content) [NL]) \<and> set line \<subseteq> {CHR ''=''} \<longrightarrow>
       config_create p (Some content) = Inl UB)"
  using config_create_spec[of content p] config_create_bad_line[of line content p] by blast

lemma configuration_file_is_read_witness:
  "\<exists>cfg. config_create ''pp'' (Some (''ALG=RR'' @ [NL] @ ''MMP=3'')) = Inr cfg
     \<and> config_get_string_value cfg ''ALG'' = Some ''RR''"
proof -
  let ?c = "''ALG=RR'' @ [NL] @ ''MMP=3''"
  have lines: "config_lines ?c = [''ALG=RR'', ''MMP=3'']" by code_simp
  have "config_ok ?c" unfolding config_ok_def lines by simp
  moreover have "line_pair ''ALG=RR'' = (''ALG'', Some ''RR'')" by code_simp
  then have "lookup_line ?c ''ALG'' = Some ''RR''" unfolding lookup_line_def lines by simp
  ultimately show ?thesis using configuration_file_is_read[of ?c "''pp''"] by metis
qed

text \<open>C34. Reading a configuration again while the server runs: the algorithm, the sentence time and the
  priorities of the four queues, which are sorted by them, are taken over, all other values stay as
  they were; and if the new algorithm is \<open>PRI\<close> or \<open>SPN\<close> the ready queue is emptied.\<close>

theorem reloading_configuration:
  assumes ready: "flagReady cs" and s: "s = fakeSTSargs cs"
    and queue: "live mem (LPL s)" "LPL_empty s = length (LPL s)" "length (LPL s) \<le> n" "4 \<le> n"
    and four: "length (queuesArray s) = 4"
    and keys: "has_keys config (''ALG'' # ''SENT_TIME'' # map qname (queuesArray s))"
    and alg: "config_get_string_value config ''ALG'' = Some alg"
  shows "configurationReader n mem config cs = Inr (cs\<lparr>cALG := Some alg,
     cSENT_TIME := atoi (the (config_get_string_value config ''SENT_TIME'')),
     fakeSTSargs := (if alg = ''PRI'' \<or> alg = ''SPN'' then s\<lparr>LPL := [], LPL_empty := 0\<rparr> else s)
       \<lparr>queuesArray := sort_key (\<lambda>q. sint (qpriority q)) (map (\<lambda>q.
          q\<lparr>qpriority := atoi (the (config_get_string_value config (qname q)))\<rparr>) (queuesArray s))\<rparr>\<rparr>)"
  using configurationReader_spec[OF s queue four keys _ alg refl refl] ready
  by (simp add: after_ALG_def configured_def[abs_def])

definition demo_config :: t_config where
  "demo_config = \<lparr>path = ''pp'', properties = foldl (\<lambda>d (k, v). dictionary_put d k v) dictionary_create
     [(''ALG'', Some ''PRI''), (''SENT_TIME'', Some ''3''), (''PLPN'', Some ''4''), (''PLPR'', Some ''1''),
      (''PLFQ'', Some ''2''), (''PLFIO'', Some ''3'')]\<rparr>"

lemma demo_config_get: "config_get_string_value demo_config k =
   (case find (\<lambda>(k', v). dictionary_hash k' = dictionary_hash k)
     [(''ALG'', Some ''PRI''), (''SENT_TIME'', Some ''3''), (''PLPN'', Some ''4''), (''PLPR'', Some ''1''),
      (''PLFQ'', Some ''2''), (''PLFIO'', Some ''3'')] of None \<Rightarrow> None | Some (k', v) \<Rightarrow> v)"
  unfolding config_get_string_value_def demo_config_def t_config.simps dict.get_put_all ..

lemma demo_config_keys: "has_keys demo_config [''ALG'', ''SENT_TIME'', ''PLPN'', ''PLPR'', ''PLFQ'', ''PLFIO'']"
  "config_get_string_value demo_config ''ALG'' = Some ''PRI''"
  by (auto simp: has_keys_def demo_config_get)

lemma reloading_configuration_witness:
  "\<exists>cs. configurationReader 9 (\<lambda>_. Some demo_image) demo_config
      \<lparr>cMPS = 9, cMMP = 5, cquantum = 2, cPORT = 0, cIO_TIME = 1, cIO_THREADS = 1, cTANT = 1, cALFA = 0,
        cSENT_TIME = 1, cALG = Some ''RR'', flagReady = True,
        fakeSTSargs = \<lparr>LPN = [], LPR = [], LFIO = [], LFQ = [], LPL = [4, 5], LPN_empty = 0, LPR_empty = 0,
          LFIO_empty = 0, LFQ_empty = 0, LPL_empty = 2, STS_in_empty = 0, queuesArray = initial_queues\<rparr>\<rparr> = Inr cs
    \<and> cMMP cs = 5 \<and> LPL (fakeSTSargs cs) = []"
proof -
  let ?s = "\<lparr>LPN = [], LPR = [], LFIO = [], LFQ = [], LPL = [4, 5], LPN_empty = 0, LPR_empty = 0,
    LFIO_empty = 0, LFQ_empty = 0, LPL_empty = 2, STS_in_empty = 0, queuesArray = initial_queues\<rparr>"
  let ?cs = "\<lparr>cMPS = 9, cMMP = 5, cquantum = 2, cPORT = 0, cIO_TIME = 1, cIO_THREADS = 1, cTANT = 1, cALFA = 0,
    cSENT_TIME = 1, cALG = Some ''RR'', flagReady = True, fakeSTSargs = ?s\<rparr>"
  have "live (\<lambda>_. Some demo_image) (LPL ?s)" by (simp add: live_def)
  moreover have "map qname (queuesArray ?s) = [''PLPN'', ''PLPR'', ''PLFQ'', ''PLFIO'']" by (simp add: initial_queues_def)
  ultimately show ?thesis
    using reloading_configuration[of ?cs ?s "\<lambda>_. Some demo_image" 9 demo_config "''PRI''"] demo_config_keys
    by (simp add: initial_queues_def)
qed

text \<open>C35. The configuration while the server runs, through any sequence of events and whatever the other
  threads do to the queues between them: the limits, the quantum, the numbers of the device and the
  constants of the estimate stay as they were read at the start; an event of another file changes
  nothing; and an event of \<open>pp.config\<close> while the file cannot be opened or has no line for \<open>ALG\<close>, as just
  after an editor has truncated it, makes the server follow a null pointer.\<close>

theorem watching_configuration:
  assumes "configure_events n es cs = Inr cs'"
  shows "(flagReady cs \<longrightarrow> fixed_values cs' = fixed_values cs \<and> flagReady cs')
    \<and> (ev_name ev \<noteq> Some ''pp.config'' \<longrightarrow>
         configure_events n (es @ [(others, mem, ev, content)]) cs
           = Inr (cs'\<lparr>fakeSTSargs := others (fakeSTSargs cs')\<rparr>))
    \<and> (IN_MODIFY ev \<and> ev_name ev = Some ''pp.config'' \<and> no_algorithm content \<longrightarrow>
         configure_events n (es @ (others, mem, ev, content) # es') cs = Inl UB)"
  using configure_events_fixed[OF assms] event_no_algorithm[of ev content n others mem cs']
  by (auto simp: configure_events_append assms on_event_def split: option.splits)

lemma watching_configuration_witness:
  "\<forall>cs. configure_events 9 [(id, \<lambda>_. None, \<lparr>IN_MODIFY = True, ev_name = Some ''pp.log''\<rparr>, None),
      (id, \<lambda>_. None, \<lparr>IN_MODIFY = True, ev_name = Some ''pp.config''\<rparr>, Some [])] cs = Inl UB"
proof
  fix cs
  have "no_algorithm (Some [])" by code_simp
  moreover have "configure_events 9 [(id, \<lambda>_. None, \<lparr>IN_MODIFY = True, ev_name = Some ''pp.log''\<rparr>, None)] cs = Inr cs"
    using watching_configuration[of 9 "[]" cs cs "\<lparr>IN_MODIFY = True, ev_name = Some ''pp.log''\<rparr>" id "\<lambda>_. None" None]
    by simp
  ultimately show "configure_events 9 [(id, \<lambda>_. None, \<lparr>IN_MODIFY = True, ev_name = Some ''pp.log''\<rparr>, None),
      (id, \<lambda>_. None, \<lparr>IN_MODIFY = True, ev_name = Some ''pp.config''\<rparr>, Some [])] cs = Inl UB"
    using watching_configuration[of 9 "[(id, \<lambda>_. None, \<lparr>IN_MODIFY = True, ev_name = Some ''pp.log''\<rparr>, None)]" cs cs
        "\<lparr>IN_MODIFY = True, ev_name = Some ''pp.config''\<rparr>" id "\<lambda>_. None" "Some []" "[]"]
    by simp
qed

end
